(* ===== verification/Prelude.thy ===== *)
theory Prelude
  imports Main "HOL-Library.Word" "HOL-Library.Sublist" "HOL-Library.Char_ord"
    "HOL-Library.List_Lexorder"
begin

text \<open>
  Shared vocabulary of the development: results with errors, the list operations that Go's
  packages \<open>slices\<close>, \<open>strings\<close> and \<open>bytes\<close> offer on sequences, and
  the lemmas about them that several components use.

  A Go string or byte slice is a list of \<open>char\<close>; an Isabelle \<open>char\<close> is one
  byte. A Go function that returns \<open>(value, error)\<close> returns a sum: \<open>Inl\<close> the
  error, \<open>Inr\<close> the value.
\<close>

named_theorems split_join "splitting at a separator and joining again"
named_theorems trimming "laws of trimming and cutting strings"

named_theorems evaluate "equations that evaluate the model on closed terms"

subsection \<open>Results\<close>

type_synonym ('e, 'a) result = "'e + 'a"

fun rbind :: "('e, 'a) result \<Rightarrow> ('a \<Rightarrow> ('e, 'b) result) \<Rightarrow> ('e, 'b) result" where
  "rbind (Inl e) f = Inl e"
| "rbind (Inr x) f = f x"

definition require :: "bool \<Rightarrow> 'e \<Rightarrow> ('e, unit) result" where
  "require b e = (if b then Inr () else Inl e)"

lemma rbind_Inr_iff [simp]: "rbind m f = Inr y \<longleftrightarrow> (\<exists>x. m = Inr x \<and> f x = Inr y)"
  by (cases m) auto

lemma rbind_Inl_iff: "rbind m f = Inl e \<longleftrightarrow> m = Inl e \<or> (\<exists>x. m = Inr x \<and> f x = Inl e)"
  by (cases m) auto

lemma require_Inr_iff [simp]: "require b e = Inr u \<longleftrightarrow> b"
  by (simp add: require_def)

lemma require_Inl_iff [simp]: "require b e = Inl e' \<longleftrightarrow> \<not> b \<and> e' = e"
  by (auto simp: require_def)

definition of_option :: "'e \<Rightarrow> 'a option \<Rightarrow> ('e, 'a) result" where
  "of_option e m = (case m of None \<Rightarrow> Inl e | Some x \<Rightarrow> Inr x)"

definition wrap_error :: "('e \<Rightarrow> 'f) \<Rightarrow> ('e, 'a) result \<Rightarrow> ('f, 'a) result" where
  "wrap_error f m = (case m of Inl e \<Rightarrow> Inl (f e) | Inr x \<Rightarrow> Inr x)"

lemma of_option_Inr_iff [simp]: "of_option e m = Inr x \<longleftrightarrow> m = Some x"
  by (cases m) (auto simp: of_option_def)

lemma of_option_simps [simp]: "of_option e (Some x) = Inr x" "of_option e None = Inl e"
  by (simp_all add: of_option_def)

lemma wrap_error_Inr_iff [simp]: "wrap_error f m = Inr x \<longleftrightarrow> m = Inr x"
  by (cases m) (auto simp: wrap_error_def)

lemma wrap_error_Inr [simp]: "wrap_error f (Inr x) = Inr x"
  by (simp add: wrap_error_def)

text \<open>A loop over a slice with its index that stops at the first error and collects the
  results.\<close>

fun traverse_from :: "nat \<Rightarrow> (nat \<Rightarrow> 'a \<Rightarrow> ('e, 'b) result) \<Rightarrow> 'a list \<Rightarrow> ('e, 'b list) result" where
  "traverse_from i f [] = Inr []"
| "traverse_from i f (x # xs) =
     rbind (f i x) (\<lambda>y. rbind (traverse_from (Suc i) f xs) (\<lambda>ys. Inr (y # ys)))"

abbreviation traverse :: "(nat \<Rightarrow> 'a \<Rightarrow> ('e, 'b) result) \<Rightarrow> 'a list \<Rightarrow> ('e, 'b list) result" where
  "traverse \<equiv> traverse_from 0"

lemma traverse_from_length: "traverse_from i f xs = Inr ys \<Longrightarrow> length ys = length xs"
  by (induction xs arbitrary: i ys) auto

lemma traverse_from_all:
  assumes "traverse_from i f xs = Inr ys" and "\<And>i x y. f i x = Inr y \<Longrightarrow> P y"
  shows "\<forall>y \<in> set ys. P y"
  using assms(1) by (induction xs arbitrary: i ys) (auto dest: assms(2))

lemma traverse_from_fixed:
  assumes "\<And>i x. x \<in> set xs \<Longrightarrow> f i x = Inr x"
  shows "traverse_from i f xs = Inr xs"
  using assms by (induction xs arbitrary: i) auto

lemma traverse_from_fixpoint:
  assumes "traverse_from i f xs = Inr ys" and "\<And>i j x y. f i x = Inr y \<Longrightarrow> f j y = Inr y"
  shows "traverse_from j f ys = Inr ys"
  using assms(1) by (induction xs arbitrary: i j ys) (auto dest: assms(2))

lemma traverse_from_Nil_iff: "traverse_from i f xs = Inr [] \<longleftrightarrow> xs = []"
  by (cases xs) auto

subsection \<open>Prefixes, suffixes and substrings\<close>

abbreviation has_prefix :: "'a list \<Rightarrow> 'a list \<Rightarrow> bool" where
  "has_prefix s p \<equiv> prefix p s"

abbreviation has_suffix :: "'a list \<Rightarrow> 'a list \<Rightarrow> bool" where
  "has_suffix s p \<equiv> suffix p s"

abbreviation contains :: "'a list \<Rightarrow> 'a list \<Rightarrow> bool" where
  "contains s p \<equiv> sublist p s"

definition trim_prefix :: "'a list \<Rightarrow> 'a list \<Rightarrow> 'a list" where
  "trim_prefix s p = (if has_prefix s p then drop (length p) s else s)"

definition trim_suffix :: "'a list \<Rightarrow> 'a list \<Rightarrow> 'a list" where
  "trim_suffix s p = (if has_suffix s p then take (length s - length p) s else s)"

definition cut_prefix :: "'a list \<Rightarrow> 'a list \<Rightarrow> 'a list option" where
  "cut_prefix s p = (if has_prefix s p then Some (drop (length p) s) else None)"

lemma cut_prefix_Some_iff: "cut_prefix s p = Some t \<longleftrightarrow> s = p @ t"
  by (auto simp: cut_prefix_def prefix_def)

lemma trim_prefix_append [simp, trimming]: "trim_prefix (p @ s) p = s"
  by (simp add: trim_prefix_def)

lemma trim_prefix_no [trimming]: "\<not> has_prefix s p \<Longrightarrow> trim_prefix s p = s"
  by (simp add: trim_prefix_def)

lemma trim_suffix_append [simp, trimming]: "trim_suffix (s @ p) p = s"
  by (simp add: trim_suffix_def suffix_def)

lemma trim_suffix_no [trimming]: "\<not> has_suffix s p \<Longrightarrow> trim_suffix s p = s"
  by (simp add: trim_suffix_def)

lemma trim_suffix_cases: "trim_suffix s p = s \<and> \<not> has_suffix s p \<or> s = trim_suffix s p @ p"
  by (auto simp: trim_suffix_def suffix_def)

lemma trim_suffix_prefix: "prefix (trim_suffix s p) s"
  by (auto simp: trim_suffix_def take_is_prefix)

lemma set_trim_suffix: "set (trim_suffix s p) \<subseteq> set s"
  by (auto simp: trim_suffix_def dest: in_set_takeD)

lemma suffix_singleton_iff: "suffix [c] s \<longleftrightarrow> s \<noteq> [] \<and> last s = c"
  by (metis append_butlast_last_id last_snoc suffix_def snoc_eq_iff_butlast)

lemma prefix_drop_iff: "prefix p s \<longleftrightarrow> (\<exists>t. s = p @ t)"
  by (auto simp: prefix_def)

lemma sublist_take_drop: "sublist (take n (drop m s)) s"
proof -
  have "s = take m s @ take n (drop m s) @ drop n (drop m s)"
    by (metis append_take_drop_id)
  then show ?thesis by (metis sublist_def)
qed

lemma sublist_at_iff: "sublist p s \<longleftrightarrow> (\<exists>i \<le> length s. prefix p (drop i s))"
proof
  assume "sublist p s"
  then obtain a b where "s = a @ p @ b" by (auto simp: sublist_def)
  then have "length a \<le> length s \<and> prefix p (drop (length a) s)" by simp
  then show "\<exists>i \<le> length s. prefix p (drop i s)" by blast
next
  assume "\<exists>i \<le> length s. prefix p (drop i s)"
  then obtain i t where "drop i s = p @ t" by (auto simp: prefix_def)
  then have "s = take i s @ p @ t" by (metis append_take_drop_id)
  then show "sublist p s" by (metis sublist_def)
qed

subsection \<open>Splitting at a one-byte separator\<close>

text \<open>\<open>strings.Split\<close> and \<open>strings.SplitSeq\<close> with a one-byte separator.\<close>

fun split_on :: "'a \<Rightarrow> 'a list \<Rightarrow> 'a list list" where
  "split_on c [] = [ [] ]"
| "split_on c (x # xs) =
     (if x = c then [] # split_on c xs
      else (case split_on c xs of [] \<Rightarrow> [ [x] ] | w # ws \<Rightarrow> (x # w) # ws))"

text \<open>\<open>strings.Join\<close>.\<close>

fun join_with :: "'a list \<Rightarrow> 'a list list \<Rightarrow> 'a list" where
  "join_with sep [] = []"
| "join_with sep [w] = w"
| "join_with sep (w # v # ws) = w @ sep @ join_with sep (v # ws)"

lemma split_on_nonempty [simp]: "split_on c s \<noteq> []"
  by (induction s) (auto split: list.splits)

lemma join_with_Cons: "ws \<noteq> [] \<Longrightarrow> join_with sep (w # ws) = w @ sep @ join_with sep ws"
  by (cases ws) auto

lemma join_with_append [split_join]:
  "xs \<noteq> [] \<Longrightarrow> ys \<noteq> [] \<Longrightarrow> join_with sep (xs @ ys) = join_with sep xs @ sep @ join_with sep ys"
proof (induction xs)
  case Nil
  then show ?case by simp
next
  case (Cons x xs)
  then show ?case by (cases "xs = []") (simp_all add: join_with_Cons)
qed

lemma join_split [simp, split_join]: "join_with [c] (split_on c s) = s"
proof (induction s)
  case Nil
  then show ?case by simp
next
  case (Cons x s)
  obtain w ws where ws: "split_on c s = w # ws"
    using split_on_nonempty [of c s] by (cases "split_on c s") auto
  with Cons show ?case by (cases ws) (auto simp: join_with_Cons)
qed

lemma split_on_no_sep [split_join]: "w \<in> set (split_on c s) \<Longrightarrow> c \<notin> set w"
proof (induction s arbitrary: w)
  case Nil
  then show ?case by simp
next
  case (Cons x s)
  obtain v vs where "split_on c s = v # vs"
    using split_on_nonempty [of c s] by (cases "split_on c s") auto
  with Cons show ?case by (auto split: if_splits)
qed

lemma split_on_id [split_join]: "c \<notin> set s \<Longrightarrow> split_on c s = [s]"
  by (induction s) auto

lemma split_on_append_sep [split_join]:
  "split_on c (s @ c # t) = split_on c s @ split_on c t"
  by (induction s) (auto split: list.splits simp: neq_Nil_conv)

lemma split_join_id [split_join]:
  assumes "ws \<noteq> []" and "\<forall>w \<in> set ws. c \<notin> set w"
  shows "split_on c (join_with [c] ws) = ws"
  using assms
proof (induction ws)
  case Nil
  then show ?case by simp
next
  case (Cons w ws)
  show ?case
  proof (cases ws)
    case Nil
    with Cons.prems show ?thesis by (simp add: split_on_id)
  next
    case (Cons v vs)
    with Cons.IH Cons.prems show ?thesis
      by (simp add: split_on_append_sep split_on_id)
  qed
qed

lemma split_on_inject [simp]: "split_on c s = split_on c t \<longleftrightarrow> s = t"
  by (metis join_split)

lemma set_split_on: "w \<in> set (split_on c s) \<Longrightarrow> set w \<subseteq> set s"
proof (induction s arbitrary: w)
  case Nil
  then show ?case by simp
next
  case (Cons x s)
  obtain v vs where "split_on c s = v # vs"
    using split_on_nonempty [of c s] by (cases "split_on c s") auto
  with Cons show ?case by (fastforce split: if_splits)
qed

text \<open>\<open>strings.Cut\<close> with a one-byte separator: \<open>None\<close> when it is absent.\<close>

definition cut_on :: "'a \<Rightarrow> 'a list \<Rightarrow> ('a list \<times> 'a list) option" where
  "cut_on c s = (if c \<in> set s
     then Some (takeWhile (\<lambda>x. x \<noteq> c) s, tl (dropWhile (\<lambda>x. x \<noteq> c) s)) else None)"

lemma cut_on_Some_iff: "cut_on c s = Some (a, b) \<longleftrightarrow> s = a @ c # b \<and> c \<notin> set a"
proof
  assume "cut_on c s = Some (a, b)"
  then have c: "c \<in> set s" and a: "a = takeWhile (\<lambda>x. x \<noteq> c) s"
    and b: "b = tl (dropWhile (\<lambda>x. x \<noteq> c) s)"
    by (auto simp: cut_on_def split: if_splits)
  from c have "dropWhile (\<lambda>x. x \<noteq> c) s \<noteq> []" by (auto simp: dropWhile_eq_Nil_conv)
  then have "dropWhile (\<lambda>x. x \<noteq> c) s = c # b"
    using b by (metis (mono_tags, lifting) hd_dropWhile list.collapse)
  then show "s = a @ c # b \<and> c \<notin> set a"
    using a by (metis (mono_tags, lifting) set_takeWhileD takeWhile_dropWhile_id)
next
  assume h: "s = a @ c # b \<and> c \<notin> set a"
  then have "takeWhile (\<lambda>x. x \<noteq> c) s = a" "dropWhile (\<lambda>x. x \<noteq> c) s = c # b"
    by (auto simp: takeWhile_tail dropWhile_append intro!: takeWhile_append2)
  with h show "cut_on c s = Some (a, b)" by (simp add: cut_on_def)
qed

lemma cut_on_None_iff [simp]: "cut_on c s = None \<longleftrightarrow> c \<notin> set s"
  by (simp add: cut_on_def)

subsection \<open>Replacing a substring\<close>

text \<open>\<open>strings.ReplaceAll\<close> and \<open>bytes.ReplaceAll\<close>: non-overlapping
  occurrences, left to right. The code never calls it with an empty pattern; the model
  leaves the text unchanged there.\<close>

function replace_all :: "'a list \<Rightarrow> 'a list \<Rightarrow> 'a list \<Rightarrow> 'a list" where
  "replace_all s old new =
     (if s = [] \<or> old = [] then s
      else if prefix old s then new @ replace_all (drop (length old) s) old new
      else hd s # replace_all (tl s) old new)"
  by pat_completeness auto
termination
  by (relation "measure (\<lambda>(s, old, new). length s)") auto

declare replace_all.simps [simp del]

lemma replace_all_none: "\<not> sublist old s \<Longrightarrow> replace_all s old new = s"
proof (induction s)
  case Nil
  then show ?case by (simp add: replace_all.simps)
next
  case (Cons x s)
  then have "\<not> sublist old s" "\<not> prefix old (x # s)"
    by (auto simp: sublist_Cons_right)
  with Cons show ?case by (simp add: replace_all.simps [of "x # s"])
qed

lemmas [evaluate] = trim_prefix_def trim_suffix_def cut_prefix_def cut_on_def replace_all.simps [of "_ # _"] replace_all.simps [of "[]"]
  require_def of_option_def wrap_error_def suffix_to_prefix

subsection \<open>Sorted name sets\<close>

text \<open>Names used during a substitution are kept in a Go map and returned sorted.\<close>

definition sorted_names :: "string list \<Rightarrow> string list" where
  "sorted_names ns = sort (remdups ns)"

lemma set_sorted_names [simp]: "set (sorted_names ns) = set ns"
  by (simp add: sorted_names_def)

lemma sorted_sorted_names [simp]: "sorted (sorted_names ns)"
  by (simp add: sorted_names_def)

lemma distinct_sorted_names [simp]: "distinct (sorted_names ns)"
  by (simp add: sorted_names_def)

lemma sorted_names_Nil [simp]: "sorted_names ns = [] \<longleftrightarrow> ns = []"
  by (metis set_empty2 set_sorted_names)

lemma sorted_names_cong: "set ns = set ms \<Longrightarrow> sorted_names ns = sorted_names ms"
  by (simp add: sorted_names_def sorted_distinct_set_unique)

end
