(* ===== verification/Go_Strings.thy ===== *)
theory Go_Strings
  imports Go_Unicode
begin

text \<open>
  Go's packages \<open>strings\<close>, \<open>unicode/utf8\<close> and \<open>strconv\<close> as far as the program
  uses them. Strings are byte lists; \<open>range\<close> over a string decodes UTF-8 and yields U+FFFD
  (65533) with width one for a byte that starts no valid sequence.
\<close>

abbreviation code :: "char \<Rightarrow> nat" where
  "code c \<equiv> of_char c"

definition is_ascii :: "string \<Rightarrow> bool" where
  "is_ascii s = list_all (\<lambda>c. code c < 128) s"

subsection \<open>UTF-8\<close>

definition cont_byte :: "char \<Rightarrow> bool" where
  "cont_byte c = (128 \<le> code c \<and> code c \<le> 191)"

definition rune2 :: "nat \<Rightarrow> nat \<Rightarrow> rune" where
  "rune2 a b = (a - 192) * 64 + (b - 128)"

definition rune3 :: "nat \<Rightarrow> nat \<Rightarrow> nat \<Rightarrow> rune" where
  "rune3 a b c = (a - 224) * 4096 + (b - 128) * 64 + (c - 128)"

definition rune4 :: "nat \<Rightarrow> nat \<Rightarrow> nat \<Rightarrow> nat \<Rightarrow> rune" where
  "rune4 a b c d = (a - 240) * 262144 + (b - 128) * 4096 + (c - 128) * 64 + (d - 128)"

text \<open>\<open>utf8.DecodeRune\<close>: the rune and its width.\<close>

definition decode_rune :: "string \<Rightarrow> rune \<times> nat" where
  "decode_rune s = (case s of [] \<Rightarrow> (65533, 0) | a # s1 \<Rightarrow>
     let x = code a in
     if x < 128 then (x, 1)
     else if 194 \<le> x \<and> x \<le> 223 then
       (case s1 of b # _ \<Rightarrow>
          if cont_byte b then (rune2 x (code b), 2) else (65533, 1)
        | [] \<Rightarrow> (65533, 1))
     else if 224 \<le> x \<and> x \<le> 239 then
       (case s1 of b # c # _ \<Rightarrow>
          if cont_byte b \<and> cont_byte c \<and> (x = 224 \<longrightarrow> 160 \<le> code b) \<and> (x = 237 \<longrightarrow> code b \<le> 159)
          then (rune3 x (code b) (code c), 3) else (65533, 1)
        | _ \<Rightarrow> (65533, 1))
     else if 240 \<le> x \<and> x \<le> 244 then
       (case s1 of b # c # d # _ \<Rightarrow>
          if cont_byte b \<and> cont_byte c \<and> cont_byte d
             \<and> (x = 240 \<longrightarrow> 144 \<le> code b) \<and> (x = 244 \<longrightarrow> code b \<le> 143)
          then (rune4 x (code b) (code c) (code d), 4)
          else (65533, 1)
        | _ \<Rightarrow> (65533, 1))
     else (65533, 1))"

lemma decode_rune_width:
  assumes "s \<noteq> []" shows "1 \<le> snd (decode_rune s)" and "snd (decode_rune s) \<le> length s"
  using assms by (auto simp: decode_rune_def Let_def split: list.split)

lemma decode_rune_ascii: "code c < 128 \<Longrightarrow> decode_rune (c # s) = (code c, 1)"
  by (simp add: decode_rune_def)

text \<open>\<open>for _, r := range s\<close>.\<close>

function runes :: "string \<Rightarrow> rune list" where
  "runes s = (if s = [] then [] else fst (decode_rune s) # runes (drop (snd (decode_rune s)) s))"
  by pat_completeness auto
termination
  using decode_rune_width(1)
  by (relation "measure length") (auto, metis Suc_le_eq diff_less length_greater_0_conv)

declare runes.simps [simp del]

function valid_utf8 :: "string \<Rightarrow> bool" where
  "valid_utf8 s = (if s = [] then True else if decode_rune s = (65533, 1) then False
     else valid_utf8 (drop (snd (decode_rune s)) s))"
  by pat_completeness auto
termination
  using decode_rune_width(1)
  by (relation "measure length") (auto, metis Suc_le_eq diff_less length_greater_0_conv)

declare valid_utf8.simps [simp del]

definition encode_rune :: "rune \<Rightarrow> string" where
  "encode_rune r =
    (if r < 128 then [char_of r]
     else if r < 2048 then [char_of (192 + r div 64), char_of (128 + r mod 64)]
     else if 55296 \<le> r \<and> r \<le> 57343 \<or> 1114111 < r then [CHR 0xEF, CHR 0xBF, CHR 0xBD]
     else if r < 65536 then
       [char_of (224 + r div 4096), char_of (128 + r div 64 mod 64), char_of (128 + r mod 64)]
     else [char_of (240 + r div 262144), char_of (128 + r div 4096 mod 64),
           char_of (128 + r div 64 mod 64), char_of (128 + r mod 64)])"

lemma runes_Nil [simp]: "runes [] = []"
  by (simp add: runes.simps [of "[]"])

lemma runes_ascii_Cons: "code c < 128 \<Longrightarrow> runes (c # s) = code c # runes s"
  by (simp add: runes.simps [of "c # s"] decode_rune_ascii)

lemma runes_ascii: "is_ascii s \<Longrightarrow> runes s = map code s"
  by (induction s) (auto simp: is_ascii_def runes_ascii_Cons)

lemma runes_Nil_iff [simp]: "runes s = [] \<longleftrightarrow> s = []"
  by (simp add: runes.simps [of s])

lemma rune2_high: "194 \<le> a \<Longrightarrow> 128 \<le> rune2 a b"
  by (simp add: rune2_def)

lemma rune3_high: "224 \<le> a \<Longrightarrow> (a = 224 \<longrightarrow> 160 \<le> b) \<Longrightarrow> 128 \<le> rune3 a b c"
  unfolding rune3_def by arith

lemma rune4_high: "240 \<le> a \<Longrightarrow> (a = 240 \<longrightarrow> 144 \<le> b) \<Longrightarrow> 128 \<le> rune4 a b c d"
  unfolding rune4_def by arith

lemma fst_if_ge:
  "(c \<Longrightarrow> n \<le> fst p) \<Longrightarrow> (\<not> c \<Longrightarrow> n \<le> fst q) \<Longrightarrow> n \<le> fst (if c then p else q)"
  by simp

lemma fst_case_list_ge:
  "(n::nat) \<le> fst p \<Longrightarrow> (\<And>b t. n \<le> fst (f b t)) \<Longrightarrow> n \<le> fst (case s of [] \<Rightarrow> p | b # t \<Rightarrow> f b t)"
  by (cases s) simp_all

lemma decode_rune_high:
  assumes "s \<noteq> []" and "128 \<le> code (hd s)" shows "128 \<le> fst (decode_rune s)"
proof (cases s)
  case (Cons a t)
  with assms(2) have a: "\<not> code a < 128" by simp
  have "(128::nat) \<le> fst (65533, 1)"
    and "\<And>b. 194 \<le> code a \<Longrightarrow> 128 \<le> fst (rune2 (code a) b, 2)"
    and "\<And>b c. 224 \<le> code a \<Longrightarrow> (code a = 224 \<longrightarrow> 160 \<le> b) \<Longrightarrow> 128 \<le> fst (rune3 (code a) b c, 3)"
    and "\<And>b c d. 240 \<le> code a \<Longrightarrow> (code a = 240 \<longrightarrow> 144 \<le> b) \<Longrightarrow> 128 \<le> fst (rune4 (code a) b c d, 4)"
    using rune2_high rune3_high rune4_high by simp_all
  with a show ?thesis
    unfolding Cons decode_rune_def Let_def list.case
    by (intro fst_if_ge fst_case_list_ge) blast+
qed (use assms in simp)

text \<open>A string whose runes are all ASCII is ASCII: no multi-byte sequence decodes to one.\<close>

lemma runes_all_ascii: "\<forall>r \<in> set (runes s). r < 128 \<Longrightarrow> is_ascii s"
proof (induction s)
  case Nil
  then show ?case by (simp add: is_ascii_def)
next
  case (Cons c s)
  have "fst (decode_rune (c # s)) \<in> set (runes (c # s))"
    by (simp add: runes.simps [of "c # s"])
  with Cons.prems have c: "code c < 128"
    using decode_rune_high [of "c # s"] by fastforce
  with Cons show ?case by (auto simp: runes_ascii_Cons is_ascii_def)
qed

lemma valid_utf8_ascii_Cons: "code c < 128 \<Longrightarrow> valid_utf8 (c # s) = valid_utf8 s"
  by (simp add: valid_utf8.simps [of "c # s"] decode_rune_ascii)

lemma valid_utf8_Nil [simp]: "valid_utf8 []"
  by (simp add: valid_utf8.simps [of "[]"])

lemma valid_utf8_ascii: "is_ascii s \<Longrightarrow> valid_utf8 s"
  by (induction s) (auto simp: is_ascii_def valid_utf8_ascii_Cons)

subsection \<open>Case mapping and comparison\<close>

definition lower_char :: "char \<Rightarrow> char" where
  "lower_char c = (if 65 \<le> code c \<and> code c \<le> 90 then char_of (code c + 32) else c)"

definition upper_char :: "char \<Rightarrow> char" where
  "upper_char c = (if 97 \<le> code c \<and> code c \<le> 122 then char_of (code c - 32) else c)"

text \<open>\<open>strings.Map\<close>: an invalid byte is written back as U+FFFD.\<close>

definition map_runes :: "(rune \<Rightarrow> rune) \<Rightarrow> string \<Rightarrow> string" where
  "map_runes f s = concat (map (\<lambda>r. encode_rune (f r)) (runes s))"

definition to_lower :: "string \<Rightarrow> string" where
  "to_lower s = (if is_ascii s then map lower_char s else map_runes rune_to_lower s)"

definition to_upper :: "string \<Rightarrow> string" where
  "to_upper s = (if is_ascii s then map upper_char s else map_runes rune_to_upper s)"

text \<open>\<open>strings.EqualFold\<close> against an ASCII constant. Simple folding puts U+212A into the
  orbit of k and U+017F into the orbit of s; no other rune above ASCII folds to ASCII.\<close>

definition fold_rune :: "rune \<Rightarrow> rune" where
  "fold_rune r = (if r = 8490 then 107 else if r = 383 then 115
     else if 65 \<le> r \<and> r \<le> 90 then r + 32 else r)"

definition equal_fold :: "string \<Rightarrow> string \<Rightarrow> bool" where
  "equal_fold s t \<longleftrightarrow> map fold_rune (runes s) = map fold_rune (runes t)"

lemma code_lower_char: "code (lower_char c) = (if 65 \<le> code c \<and> code c \<le> 90 then code c + 32 else code c)"
  by (simp add: lower_char_def)

lemma lower_char_idem [simp]: "lower_char (lower_char c) = lower_char c"
  by (simp add: lower_char_def)

lemma is_ascii_lower [simp]: "is_ascii (map lower_char s) = is_ascii s"
  by (induction s) (auto simp: is_ascii_def code_lower_char)

lemma to_lower_fixed:
  assumes "\<forall>c \<in> set s. code c < 128 \<and> \<not> (65 \<le> code c \<and> code c \<le> 90)"
  shows "to_lower s = s"
proof -
  have "map lower_char s = s"
    by (rule map_idI) (use assms in \<open>auto simp: lower_char_def\<close>)
  moreover have "is_ascii s" using assms by (simp add: is_ascii_def list_all_iff)
  ultimately show ?thesis by (simp add: to_lower_def)
qed

lemma to_lower_ascii_idem: "is_ascii s \<Longrightarrow> to_lower (to_lower s) = to_lower s"
  by (simp add: to_lower_def comp_def)

lemma to_lower_append_ascii:
  "is_ascii s \<Longrightarrow> is_ascii t \<Longrightarrow> to_lower (s @ t) = to_lower s @ to_lower t"
  by (simp add: to_lower_def is_ascii_def)

subsection \<open>Trimming white space\<close>

text \<open>The encodings of the runes with \<open>unicode.IsSpace\<close>. A string ends in such a rune
  exactly when it ends in its encoding, so trimming at either end removes encodings.\<close>

definition space_runes :: "rune list" where
  "space_runes = [9, 10, 11, 12, 13, 32, 133, 160, 5760, 8192, 8193, 8194, 8195, 8196, 8197, 8198,
     8199, 8200, 8201, 8202, 8232, 8233, 8239, 8287, 12288]"

definition space_encodings :: "string list" where
  "space_encodings = map encode_rune space_runes"

lemma space_encodings_eq [evaluate]: "space_encodings = [ [CHR 0x09], [CHR 0x0A], [CHR 0x0B],
  [CHR 0x0C], [CHR 0x0D], [CHR 0x20], [CHR 0xC2, CHR 0x85], [CHR 0xC2, CHR 0xA0],
  [CHR 0xE1, CHR 0x9A, CHR 0x80], [CHR 0xE2, CHR 0x80, CHR 0x80], [CHR 0xE2, CHR 0x80, CHR 0x81],
  [CHR 0xE2, CHR 0x80, CHR 0x82], [CHR 0xE2, CHR 0x80, CHR 0x83], [CHR 0xE2, CHR 0x80, CHR 0x84],
  [CHR 0xE2, CHR 0x80, CHR 0x85], [CHR 0xE2, CHR 0x80, CHR 0x86], [CHR 0xE2, CHR 0x80, CHR 0x87],
  [CHR 0xE2, CHR 0x80, CHR 0x88], [CHR 0xE2, CHR 0x80, CHR 0x89], [CHR 0xE2, CHR 0x80, CHR 0x8A],
  [CHR 0xE2, CHR 0x80, CHR 0xA8], [CHR 0xE2, CHR 0x80, CHR 0xA9], [CHR 0xE2, CHR 0x80, CHR 0xAF],
  [CHR 0xE2, CHR 0x81, CHR 0x9F], [CHR 0xE3, CHR 0x80, CHR 0x80] ]"
  by (simp add: space_encodings_def space_runes_def encode_rune_def char_of_def bit_0)

fun strip_one :: "string list \<Rightarrow> string \<Rightarrow> string option" where
  "strip_one [] s = None"
| "strip_one (e # es) s = (if e \<noteq> [] \<and> prefix e s then Some (drop (length e) s) else strip_one es s)"

lemma strip_one_shorter: "strip_one es s = Some t \<Longrightarrow> length t < length s"
proof (induction es)
  case Nil
  then show ?case by simp
next
  case (Cons e es)
  then show ?case by (auto split: if_splits simp: prefix_def)
qed

function trim_left_by :: "string list \<Rightarrow> string \<Rightarrow> string" where
  "trim_left_by es s = (case strip_one es s of None \<Rightarrow> s | Some t \<Rightarrow> trim_left_by es t)"
  by pat_completeness auto
termination
  by (relation "measure (\<lambda>(es, s). length s)") (auto dest: strip_one_shorter)

declare trim_left_by.simps [simp del]

definition trim_left :: "string \<Rightarrow> string" where
  "trim_left s = trim_left_by space_encodings s"

definition trim_right :: "string \<Rightarrow> string" where
  "trim_right s = rev (trim_left_by (map rev space_encodings) (rev s))"

definition trim_space :: "string \<Rightarrow> string" where
  "trim_space s = trim_right (trim_left s)"

lemma strip_one_None: "strip_one es s = None \<longleftrightarrow> (\<forall>e \<in> set es. e = [] \<or> \<not> prefix e s)"
  by (induction es) auto

lemma strip_one_suffix: "strip_one es s = Some t \<Longrightarrow> suffix t s"
  by (induction es) (auto split: if_splits intro: suffix_drop)

lemma trim_left_by_suffix: "suffix (trim_left_by es s) s"
proof (induction es s rule: trim_left_by.induct)
  case (1 es s)
  then show ?case
    by (subst trim_left_by.simps)
      (auto split: option.splits dest: strip_one_suffix intro: suffix_order.trans)
qed

lemma trim_left_by_stop: "strip_one es (trim_left_by es s) = None"
proof (induction es s rule: trim_left_by.induct)
  case (1 es s)
  then show ?case
    by (cases "strip_one es s") (simp_all add: trim_left_by.simps [of es s])
qed

lemma trim_left_by_id: "strip_one es s = None \<Longrightarrow> trim_left_by es s = s"
  by (simp add: trim_left_by.simps)

lemma trim_right_prefix: "prefix (trim_right s) s"
  using trim_left_by_suffix [of "map rev space_encodings" "rev s"]
  by (simp add: trim_right_def suffix_to_prefix)

lemma trim_right_idem: "trim_right (trim_right s) = trim_right s"
  by (simp add: trim_right_def trim_left_by_id trim_left_by_stop)

lemma trim_left_id_prefix:
  assumes "trim_left s = s" and "prefix t s" shows "trim_left t = t"
proof -
  have "strip_one space_encodings s = None"
    using trim_left_by_stop [of space_encodings s] assms(1) by (simp add: trim_left_def)
  then have "strip_one space_encodings t = None"
    using assms(2) prefix_order.trans by (auto simp: strip_one_None)
  then show ?thesis by (simp add: trim_left_def trim_left_by_id)
qed

lemma trim_space_idem [simp, trimming]: "trim_space (trim_space s) = trim_space s"
proof -
  have "trim_left (trim_left s) = trim_left s"
    by (simp add: trim_left_def trim_left_by_id trim_left_by_stop)
  then have "trim_left (trim_right (trim_left s)) = trim_right (trim_left s)"
    by (rule trim_left_id_prefix) (rule trim_right_prefix)
  then show ?thesis by (simp add: trim_space_def trim_right_idem)
qed

lemma trim_space_split: obtains a b where "s = a @ trim_space s @ b"
proof -
  obtain a where a: "s = a @ trim_left s"
    using trim_left_by_suffix [of space_encodings s] by (auto simp: trim_left_def suffix_def)
  obtain b where "trim_left s = trim_space s @ b"
    using trim_right_prefix [of "trim_left s"] by (auto simp: trim_space_def prefix_def)
  with a have "s = a @ trim_space s @ b" by simp
  then show thesis by (rule that)
qed

lemma set_trim_space: "set (trim_space s) \<subseteq> set s"
  by (rule trim_space_split [of s]) (metis Un_iff set_append subsetI)

text \<open>A string of printable ASCII bytes is not trimmed.\<close>

definition graphic :: "char \<Rightarrow> bool" where
  "graphic c \<longleftrightarrow> 33 \<le> code c \<and> code c \<le> 126"

lemma space_encodings_not_graphic:
  "list_all (\<lambda>e. e \<noteq> [] \<and> \<not> graphic (hd e) \<and> \<not> graphic (last e)) space_encodings"
  by (simp add: space_encodings_def space_runes_def encode_rune_def graphic_def)

lemma trim_space_graphic:
  assumes "\<forall>c \<in> set s. graphic c" shows "trim_space s = s"
proof -
  have "strip_one space_encodings s = None"
    using assms space_encodings_not_graphic
    by (fastforce simp: strip_one_None list_all_iff prefix_def neq_Nil_conv)
  moreover have "strip_one (map rev space_encodings) (rev s) = None"
  proof -
    have "\<not> prefix (rev e) (rev s)" if "e \<in> set space_encodings" for e
    proof
      assume "prefix (rev e) (rev s)"
      then have "suffix e s" by (simp add: suffix_to_prefix)
      moreover have "e \<noteq> []" "\<not> graphic (last e)"
        using that space_encodings_not_graphic by (auto simp: list_all_iff)
      ultimately show False
        using assms by (metis last_in_set set_mono_suffix subsetD)
    qed
    then show ?thesis by (auto simp: strip_one_None)
  qed
  ultimately show ?thesis
    by (simp add: trim_space_def trim_left_def trim_right_def trim_left_by_id)
qed

subsection \<open>Character classes of the program's validators\<close>

abbreviation lower_letter :: "char \<Rightarrow> bool" where
  "lower_letter c \<equiv> 97 \<le> code c \<and> code c \<le> 122"

abbreviation upper_letter :: "char \<Rightarrow> bool" where
  "upper_letter c \<equiv> 65 \<le> code c \<and> code c \<le> 90"

abbreviation digit_char :: "char \<Rightarrow> bool" where
  "digit_char c \<equiv> 48 \<le> code c \<and> code c \<le> 57"

definition contains_any :: "string \<Rightarrow> string \<Rightarrow> bool" where
  "contains_any s cs \<longleftrightarrow> list_ex (\<lambda>c. c \<in> set cs) s"

subsection \<open>Decimal numbers\<close>

fun dec_value :: "string \<Rightarrow> nat \<Rightarrow> nat option" where
  "dec_value [] acc = Some acc"
| "dec_value (c # s) acc = (if digit_char c then dec_value s (10 * acc + (code c - 48)) else None)"

text \<open>\<open>strconv.Atoi\<close> on a 64-bit platform: an optional sign, at least one digit, and a value
  in the range of \<open>int\<close>.\<close>

definition atoi :: "string \<Rightarrow> int option" where
  "atoi s = (let neg = (s \<noteq> [] \<and> hd s = CHR ''-'');
                 d = (if s \<noteq> [] \<and> (hd s = CHR ''-'' \<or> hd s = CHR ''+'') then tl s else s) in
     if d = [] then None else
     case dec_value d 0 of None \<Rightarrow> None
     | Some n \<Rightarrow> let v = (if neg then - int n else int n) in
         if - (2 ^ 63) \<le> v \<and> v < 2 ^ 63 then Some v else None)"

text \<open>\<open>strconv.ParseUint(s, 10, 64)\<close>: digits only.\<close>

definition parse_uint :: "string \<Rightarrow> nat option" where
  "parse_uint s = (if s = [] then None else
     case dec_value s 0 of None \<Rightarrow> None | Some n \<Rightarrow> if n < 2 ^ 64 then Some n else None)"

text \<open>\<open>strconv.Itoa\<close> of a non-negative number.\<close>

fun nat_digits :: "nat \<Rightarrow> string" where
  "nat_digits n = (if n < 10 then [char_of (48 + n)]
     else nat_digits (n div 10) @ [char_of (48 + n mod 10)])"

declare nat_digits.simps [simp del]

lemma dec_value_append:
  "dec_value (s @ t) a = (case dec_value s a of None \<Rightarrow> None | Some v \<Rightarrow> dec_value t v)"
  by (induction s a rule: dec_value.induct) auto

lemma dec_value_nat_digits: "dec_value (nat_digits n) 0 = Some n"
proof (induction n rule: nat_digits.induct)
  case (1 n)
  show ?case
  proof (cases "n < 10")
    case True
    then show ?thesis by (simp add: nat_digits.simps [of n])
  next
    case False
    with 1 show ?thesis
      by (simp add: nat_digits.simps [of n] dec_value_append)
  qed
qed

lemmas [evaluate] = is_ascii_def cont_byte_def decode_rune_def [of "_ # _"] rune2_def rune3_def rune4_def
  runes.simps [of "_ # _"] valid_utf8.simps [of "_ # _"] encode_rune_def lower_char_def upper_char_def
  map_runes_def to_lower_def [of "[]"] to_lower_def [of "_ # _"] to_upper_def [of "[]"]
  to_upper_def [of "_ # _"] fold_rune_def equal_fold_def trim_left_by.simps [of _ "[]"]
  trim_left_by.simps [of _ "_ # _"] trim_left_def trim_right_def trim_space_def graphic_def
  contains_any_def atoi_def parse_uint_def char_of_def bit_0 nat_digits.simps [of "numeral _"]
  nat_digits.simps [of 0] nat_digits.simps [of 1] nat_digits.simps [of "Suc _"] Let_def

end
