(* ===== verification/Host_Pattern.thy ===== *)
theory Host_Pattern
  imports Go_Strings
begin

text \<open>
  Package \<open>internal/hostpattern\<close>: validation, normalization and matching of host patterns.
  A pattern is an exact host name or \<open>*.\<close> followed by one. The lemmas give matching at the
  level of DNS labels and show that normalization is a projection onto valid patterns.
\<close>

subsection \<open>The code\<close>

definition label_char :: "rune \<Rightarrow> bool" where
  "label_char r \<longleftrightarrow> 97 \<le> r \<and> r \<le> 122 \<or> 48 \<le> r \<and> r \<le> 57 \<or> r = 45"

definition valid_label :: "string \<Rightarrow> bool" where
  "valid_label l \<longleftrightarrow> l \<noteq> [] \<and> length l \<le> 63 \<and> hd l \<noteq> CHR ''-'' \<and> last l \<noteq> CHR ''-''
     \<and> list_all label_char (runes l)"

text \<open>\<open>hostpattern.Valid\<close>.\<close>

definition valid_host :: "string \<Rightarrow> bool" where
  "valid_host host \<longleftrightarrow> length host \<le> 253 \<and> \<not> contains_any host '':/@''
     \<and> list_all (\<lambda>r. r \<le> 127) (runes host)
     \<and> list_all valid_label (split_on (CHR ''.'') host)"

datatype pattern_error = Invalid_Pattern string

text \<open>\<open>hostpattern.Normalize\<close>.\<close>

definition normalize_pattern :: "string \<Rightarrow> (pattern_error, string) result" where
  "normalize_pattern pat =
    (let pattern = to_lower (trim_suffix (trim_space pat) ''.'');
         wildcard = has_prefix pattern ''*.'';
         host = trim_prefix pattern ''*.'' in
     if host = [] \<or> \<not> valid_host host then Inl (Invalid_Pattern pattern)
     else if wildcard then Inr (''*.'' @ host)
     else Inr host)"

text \<open>The host name as the matchers compare it.\<close>

definition canonical_host :: "string \<Rightarrow> string" where
  "canonical_host host = to_lower (trim_suffix host ''.'')"

definition pattern_matches :: "string \<Rightarrow> string \<Rightarrow> bool" where
  "pattern_matches pattern host \<longleftrightarrow> pattern = host \<or>
     (case cut_prefix pattern ''*.'' of None \<Rightarrow> False | Some sfx \<Rightarrow> has_suffix host (''.'' @ sfx))"

text \<open>\<open>hostpattern.Matches\<close>.\<close>

definition host_matches :: "string list \<Rightarrow> string \<Rightarrow> bool" where
  "host_matches patterns host \<longleftrightarrow> list_ex (\<lambda>p. pattern_matches p (canonical_host host)) patterns"

subsection \<open>Valid names\<close>

definition host_char :: "char \<Rightarrow> bool" where
  "host_char c \<longleftrightarrow> label_char (code c)"

lemma host_char_props:
  assumes "host_char c"
  shows "code c < 128" "\<not> upper_letter c" "graphic c" "c \<noteq> CHR ''.''" "c \<noteq> CHR ''*''" "c \<noteq> CHR '':''"
    "c \<notin> set '':/@''"
  using assms by (auto simp: host_char_def label_char_def graphic_def)

lemma valid_label_chars:
  assumes "valid_label l" shows "\<forall>c \<in> set l. host_char c"
proof -
  have "\<forall>r \<in> set (runes l). r < 128"
    using assms by (auto simp: valid_label_def list_all_iff label_char_def)
  then have "is_ascii l" by (rule runes_all_ascii)
  then show ?thesis
    using assms by (auto simp: valid_label_def list_all_iff host_char_def runes_ascii)
qed

lemma valid_labelI:
  assumes "\<forall>c \<in> set l. host_char c" "l \<noteq> []" "length l \<le> 63" "hd l \<noteq> CHR ''-''" "last l \<noteq> CHR ''-''"
  shows "valid_label l"
proof -
  have "is_ascii l" using assms(1) by (auto simp: is_ascii_def list_all_iff host_char_props)
  with assms show ?thesis by (auto simp: valid_label_def list_all_iff runes_ascii host_char_def)
qed

lemma valid_host_chars:
  assumes "valid_host h" and "c \<in> set h" shows "host_char c \<or> c = CHR ''.''"
proof (rule ccontr)
  assume c: "\<not> (host_char c \<or> c = CHR ''.'')"
  have labels: "\<forall>l \<in> set (split_on (CHR ''.'') h). \<forall>c \<in> set l. host_char c"
    using assms(1) valid_label_chars by (auto simp: valid_host_def list_all_iff)
  have "set (join_with ''.'' ls) \<subseteq> {CHR ''.''} \<union> \<Union> (set ` set ls)" for ls :: "string list"
    by (induction "''.''" ls rule: join_with.induct) auto
  from this [of "split_on (CHR ''.'') h"] show False
    using assms(2) labels c by auto
qed

lemma valid_host_props:
  assumes "valid_host h"
  shows "is_ascii h" "to_lower h = h" "\<forall>c \<in> set h. graphic c" "h \<noteq> []" "last h \<noteq> CHR ''.''"
    "hd h \<noteq> CHR ''*''" "CHR '':'' \<notin> set h" "CHR ''*'' \<notin> set h"
proof -
  have ch: "\<forall>c \<in> set h. host_char c \<or> c = CHR ''.''" using assms valid_host_chars by blast
  show "is_ascii h" using ch by (auto simp: is_ascii_def list_all_iff host_char_props)
  have each: "code c < 128 \<and> \<not> upper_letter c \<and> graphic c" if "c \<in> set h" for c
  proof (cases "host_char c")
    case True
    then show ?thesis using host_char_props(1-3) by blast
  next
    case False
    with that ch have "c = CHR ''.''" by blast
    then show ?thesis by (simp add: graphic_def)
  qed
  then show "to_lower h = h" by (intro to_lower_fixed) blast
  show "\<forall>c \<in> set h. graphic c" using each by blast
  show ne: "h \<noteq> []"
    using assms by (auto simp: valid_host_def valid_label_def)
  have sep: "c \<notin> set h" if "\<not> host_char c" "c \<noteq> CHR ''.''" for c
    using that ch by blast
  show "CHR '':'' \<notin> set h" by (rule sep) (simp_all add: host_char_def label_char_def)
  show star: "CHR ''*'' \<notin> set h" by (rule sep) (simp_all add: host_char_def label_char_def)
  show "hd h \<noteq> CHR ''*''" using star hd_in_set [OF ne] by auto
  show "last h \<noteq> CHR ''.''"
  proof
    assume "last h = CHR ''.''"
    then have "h = butlast h @ CHR ''.'' # []" using ne by (metis append_butlast_last_id)
    then have "split_on (CHR ''.'') h = split_on (CHR ''.'') (butlast h) @ [ [] ]"
      by (metis split_on_append_sep split_on.simps(1))
    then show False using assms by (auto simp: valid_host_def valid_label_def)
  qed
qed

lemma canonical_valid_host [simp]: "valid_host h \<Longrightarrow> canonical_host h = h"
  using valid_host_props [of h]
  by (simp add: canonical_host_def trim_suffix_no suffix_singleton_iff)

lemma trim_space_valid_host: "valid_host h \<Longrightarrow> trim_space h = h"
  by (simp add: trim_space_graphic valid_host_props)

lemma trim_dot_valid_host: "valid_host h \<Longrightarrow> trim_suffix h ''.'' = h"
  by (simp add: trim_suffix_no suffix_singleton_iff valid_host_props)

subsection \<open>Normalization\<close>

definition valid_pattern :: "string \<Rightarrow> bool" where
  "valid_pattern p \<longleftrightarrow> valid_host p \<or>
     (case cut_prefix p ''*.'' of None \<Rightarrow> False | Some h \<Rightarrow> valid_host h)"

lemma valid_pattern_iff: "valid_pattern p \<longleftrightarrow> valid_host p \<or> (\<exists>h. p = ''*.'' @ h \<and> valid_host h)"
proof (cases "cut_prefix p ''*.''")
  case None
  then have "\<not> (\<exists>h. p = ''*.'' @ h)" by (auto simp: cut_prefix_def split: if_splits)
  with None show ?thesis unfolding valid_pattern_def by simp
next
  case (Some h)
  then have "p = ''*.'' @ h" by (simp add: cut_prefix_Some_iff)
  with Some show ?thesis unfolding valid_pattern_def by simp
qed

lemma normalize_valid: "normalize_pattern p = Inr q \<Longrightarrow> valid_pattern q"
  by (auto simp: normalize_pattern_def Let_def valid_pattern_iff split: if_splits)

lemma normalize_valid_host: "valid_host h \<Longrightarrow> normalize_pattern h = Inr h"
proof -
  assume h: "valid_host h"
  then have np: "\<not> has_prefix h ''*.''"
    using valid_host_props(6,4) [OF h] by (auto simp: prefix_def)
  show ?thesis
    using h np valid_host_props [OF h]
    by (simp add: normalize_pattern_def Let_def trim_space_valid_host trim_dot_valid_host trim_prefix_no)
qed

lemma normalize_wildcard: "valid_host h \<Longrightarrow> normalize_pattern (''*.'' @ h) = Inr (''*.'' @ h)"
proof -
  assume h: "valid_host h"
  have "\<forall>c \<in> set (''*.'' @ h). graphic c"
    using valid_host_props(3) [OF h] by (auto simp: graphic_def)
  then have t: "trim_space (''*.'' @ h) = ''*.'' @ h" by (rule trim_space_graphic)
  have d: "trim_suffix (''*.'' @ h) ''.'' = ''*.'' @ h"
    using valid_host_props(4,5) [OF h] by (intro trim_suffix_no) (simp add: suffix_singleton_iff)
  have l: "to_lower (''*.'' @ h) = ''*.'' @ h"
    using valid_host_props(1,2) [OF h]
    by (subst to_lower_append_ascii) (auto simp: is_ascii_def to_lower_fixed)
  have p: "trim_prefix (''*.'' @ h) ''*.'' = h" by (rule trim_prefix_append)
  have "has_prefix (''*.'' @ h) ''*.''" by (rule prefixI) (rule refl)
  then show ?thesis
    unfolding normalize_pattern_def Let_def t d l p using h valid_host_props(4) [OF h] by simp
qed

lemma normalize_valid_pattern: "valid_pattern p \<Longrightarrow> normalize_pattern p = Inr p"
  by (metis normalize_valid_host normalize_wildcard valid_pattern_iff)

subsection \<open>Matching at the level of labels\<close>

abbreviation labels :: "string \<Rightarrow> string list" where
  "labels \<equiv> split_on (CHR ''.'')"

lemma dot_suffix_labels:
  "suffix (CHR ''.'' # s) h \<longleftrightarrow> (\<exists>ls. ls \<noteq> [] \<and> labels h = ls @ labels s)"
proof
  assume "suffix (CHR ''.'' # s) h"
  then obtain a where "h = a @ CHR ''.'' # s" by (auto simp: suffix_def)
  then have "labels h = labels a @ labels s" by (simp add: split_on_append_sep)
  then show "\<exists>ls. ls \<noteq> [] \<and> labels h = ls @ labels s"
    by (intro exI [of _ "labels a"]) simp
next
  assume "\<exists>ls. ls \<noteq> [] \<and> labels h = ls @ labels s"
  then obtain ls where ls: "ls \<noteq> []" "labels h = ls @ labels s" by blast
  then have "h = join_with ''.'' ls @ ''.'' @ s"
    by (metis join_split join_with_append split_on_nonempty)
  then show "suffix (CHR ''.'' # s) h" by (auto simp: suffix_def)
qed

lemma wildcard_matches_iff:
  assumes "valid_host h"
  shows "pattern_matches (''*.'' @ s) h \<longleftrightarrow> (\<exists>ls. ls \<noteq> [] \<and> labels h = ls @ labels s)"
proof -
  have "''*.'' @ s \<noteq> h" using valid_host_props(6) [OF assms] by auto
  moreover have "cut_prefix (''*.'' @ s) ''*.'' = Some s" by (simp add: cut_prefix_Some_iff)
  ultimately show ?thesis
    by (simp add: pattern_matches_def dot_suffix_labels)
qed

lemma exact_matches_iff:
  assumes "valid_host p" shows "pattern_matches p h \<longleftrightarrow> p = h"
proof -
  have "cut_prefix p ''*.'' = None"
    using valid_host_props(4,6) [OF assms] by (auto simp: cut_prefix_def prefix_def)
  then show ?thesis by (simp add: pattern_matches_def)
qed

lemma host_matches_trailing_dot:
  "valid_host h \<Longrightarrow> host_matches ps (h @ ''.'') = host_matches ps h"
  using valid_host_props(2)
  by (simp add: host_matches_def canonical_host_def trim_dot_valid_host)

lemma host_matches_label_iff:
  assumes "valid_host h" and "\<forall>p \<in> set ps. valid_pattern p"
  shows "host_matches ps h \<longleftrightarrow>
    (\<exists>p \<in> set ps. p = h \<or> (\<exists>s ls. p = ''*.'' @ s \<and> ls \<noteq> [] \<and> labels h = ls @ labels s))"
proof -
  have "pattern_matches p h \<longleftrightarrow> p = h \<or> (\<exists>s ls. p = ''*.'' @ s \<and> ls \<noteq> [] \<and> labels h = ls @ labels s)"
    if "p \<in> set ps" for p
  proof (cases "\<exists>s. p = ''*.'' @ s")
    case True
    then obtain s where s: "p = ''*.'' @ s" by blast
    moreover have "p \<noteq> h" using valid_host_props(6) [OF assms(1)] s by auto
    ultimately show ?thesis using wildcard_matches_iff [OF assms(1), of s] by auto
  next
    case False
    then have "valid_host p" using that assms(2) by (auto simp: valid_pattern_iff)
    then show ?thesis using exact_matches_iff False by blast
  qed
  then show ?thesis using assms(1) by (auto simp: host_matches_def list_ex_iff)
qed

lemmas [evaluate] = label_char_def valid_label_def valid_host_def normalize_pattern_def
  canonical_host_def pattern_matches_def host_matches_def valid_pattern_def

subsection \<open>Properties\<close>

text \<open>What \<open>Normalize\<close> accepts is a valid pattern (a valid ASCII host name, or
  \<open>*.\<close> followed by one), and normalizing it again changes nothing.\<close>

theorem normalize_pattern_projection:
  assumes "normalize_pattern p = Inr q"
  shows "valid_pattern q \<and> normalize_pattern q = Inr q"
  using normalize_valid [OF assms] normalize_valid_pattern by blast

theorem normalize_pattern_projection_witness:
  "valid_pattern ''*.example.com'' \<and> normalize_pattern ''*.example.com'' = Inr ''*.example.com''"
proof -
  have "normalize_pattern ('' *.Example.COM. '') = Inr ''*.example.com''" by (simp add: evaluate)
  then show ?thesis by (rule normalize_pattern_projection)
qed

text \<open>Matching a valid host against normalized patterns, stated on DNS labels: an exact
  pattern matches only itself, and a wildcard pattern matches exactly the hosts whose labels end
  in those of the pattern after at least one more label; so \<open>*.example.com\<close> matches
  neither \<open>example.com\<close> nor \<open>badexample.com\<close>.\<close>

theorem host_matches_labels:
  assumes "valid_host h" and "\<forall>p \<in> set ps. valid_pattern p"
  shows "host_matches ps h \<longleftrightarrow>
    (\<exists>p \<in> set ps. p = h \<or> (\<exists>s ls. p = ''*.'' @ s \<and> ls \<noteq> [] \<and> labels h = ls @ labels s))"
  by (rule host_matches_label_iff [OF assms])

theorem host_matches_labels_witness:
  "host_matches [''*.example.com''] ''a.example.com'' \<and> \<not> host_matches [''*.example.com''] ''example.com''"
proof -
  have p: "\<forall>p \<in> set [''*.example.com'']. valid_pattern p"
    by (simp add: evaluate)
  have a: "valid_host ''a.example.com''" and b: "valid_host ''example.com''" by (simp_all add: evaluate)
  have "labels ''a.example.com'' = [''a''] @ labels ''example.com''" by simp
  then have "host_matches [''*.example.com''] ''a.example.com''"
    unfolding host_matches_labels [OF a p] by (intro bexI disjI2 exI conjI) auto
  moreover have "\<not> host_matches [''*.example.com''] ''example.com''"
    unfolding host_matches_labels [OF b p]
    by (auto simp: Cons_eq_append_conv)
  ultimately show ?thesis by blast
qed

end
