(* ===== verification/Request_Rules.thy ===== *)
theory Request_Rules
  imports Host_Pattern
begin

text \<open>
  The rules of a client policy, file \<open>internal/config/rules.go\<close>: validation and expansion of
  \<open>allowed_rules\<close> and the test whether a rule permits a method and a path. The lemmas show
  that expansion produces single-host normalized rules and is the identity on them, and that a
  path prefix is matched by whole path segments.
\<close>

subsection \<open>Rules\<close>

text \<open>\<open>config.Rule\<close>; \<open>MaxRequestBytes\<close> is an \<open>int64\<close>.\<close>

record rule =
  r_host :: string
  r_hosts :: "string list"
  r_methods :: "string list"
  r_path_prefixes :: "string list"
  r_max_bytes :: int

datatype path_error =
    Path_Not_Absolute string | Path_Forbidden_Char string | Path_Control_Char string
  | Path_Empty_Segment string | Path_Dot_Segment string

datatype rule_error =
    Rule_Unconstrained
  | Rule_Bad_Method nat string
  | Rule_Bad_Prefix nat path_error
  | Rule_Negative_Max
  | Rule_Host_And_Hosts nat
  | Rule_No_Host nat
  | Rule_Invalid nat rule_error
  | Rule_Bad_Host nat nat pattern_error

definition valid_method :: "string \<Rightarrow> bool" where
  "valid_method m \<longleftrightarrow> m \<noteq> [] \<and> m \<noteq> ''CONNECT'' \<and> list_all (\<lambda>r. 65 \<le> r \<and> r \<le> 90) (runes m)"

definition valid_path_prefix :: "string \<Rightarrow> (path_error, unit) result" where
  "valid_path_prefix p =
    (if \<not> has_prefix p ''/'' then Inl (Path_Not_Absolute p)
     else if contains_any p (''%?#'' @ [CHR 0x5C]) then Inl (Path_Forbidden_Char p)
     else if list_ex (\<lambda>r. r \<le> 32 \<or> r = 127) (runes p) then Inl (Path_Control_Char p)
     else
       let segments = split_on (CHR ''/'') (trim_suffix (tl p) ''/'') in
       if p \<noteq> ''/'' \<and> [] \<in> set segments then Inl (Path_Empty_Segment p)
       else if ''.'' \<in> set segments \<or> ''..'' \<in> set segments then Inl (Path_Dot_Segment p)
       else Inr ())"

text \<open>\<open>Rule.normalize\<close>: every field except the host names.\<close>

definition normalize_rule :: "rule \<Rightarrow> (rule_error, rule) result" where
  "normalize_rule r =
    (if r_methods r = [] \<and> r_path_prefixes r = [] \<and> r_max_bytes r = 0 then Inl Rule_Unconstrained
     else
       rbind (traverse (\<lambda>i m. let m' = to_upper (trim_space m) in
                if valid_method m' then Inr m' else Inl (Rule_Bad_Method i m')) (r_methods r))
       (\<lambda>ms. rbind (traverse (\<lambda>i p. case valid_path_prefix p of
                Inl e \<Rightarrow> Inl (Rule_Bad_Prefix i e) | Inr _ \<Rightarrow> Inr p) (r_path_prefixes r))
       (\<lambda>ps. if r_max_bytes r < 0 then Inl Rule_Negative_Max
             else Inr (r\<lparr>r_methods := ms, r_path_prefixes := ps\<rparr>))))"

text \<open>The inner loop of \<open>expandRules\<close>: one single-host rule per distinct host.\<close>

fun expand_hosts :: "nat \<Rightarrow> rule \<Rightarrow> nat \<Rightarrow> string list \<Rightarrow> string list \<Rightarrow> (rule_error, rule list) result" where
  "expand_hosts i r j seen [] = Inr []"
| "expand_hosts i r j seen (p # ps) =
     (case normalize_pattern p of
        Inl e \<Rightarrow> Inl (Rule_Bad_Host i j e)
      | Inr host \<Rightarrow>
          if host \<in> set seen then expand_hosts i r (Suc j) seen ps
          else rbind (expand_hosts i r (Suc j) (seen @ [host]) ps)
                 (\<lambda>rs. Inr (r\<lparr>r_host := host, r_hosts := []\<rparr> # rs)))"

definition expand_rule :: "nat \<Rightarrow> rule \<Rightarrow> (rule_error, rule list) result" where
  "expand_rule i r =
    (if r_host r \<noteq> [] \<and> r_hosts r \<noteq> [] then Inl (Rule_Host_And_Hosts i)
     else
       let patterns = (if r_host r \<noteq> [] then [r_host r] else r_hosts r) in
       if patterns = [] then Inl (Rule_No_Host i)
       else case normalize_rule r of
         Inl e \<Rightarrow> Inl (Rule_Invalid i e)
       | Inr r' \<Rightarrow> expand_hosts i r' 0 [] patterns)"

definition expand_rules :: "rule list \<Rightarrow> (rule_error, rule list) result" where
  "expand_rules rs = rbind (traverse expand_rule rs) (\<lambda>rss. Inr (concat rss))"

definition prefix_permits :: "string \<Rightarrow> string \<Rightarrow> bool" where
  "prefix_permits pre path =
    (if has_suffix pre ''/'' then has_prefix path pre
     else path = pre \<or> has_prefix path (pre @ ''/''))"

text \<open>\<open>Rule.matches\<close>.\<close>

definition rule_matches :: "rule \<Rightarrow> string \<Rightarrow> string \<Rightarrow> bool" where
  "rule_matches r meth path =
    (if r_methods r \<noteq> [] \<and> meth \<notin> set (r_methods r) then False
     else if r_path_prefixes r = [] then True
     else list_ex (\<lambda>pre. prefix_permits pre path) (r_path_prefixes r))"

subsection \<open>Normalized rules\<close>

definition rule_body_ok :: "rule \<Rightarrow> bool" where
  "rule_body_ok r \<longleftrightarrow> (r_methods r \<noteq> [] \<or> r_path_prefixes r \<noteq> [] \<or> r_max_bytes r \<noteq> 0)
     \<and> (\<forall>m \<in> set (r_methods r). valid_method m)
     \<and> (\<forall>p \<in> set (r_path_prefixes r). valid_path_prefix p = Inr ())
     \<and> 0 \<le> r_max_bytes r"

definition rule_ok :: "rule \<Rightarrow> bool" where
  "rule_ok r \<longleftrightarrow> valid_pattern (r_host r) \<and> r_hosts r = [] \<and> rule_body_ok r"

lemma valid_method_chars:
  assumes "valid_method m" shows "\<forall>c \<in> set m. upper_letter c"
proof -
  have "\<forall>r \<in> set (runes m). r < 128" using assms by (auto simp: valid_method_def list_all_iff)
  then have "is_ascii m" by (rule runes_all_ascii)
  then show ?thesis using assms by (auto simp: valid_method_def list_all_iff runes_ascii)
qed

lemma valid_method_fixed:
  assumes "valid_method m" shows "to_upper (trim_space m) = m"
proof -
  have ch: "\<forall>c \<in> set m. upper_letter c" by (rule valid_method_chars [OF assms])
  have "\<forall>c \<in> set m. graphic c" using ch by (fastforce simp: graphic_def)
  then have "trim_space m = m" by (rule trim_space_graphic)
  moreover have "map upper_char m = m"
    by (rule map_idI) (use ch in \<open>fastforce simp: upper_char_def\<close>)
  moreover have "is_ascii m" using ch by (fastforce simp: is_ascii_def list_all_iff)
  ultimately show ?thesis by (simp add: to_upper_def)
qed

lemma valid_pattern_nonempty: "valid_pattern p \<Longrightarrow> p \<noteq> []"
  using valid_host_props(4) by (auto simp: valid_pattern_iff)

lemma normalize_rule_body_ok:
  assumes "normalize_rule r = Inr r'" shows "rule_body_ok r'"
proof -
  from assms obtain ms ps where
    ms: "traverse (\<lambda>i m. let m' = to_upper (trim_space m) in
           if valid_method m' then Inr m' else Inl (Rule_Bad_Method i m')) (r_methods r) = Inr ms" and
    ps: "traverse (\<lambda>i p. case valid_path_prefix p of
           Inl e \<Rightarrow> Inl (Rule_Bad_Prefix i e) | Inr _ \<Rightarrow> Inr p) (r_path_prefixes r) = Inr ps" and
    r': "r' = r\<lparr>r_methods := ms, r_path_prefixes := ps\<rparr>" and
    max: "0 \<le> r_max_bytes r" and
    some: "\<not> (r_methods r = [] \<and> r_path_prefixes r = [] \<and> r_max_bytes r = 0)"
    by (auto simp: normalize_rule_def split: if_splits)
  have "\<forall>m \<in> set ms. valid_method m"
    by (rule traverse_from_all [OF ms]) (auto simp: Let_def split: if_splits)
  moreover have "\<forall>p \<in> set ps. valid_path_prefix p = Inr ()"
    by (rule traverse_from_all [OF ps]) (auto split: sum.splits)
  moreover have "ms = [] \<longleftrightarrow> r_methods r = []" "ps = [] \<longleftrightarrow> r_path_prefixes r = []"
    using traverse_from_length [OF ms] traverse_from_length [OF ps] by auto
  ultimately show ?thesis using r' max some by (auto simp: rule_body_ok_def)
qed

lemma normalize_rule_fixed:
  assumes "rule_body_ok r" shows "normalize_rule r = Inr r"
proof -
  have "traverse (\<lambda>i m. let m' = to_upper (trim_space m) in
     if valid_method m' then Inr m' else Inl (Rule_Bad_Method i m')) (r_methods r) = Inr (r_methods r)"
    by (rule traverse_from_fixed) (use assms in \<open>simp add: rule_body_ok_def valid_method_fixed\<close>)
  moreover have "traverse (\<lambda>i p. case valid_path_prefix p of
     Inl e \<Rightarrow> Inl (Rule_Bad_Prefix i e) | Inr _ \<Rightarrow> Inr p) (r_path_prefixes r) = Inr (r_path_prefixes r)"
    by (rule traverse_from_fixed) (use assms in \<open>simp add: rule_body_ok_def\<close>)
  ultimately show ?thesis using assms by (simp add: normalize_rule_def rule_body_ok_def)
qed

lemma expand_hosts_rule_ok:
  assumes "expand_hosts i r j seen ps = Inr rs" and "rule_body_ok r"
  shows "\<forall>q \<in> set rs. rule_ok q"
  using assms
proof (induction i r j seen ps arbitrary: rs rule: expand_hosts.induct)
  case (1 i r j seen)
  then show ?case by simp
next
  case (2 i r j seen p ps)
  then obtain host where host: "normalize_pattern p = Inr host"
    by (auto split: sum.splits)
  have "rule_ok (r\<lparr>r_host := host, r_hosts := []\<rparr>)"
    using "2.prems"(2) normalize_valid [OF host] by (simp add: rule_ok_def rule_body_ok_def)
  with 2 host show ?case by (auto split: if_splits)
qed

text \<open>The hosts of the expansion are exactly the normalized patterns, each once.\<close>

lemma expand_hosts_hosts:
  assumes "expand_hosts i r j seen ps = Inr rs"
  shows "\<forall>h. h \<in> r_host ` set rs \<longleftrightarrow> h \<notin> set seen \<and> (\<exists>p \<in> set ps. normalize_pattern p = Inr h)"
    and "distinct (map r_host rs)"
proof -
  have "(\<forall>h. h \<in> r_host ` set rs \<longleftrightarrow> h \<notin> set seen \<and> (\<exists>p \<in> set ps. normalize_pattern p = Inr h))
     \<and> distinct (map r_host rs)"
    using assms
  proof (induction i r j seen ps arbitrary: rs rule: expand_hosts.induct)
    case (1 i r j seen)
    then show ?case by simp
  next
    case (2 i r j seen p ps)
    then obtain host where host: "normalize_pattern p = Inr host"
      by (auto split: sum.splits)
    show ?case
    proof (cases "host \<in> set seen")
      case True
      with 2 host show ?thesis by fastforce
    next
      case False
      with 2 host obtain rs' where rs': "expand_hosts i r (Suc j) (seen @ [host]) ps = Inr rs'"
        and rs: "rs = r\<lparr>r_host := host, r_hosts := []\<rparr> # rs'"
        by auto
      from "2.IH"(2) [OF host False rs'] have
        ih: "h \<in> r_host ` set rs' \<longleftrightarrow> h \<notin> set (seen @ [host]) \<and> (\<exists>p \<in> set ps. normalize_pattern p = Inr h)"
        and d: "distinct (map r_host rs')" for h
        by blast+
      have "h \<in> r_host ` set rs \<longleftrightarrow> h \<notin> set seen \<and> (\<exists>p \<in> set (p # ps). normalize_pattern p = Inr h)" for h
        using ih [of h] False host rs by auto
      moreover have "host \<notin> r_host ` set rs'" using ih [of host] by simp
      ultimately show ?thesis using d rs by simp
    qed
  qed
  then show "\<forall>h. h \<in> r_host ` set rs \<longleftrightarrow> h \<notin> set seen \<and> (\<exists>p \<in> set ps. normalize_pattern p = Inr h)"
    and "distinct (map r_host rs)" by blast+
qed

lemma expand_rule_ok: "expand_rule i r = Inr rs \<Longrightarrow> \<forall>q \<in> set rs. rule_ok q"
  by (auto simp: expand_rule_def Let_def simp del: expand_hosts.simps split: if_splits sum.splits
      dest!: expand_hosts_rule_ok [OF _ normalize_rule_body_ok])

lemma expand_rule_fixed:
  assumes "rule_ok r" shows "expand_rule i r = Inr [r]"
proof -
  have "normalize_pattern (r_host r) = Inr (r_host r)" "r_host r \<noteq> []" "normalize_rule r = Inr r"
    "r_hosts r = []"
    using assms normalize_valid_pattern valid_pattern_nonempty normalize_rule_fixed
    by (auto simp: rule_ok_def)
  then show ?thesis by (simp add: expand_rule_def)
qed

lemma expand_rules_ok: "expand_rules rs = Inr qs \<Longrightarrow> \<forall>q \<in> set qs. rule_ok q"
  by (auto simp: expand_rules_def dest!: traverse_from_all [where P = "\<lambda>ys. \<forall>q \<in> set ys. rule_ok q"]
      expand_rule_ok)

lemma expand_rules_fixed:
  assumes "\<forall>r \<in> set rs. rule_ok r" shows "expand_rules rs = Inr rs"
proof -
  have "traverse_from i expand_rule rs = Inr (map (\<lambda>r. [r]) rs)" for i
    using assms by (induction rs arbitrary: i) (auto simp: expand_rule_fixed)
  then show ?thesis by (simp add: expand_rules_def)
qed

subsection \<open>Path prefixes match whole segments\<close>

abbreviation segments :: "string \<Rightarrow> string list" where
  "segments \<equiv> split_on (CHR ''/'')"

lemma slash_prefix_segments:
  "prefix (p @ ''/'') path \<longleftrightarrow> strict_prefix (segments p) (segments path)"
proof
  assume "prefix (p @ ''/'') path"
  then obtain t where "path = p @ CHR ''/'' # t" by (auto simp: prefix_def)
  then have "segments path = segments p @ segments t" by (simp add: split_on_append_sep)
  then show "strict_prefix (segments p) (segments path)"
    by (simp add: strict_prefix_def)
next
  assume "strict_prefix (segments p) (segments path)"
  then obtain ls where ls: "segments path = segments p @ ls" "ls \<noteq> []"
    by (metis append_Nil2 prefix_def strict_prefix_def)
  then have "path = p @ ''/'' @ join_with ''/'' ls"
    by (metis join_split join_with_append split_on_nonempty)
  then show "prefix (p @ ''/'') path" by simp
qed

lemmas [evaluate] = valid_method_def valid_path_prefix_def normalize_rule_def expand_rule_def
  expand_rules_def prefix_permits_def rule_matches_def

subsection \<open>Properties\<close>

text \<open>A path prefix of a rule is matched by whole path segments: a prefix without trailing
  slash permits exactly the paths whose segments start with its own, a prefix with trailing slash
  the paths strictly below it. So \<open>/api\<close> does not permit \<open>/apis\<close>.\<close>

theorem prefix_permits_segments:
  "prefix_permits pre path \<longleftrightarrow>
    (if has_suffix pre ''/'' then strict_prefix (segments (butlast pre)) (segments path)
     else prefix (segments pre) (segments path))"
proof (cases "has_suffix pre ''/''")
  case True
  then have "pre = butlast pre @ ''/''"
    by (metis append_butlast_last_id suffix_singleton_iff)
  then show ?thesis
    using True slash_prefix_segments [of "butlast pre" path] by (simp add: prefix_permits_def)
next
  case False
  then show ?thesis
    using slash_prefix_segments [of pre path]
    by (auto simp: prefix_permits_def strict_prefix_def)
qed

text \<open>Expansion of \<open>allowed_rules\<close>: every resulting rule names one valid host pattern,
  is constrained, has only valid methods and canonical path prefixes and no negative cap, and
  expanding the result again changes nothing.\<close>

theorem expand_rules_normal:
  assumes "expand_rules rs = Inr qs"
  shows "(\<forall>q \<in> set qs. rule_ok q) \<and> expand_rules qs = Inr qs"
  using expand_rules_ok [OF assms] expand_rules_fixed by blast

definition sample_rule :: rule where
  "sample_rule = \<lparr>r_host = [], r_hosts = [''A.example.com'', ''a.example.com''], r_methods = ['' get''],
     r_path_prefixes = [''/v1''], r_max_bytes = 0\<rparr>"

definition sample_rule_expanded :: rule where
  "sample_rule_expanded = \<lparr>r_host = ''a.example.com'', r_hosts = [], r_methods = [''GET''],
     r_path_prefixes = [''/v1''], r_max_bytes = 0\<rparr>"

theorem expand_rules_normal_witness:
  "rule_ok sample_rule_expanded \<and> expand_rules [sample_rule_expanded] = Inr [sample_rule_expanded]"
proof -
  have "expand_rules [sample_rule] = Inr [sample_rule_expanded]"
    by (simp add: evaluate sample_rule_def sample_rule_expanded_def)
  from expand_rules_normal [OF this] show ?thesis by simp
qed

end
