(* ===== verification/Go_Net.thy ===== *)
theory Go_Net
  imports Go_Strings
begin

text \<open>
  Go's packages \<open>net\<close> and \<open>net/netip\<close> as far as the program uses them: parsing of IP
  literals, host:port authorities, addresses as words with the address classes, and CIDR prefixes.
\<close>

unbundle bit_operations_syntax

subsection \<open>Addresses\<close>

text \<open>\<open>netip.Addr\<close>: the zero value, an IPv4 address, or an IPv6 address with its zone
  (the empty string for none).\<close>

datatype ip_addr = Ip_Invalid | Ip4 "32 word" | Ip6 "128 word" string

definition ip_is_valid :: "ip_addr \<Rightarrow> bool" where
  "ip_is_valid a \<longleftrightarrow> a \<noteq> Ip_Invalid"

definition in_top :: "'a::len word \<Rightarrow> 'a word \<Rightarrow> nat \<Rightarrow> bool" where
  \<comment> \<open>the top \<open>n\<close> bits of \<open>a\<close> are those of \<open>p\<close>\<close>
  "in_top a p n \<longleftrightarrow> drop_bit (LENGTH('a) - n) (a XOR p) = 0"

definition is_4in6 :: "128 word \<Rightarrow> bool" where
  "is_4in6 a \<longleftrightarrow> drop_bit 32 a = 0xFFFF"

text \<open>\<open>Addr.Unmap\<close>: an IPv4-mapped IPv6 address becomes the IPv4 address.\<close>

fun ip_unmap :: "ip_addr \<Rightarrow> ip_addr" where
  "ip_unmap (Ip6 a z) = (if is_4in6 a then Ip4 (ucast a) else Ip6 a z)"
| "ip_unmap a = a"

fun ip_is_loopback :: "ip_addr \<Rightarrow> bool" where
  "ip_is_loopback (Ip4 a) = in_top a 0x7F000000 8"
| "ip_is_loopback (Ip6 a z) =
     (if is_4in6 a then in_top (ucast a :: 32 word) 0x7F000000 8 else a = 1)"
| "ip_is_loopback Ip_Invalid = False"

fun ip_is_multicast :: "ip_addr \<Rightarrow> bool" where
  "ip_is_multicast (Ip4 a) = in_top a 0xE0000000 4"
| "ip_is_multicast (Ip6 a z) =
     (if is_4in6 a then in_top (ucast a :: 32 word) 0xE0000000 4
      else in_top a 0xFF000000000000000000000000000000 8)"
| "ip_is_multicast Ip_Invalid = False"

fun ip_is_link_local :: "ip_addr \<Rightarrow> bool" where
  "ip_is_link_local (Ip4 a) = in_top a 0xA9FE0000 16"
| "ip_is_link_local (Ip6 a z) =
     (if is_4in6 a then in_top (ucast a :: 32 word) 0xA9FE0000 16
      else in_top a 0xFE800000000000000000000000000000 10)"
| "ip_is_link_local Ip_Invalid = False"

definition ip_is_global_unicast :: "ip_addr \<Rightarrow> bool" where
  "ip_is_global_unicast a \<longleftrightarrow> a \<noteq> Ip_Invalid \<and> a \<noteq> Ip4 0 \<and> a \<noteq> Ip4 0xFFFFFFFF
     \<and> a \<noteq> Ip6 0 '''' \<and> \<not> ip_is_loopback a \<and> \<not> ip_is_multicast a \<and> \<not> ip_is_link_local a"

lemma ip_unmap_idem [simp]: "ip_unmap (ip_unmap a) = ip_unmap a"
  by (cases a) auto

subsection \<open>Parsing of IP literals\<close>

text \<open>An octet of a dotted quad: decimal digits without a leading zero, at most 255.\<close>

definition parse_octet :: "string \<Rightarrow> nat option" where
  "parse_octet s = (if s = [] \<or> length s > 1 \<and> hd s = CHR ''0'' then None
     else case dec_value s 0 of None \<Rightarrow> None | Some n \<Rightarrow> if n \<le> 255 then Some n else None)"

definition parse_ipv4_fields :: "string \<Rightarrow> nat list option" where
  "parse_ipv4_fields s = (case split_on (CHR ''.'') s of
     [a, b, c, d] \<Rightarrow> those (map parse_octet [a, b, c, d]) | _ \<Rightarrow> None)"

definition word_of_digits :: "nat \<Rightarrow> nat list \<Rightarrow> 'a::len word" where
  "word_of_digits b ds = foldl (\<lambda>w d. w * of_nat b + of_nat d) 0 ds"

definition hex_digit :: "char \<Rightarrow> nat option" where
  "hex_digit c = (let n = code c in
     if 48 \<le> n \<and> n \<le> 57 then Some (n - 48)
     else if 97 \<le> n \<and> n \<le> 102 then Some (n - 87)
     else if 65 \<le> n \<and> n \<le> 70 then Some (n - 55) else None)"

definition hex_value :: "string \<Rightarrow> nat" where
  "hex_value s = foldl (\<lambda>n c. 16 * n + (case hex_digit c of None \<Rightarrow> 0 | Some d \<Rightarrow> d)) 0 s"

text \<open>The loop of \<open>netip.parseIPv6\<close> over 16-bit groups: the groups read so far and the
  position of the ellipsis; the result is the same pair once the text is used up.\<close>

function parse_ipv6_groups :: "string \<Rightarrow> nat list \<Rightarrow> nat option \<Rightarrow> (nat list \<times> nat option) option" where
  "parse_ipv6_groups s gs el =
    (if 8 \<le> length gs then (if s = [] then Some (gs, el) else None) else
     let h = takeWhile (\<lambda>c. hex_digit c \<noteq> None) s; r = drop (length h) s in
     if h = [] \<or> 4 < length h then None
     else if r \<noteq> [] \<and> hd r = CHR ''.'' then
       (if el = None \<and> length gs \<noteq> 6 \<or> 6 < length gs then None else
        case parse_ipv4_fields s of
          Some [a, b, c, d] \<Rightarrow> Some (gs @ [256 * a + b, 256 * c + d], el) | _ \<Rightarrow> None)
     else
       let gs' = gs @ [hex_value h] in
       if r = [] then Some (gs', el)
       else if hd r \<noteq> CHR '':'' \<or> length r = 1 then None
       else let s' = tl r in
         if hd s' = CHR '':'' then
           (if el \<noteq> None then None
            else if tl s' = [] then Some (gs', Some (length gs'))
            else parse_ipv6_groups (tl s') gs' (Some (length gs')))
         else parse_ipv6_groups s' gs' el)"
  by pat_completeness auto
termination
  by (relation "measure (\<lambda>(s, gs, el). 8 - length gs)") auto

declare parse_ipv6_groups.simps [simp del]

definition expand_ellipsis :: "nat list \<Rightarrow> nat option \<Rightarrow> nat list option" where
  "expand_ellipsis gs el = (if length gs < 8 then
       (case el of None \<Rightarrow> None
        | Some k \<Rightarrow> Some (take k gs @ replicate (8 - length gs) 0 @ drop k gs))
     else if el \<noteq> None then None else Some gs)"

definition parse_ipv6 :: "string \<Rightarrow> ip_addr option" where
  "parse_ipv6 t =
    (let z = (case cut_on (CHR ''%'') t of None \<Rightarrow> (t, '''') | Some p \<Rightarrow> p);
         s = fst z; zone = snd z in
     if CHR ''%'' \<in> set t \<and> zone = [] then None
     else if s = ''::'' then Some (Ip6 0 zone)
     else
       case (if has_prefix s ''::'' then parse_ipv6_groups (drop 2 s) [] (Some 0)
             else parse_ipv6_groups s [] None) of
         None \<Rightarrow> None
       | Some (gs, el) \<Rightarrow>
           (case expand_ellipsis gs el of None \<Rightarrow> None
            | Some ds \<Rightarrow> Some (Ip6 (word_of_digits 65536 ds) zone)))"

text \<open>\<open>netip.ParseAddr\<close>: the first of the bytes \<open>.\<close>, \<open>:\<close> and \<open>%\<close>
  decides the family.\<close>

definition parse_addr :: "string \<Rightarrow> ip_addr option" where
  "parse_addr s = (case dropWhile (\<lambda>c. c \<notin> set ''.:%'') s of
     [] \<Rightarrow> None
   | c # _ \<Rightarrow>
       if c = CHR ''.'' then map_option (\<lambda>ds. Ip4 (word_of_digits 256 ds)) (parse_ipv4_fields s)
       else if c = CHR '':'' then parse_ipv6 s else None)"

text \<open>\<open>net.ParseIP\<close>: no zone allowed.\<close>

definition parse_ip :: "string \<Rightarrow> ip_addr option" where
  "parse_ip s = (case parse_addr s of
     Some (Ip6 a z) \<Rightarrow> if z = [] then Some (Ip6 a z) else None
   | r \<Rightarrow> r)"

subsection \<open>Authorities\<close>

definition rcut_on :: "char \<Rightarrow> string \<Rightarrow> (string \<times> string) option" where
  "rcut_on c s = map_option (\<lambda>(a, b). (rev b, rev a)) (cut_on c (rev s))"

text \<open>\<open>net.SplitHostPort\<close>; \<open>None\<close> stands for its address errors.\<close>

definition split_host_port :: "string \<Rightarrow> (string \<times> string) option" where
  "split_host_port hp = (case rcut_on (CHR '':'') hp of
     None \<Rightarrow> None
   | Some (hp1, port) \<Rightarrow>
       if hp \<noteq> [] \<and> hd hp = CHR ''['' then
         (case cut_on (CHR '']'') hp of
            None \<Rightarrow> None
          | Some (a, rest) \<Rightarrow>
              if rest = CHR '':'' # port \<and> CHR ''['' \<notin> set (tl hp) \<and> CHR '']'' \<notin> set rest
              then Some (tl a, port) else None)
       else if CHR '':'' \<in> set hp1 \<or> CHR ''['' \<in> set hp \<or> CHR '']'' \<in> set hp then None
       else Some (hp1, port))"

definition join_host_port :: "string \<Rightarrow> string \<Rightarrow> string" where
  "join_host_port host port = (if CHR '':'' \<in> set host
     then ''['' @ host @ '']:'' @ port else host @ '':'' @ port)"

lemma rcut_on_Some_iff: "rcut_on c s = Some (a, b) \<longleftrightarrow> s = a @ c # b \<and> c \<notin> set b"
proof -
  have "rcut_on c s = Some (a, b) \<longleftrightarrow> cut_on c (rev s) = Some (rev b, rev a)"
    by (auto simp: rcut_on_def)
  also have "\<dots> \<longleftrightarrow> rev s = rev b @ c # rev a \<and> c \<notin> set b"
    by (simp add: cut_on_Some_iff)
  also have "\<dots> \<longleftrightarrow> s = a @ c # b \<and> c \<notin> set b"
    by (metis append.assoc append_Cons append_Nil rev.simps(2) rev_append rev_rev_ident)
  finally show ?thesis .
qed

lemma split_join_host_port:
  assumes "CHR ''['' \<notin> set h" "CHR '']'' \<notin> set h" "CHR '':'' \<notin> set h"
    and "CHR ''['' \<notin> set p" "CHR '']'' \<notin> set p" "CHR '':'' \<notin> set p"
  shows "split_host_port (join_host_port h p) = Some (h, p)"
proof -
  have "rcut_on (CHR '':'') (h @ '':'' @ p) = Some (h, p)"
    using assms by (simp add: rcut_on_Some_iff)
  moreover have "\<not> (h @ '':'' @ p \<noteq> [] \<and> hd (h @ '':'' @ p) = CHR ''['')"
    using assms by (cases h) auto
  ultimately show ?thesis
    using assms by (auto simp: split_host_port_def join_host_port_def)
qed

subsection \<open>CIDR prefixes\<close>

text \<open>\<open>netip.Prefix\<close>: an address without zone and a number of bits.\<close>

record ip_prefix =
  px_addr :: ip_addr
  px_bits :: nat

fun ip_bit_len :: "ip_addr \<Rightarrow> nat" where
  "ip_bit_len (Ip4 a) = 32" | "ip_bit_len (Ip6 a z) = 128" | "ip_bit_len Ip_Invalid = 0"

text \<open>\<open>netip.ParsePrefix\<close>: address, slash, decimal bits without leading zero.\<close>

definition parse_prefix :: "string \<Rightarrow> ip_prefix option" where
  "parse_prefix s = (case rcut_on (CHR ''/'') s of
     None \<Rightarrow> None
   | Some (a, b) \<Rightarrow>
       (case parse_ip a of
          None \<Rightarrow> None
        | Some ip \<Rightarrow>
            if b = [] \<or> length b > 1 \<and> hd b = CHR ''0'' then None else
            (case dec_value b 0 of
               None \<Rightarrow> None
             | Some n \<Rightarrow> if n \<le> ip_bit_len ip then Some \<lparr>px_addr = ip, px_bits = n\<rparr> else None)))"

text \<open>\<open>Prefix.Contains\<close>. An address with a zone is in no prefix.\<close>

fun prefix_contains_addr :: "ip_addr \<Rightarrow> nat \<Rightarrow> ip_addr \<Rightarrow> bool" where
  "prefix_contains_addr (Ip4 p) n (Ip4 a) = (drop_bit ((32 - n) mod 32) (a XOR p) = 0)"
| "prefix_contains_addr (Ip6 p z) n (Ip6 a z') = (z' = [] \<and> in_top a p n)"
| "prefix_contains_addr _ n _ = False"

definition prefix_contains :: "ip_prefix \<Rightarrow> ip_addr \<Rightarrow> bool" where
  "prefix_contains p a = prefix_contains_addr (px_addr p) (px_bits p) a"

text \<open>The top-bits test as an interval of addresses.\<close>

lemma drop_bit_xor_zero_iff:
  fixes a p :: "'a::len word"
  shows "drop_bit n (a XOR p) = 0 \<longleftrightarrow> uint a div 2 ^ n = uint p div 2 ^ n"
proof -
  have u: "uint (drop_bit n w) = uint w div 2 ^ n" for w :: "'a word"
    by (subst unsigned_drop_bit_eq) (simp add: drop_bit_eq_div take_bit_int_eq_self)
  have "drop_bit n (a XOR p) = 0 \<longleftrightarrow> drop_bit n a = drop_bit n p"
    by (auto simp: drop_bit_xor) (metis xor.left_neutral xor_self_eq xor.assoc)+
  also have "\<dots> \<longleftrightarrow> uint (drop_bit n a) = uint (drop_bit n p)" by (simp add: word_uint_eq_iff)
  also have "\<dots> \<longleftrightarrow> uint a div 2 ^ n = uint p div 2 ^ n"
    by (simp only: u)
  finally show ?thesis .
qed

lemma in_top_interval:
  fixes a p :: "'a::len word"
  assumes "uint p = k * 2 ^ (LENGTH('a) - n)"
  shows "in_top a p n \<longleftrightarrow> uint p \<le> uint a \<and> uint a < uint p + 2 ^ (LENGTH('a) - n)"
proof -
  let ?m = "2 ^ (LENGTH('a) - n) :: int"
  have "uint a div ?m = uint p div ?m \<longleftrightarrow> uint a div ?m = k" using assms by simp
  also have "\<dots> \<longleftrightarrow> k * ?m \<le> uint a \<and> uint a < k * ?m + ?m"
  proof
    assume "uint a div ?m = k"
    then have "uint a = k * ?m + uint a mod ?m" by (metis div_mult_mod_eq)
    moreover have "0 \<le> uint a mod ?m" "uint a mod ?m < ?m" by simp_all
    ultimately show "k * ?m \<le> uint a \<and> uint a < k * ?m + ?m" by linarith
  next
    assume "k * ?m \<le> uint a \<and> uint a < k * ?m + ?m"
    then show "uint a div ?m = k"
      by (intro int_div_pos_eq [where r = "uint a - k * ?m"]) auto
  qed
  finally show ?thesis
    unfolding in_top_def drop_bit_xor_zero_iff using assms by simp
qed

lemmas [evaluate] = in_top_def is_4in6_def ip_is_global_unicast_def parse_octet_def
  parse_ipv4_fields_def word_of_digits_def hex_digit_def hex_value_def parse_ipv6_groups.simps [of "_ # _"]
  parse_ipv6_groups.simps [of "[]"]
  expand_ellipsis_def parse_ipv6_def parse_addr_def parse_ip_def rcut_on_def split_host_port_def
  join_host_port_def parse_prefix_def prefix_contains_def

end
