(* ===== verification/Client_Policy.thy ===== *)
theory Client_Policy
  imports Request_Rules Go_Net
begin

text \<open>
  The client policy, file \<open>internal/config/config.go\<close> and the client methods of
  \<open>internal/config/rules.go\<close>: validation of the policy document, authentication by token,
  and the tests a destination and a request have to pass. The digest \<open>sha256.Sum256\<close> is an
  argument of the definitions that use it; no property needs more of it than that it is a function.
\<close>

subsection \<open>The policy document\<close>

record client =
  c_name :: string
  c_token :: string
  c_allowed_hosts :: "string list"
  c_opaque_hosts :: "string list"
  c_intercept_mode :: string
  c_intercept_hosts :: "string list"
  c_inspect_hosts :: "string list"
  c_allowed_rules :: "rule list"
  c_allowed_ports :: "int list"
  c_any_public :: bool
  c_observe_all :: bool

type_synonym policy = "client list"

datatype host_list = Allowed_Hosts | Opaque_Hosts | Intercept_Hosts | Inspect_Hosts

datatype policy_error =
    Policy_No_Clients
  | Client_No_Name nat
  | Client_Duplicate_Name string
  | Client_Short_Token string
  | Client_Shared_Token string string
  | Client_No_Hosts string
  | Client_Bad_Host string host_list nat pattern_error
  | Client_Bad_Mode string
  | Client_Bad_Rule string rule_error
  | Client_Bad_Port string int

abbreviation "mode_intercept \<equiv> ''intercept''"
abbreviation "mode_inspect \<equiv> ''inspect''"
abbreviation "mode_opaque \<equiv> ''opaque''"

subsection \<open>Validation\<close>

definition normalize_hosts ::
  "string \<Rightarrow> host_list \<Rightarrow> string list \<Rightarrow> (policy_error, string list) result" where
  "normalize_hosts name which hosts = traverse (\<lambda>j p. case normalize_pattern p of
     Inl e \<Rightarrow> Inl (Client_Bad_Host name which j e) | Inr h \<Rightarrow> Inr h) hosts"

definition fold_mode :: "string \<Rightarrow> string option" where
  "fold_mode m = (if m = [] \<or> m = ''all'' then Some mode_intercept
     else if m = ''listed'' then Some mode_opaque
     else if m \<in> {mode_intercept, mode_inspect, mode_opaque} then Some m else None)"

text \<open>The deprecated name of \<open>AllowAnyPublicHost\<close>.\<close>

definition fold_observe :: "client \<Rightarrow> client" where
  "fold_observe c = (if c_observe_all c then c\<lparr>c_any_public := True, c_observe_all := False\<rparr> else c)"

definition check_ports :: "string \<Rightarrow> int list \<Rightarrow> (policy_error, unit) result" where
  "check_ports name ports = (case find (\<lambda>p. p < 1 \<or> 65535 < p) ports of
     Some p \<Rightarrow> Inl (Client_Bad_Port name p) | None \<Rightarrow> Inr ())"

text \<open>The part of the loop body of \<open>File.Validate\<close> from the host lists on.\<close>

definition validate_fields :: "client \<Rightarrow> (policy_error, client) result" where
  "validate_fields c = (let name = c_name c in
     rbind (require (c_allowed_hosts c \<noteq> [] \<or> c_any_public c) (Client_No_Hosts name)) (\<lambda>_.
     rbind (normalize_hosts name Allowed_Hosts (c_allowed_hosts c)) (\<lambda>allowed.
     rbind (normalize_hosts name Opaque_Hosts (c_opaque_hosts c)) (\<lambda>opaque_hosts.
     rbind (of_option (Client_Bad_Mode name) (fold_mode (c_intercept_mode c))) (\<lambda>mode.
     rbind (normalize_hosts name Intercept_Hosts (c_intercept_hosts c)) (\<lambda>intercept.
     rbind (normalize_hosts name Inspect_Hosts (c_inspect_hosts c)) (\<lambda>inspect.
     rbind (wrap_error (Client_Bad_Rule name) (expand_rules (c_allowed_rules c))) (\<lambda>rules.
     let ports = (if c_allowed_ports c = [] then [443] else c_allowed_ports c) in
     rbind (check_ports name ports) (\<lambda>_.
       Inr (c\<lparr>c_allowed_hosts := allowed, c_opaque_hosts := opaque_hosts,
         c_intercept_mode := mode, c_intercept_hosts := intercept, c_inspect_hosts := inspect,
         c_allowed_rules := rules, c_allowed_ports := ports\<rparr>))))))))))"

text \<open>One round of the loop of \<open>File.Validate\<close>: the names seen so far, the owners of the
  token digests seen so far, and the client.\<close>

definition validate_client ::
  "(string \<Rightarrow> 'd) \<Rightarrow> nat \<Rightarrow> string list \<Rightarrow> ('d \<rightharpoonup> string) \<Rightarrow> client \<Rightarrow> (policy_error, client) result" where
  "validate_client sha i names tokens c0 =
    (let name = trim_space (c_name c0); c = c0\<lparr>c_name := name\<rparr> in
     if name = [] then Inl (Client_No_Name i)
     else if name \<in> set names then Inl (Client_Duplicate_Name name)
     else if length (c_token c) < 24 then Inl (Client_Short_Token name)
     else case tokens (sha (c_token c)) of
       Some owner \<Rightarrow> Inl (Client_Shared_Token owner name)
     | None \<Rightarrow> validate_fields (fold_observe c))"

fun validate_clients ::
  "(string \<Rightarrow> 'd) \<Rightarrow> nat \<Rightarrow> string list \<Rightarrow> ('d \<rightharpoonup> string) \<Rightarrow> policy \<Rightarrow> (policy_error, policy) result" where
  "validate_clients sha i names tokens [] = Inr []"
| "validate_clients sha i names tokens (c # cs) =
     rbind (validate_client sha i names tokens c) (\<lambda>c'.
     rbind (validate_clients sha (Suc i) (c_name c' # names)
              (tokens(sha (c_token c') \<mapsto> c_name c')) cs) (\<lambda>cs'. Inr (c' # cs')))"

text \<open>\<open>File.Validate\<close>.\<close>

definition validate_policy :: "(string \<Rightarrow> 'd) \<Rightarrow> policy \<Rightarrow> (policy_error, policy) result" where
  "validate_policy sha f = (if f = [] then Inl Policy_No_Clients else validate_clients sha 0 [] Map.empty f)"

subsection \<open>Queries on the policy\<close>

text \<open>\<open>File.Client\<close>.\<close>

definition find_client :: "policy \<Rightarrow> string \<Rightarrow> client option" where
  "find_client f name = find (\<lambda>c. c_name c = name) f"

text \<open>The loop of \<open>File.Authenticate\<close>: the last match and the number of matches.\<close>

fun authenticate_loop :: "string \<Rightarrow> policy \<Rightarrow> client option \<Rightarrow> nat \<Rightarrow> client option \<times> nat" where
  "authenticate_loop token [] m n = (m, n)"
| "authenticate_loop token (c # cs) m n =
     (if length token = length (c_token c) \<and> token = c_token c
      then authenticate_loop token cs (Some c) (Suc n)
      else authenticate_loop token cs m n)"

definition authenticate :: "policy \<Rightarrow> string \<Rightarrow> client option" where
  "authenticate f token = (case authenticate_loop token f None 0 of
     (m, n) \<Rightarrow> if n \<noteq> 1 then None else m)"

definition has_any_public_host_clients :: "policy \<Rightarrow> bool" where
  "has_any_public_host_clients f = list_ex c_any_public f"

text \<open>\<open>Client.Allows\<close>.\<close>

definition allows :: "client \<Rightarrow> string \<Rightarrow> int \<Rightarrow> bool" where
  "allows c host0 port = (let host = canonical_host host0 in
     if \<not> valid_host host \<or> parse_ip host \<noteq> None \<or> port \<notin> set (c_allowed_ports c) then False
     else if c_any_public c then True
     else host_matches (c_allowed_hosts c) host)"

definition listed_in :: "string list \<Rightarrow> string \<Rightarrow> bool" where
  "listed_in patterns host0 =
     (let host = canonical_host host0 in valid_host host \<and> host_matches patterns host)"

definition intercepts_listed_host :: "client \<Rightarrow> string \<Rightarrow> bool" where
  "intercepts_listed_host c host = listed_in (c_intercept_hosts c) host"

definition uses_opaque_tunnel_list :: "client \<Rightarrow> string \<Rightarrow> bool" where
  "uses_opaque_tunnel_list c host = listed_in (c_opaque_hosts c) host"

definition inspects_host :: "client \<Rightarrow> string \<Rightarrow> bool" where
  "inspects_host c host = listed_in (c_inspect_hosts c) host"

definition rule_applies :: "string \<Rightarrow> rule \<Rightarrow> bool" where
  "rule_applies host r = host_matches [r_host r] host"

text \<open>\<open>Client.HasRulesFor\<close>.\<close>

definition has_rules_for :: "client \<Rightarrow> string \<Rightarrow> bool" where
  "has_rules_for c host = list_ex (rule_applies (canonical_host host)) (c_allowed_rules c)"

text \<open>\<open>Client.MatchRule\<close>: the rule found, and whether the request is permitted.\<close>

fun match_rule_loop :: "string \<Rightarrow> string \<Rightarrow> string \<Rightarrow> bool \<Rightarrow> rule list \<Rightarrow> rule option \<times> bool" where
  "match_rule_loop host meth path restricted [] = (None, \<not> restricted)"
| "match_rule_loop host meth path restricted (r # rs) =
     (if \<not> rule_applies host r then match_rule_loop host meth path restricted rs
      else if rule_matches r meth path then (Some r, True)
      else match_rule_loop host meth path True rs)"

definition match_rule :: "client \<Rightarrow> string \<Rightarrow> string \<Rightarrow> string \<Rightarrow> rule option \<times> bool" where
  "match_rule c host meth path =
     match_rule_loop (canonical_host host) meth path False (c_allowed_rules c)"

subsection \<open>Validated policies\<close>

definition client_ok :: "client \<Rightarrow> bool" where
  "client_ok c \<longleftrightarrow> c_name c \<noteq> [] \<and> trim_space (c_name c) = c_name c \<and> 24 \<le> length (c_token c)
     \<and> \<not> c_observe_all c \<and> (c_allowed_hosts c \<noteq> [] \<or> c_any_public c)
     \<and> (\<forall>p \<in> set (c_allowed_hosts c) \<union> set (c_opaque_hosts c) \<union> set (c_intercept_hosts c)
           \<union> set (c_inspect_hosts c). valid_pattern p)
     \<and> c_intercept_mode c \<in> {mode_intercept, mode_inspect, mode_opaque}
     \<and> (\<forall>r \<in> set (c_allowed_rules c). rule_ok r)
     \<and> c_allowed_ports c \<noteq> [] \<and> (\<forall>p \<in> set (c_allowed_ports c). 1 \<le> p \<and> p \<le> 65535)"

definition policy_ok :: "policy \<Rightarrow> bool" where
  "policy_ok f \<longleftrightarrow> f \<noteq> [] \<and> (\<forall>c \<in> set f. client_ok c)
     \<and> distinct (map c_name f) \<and> distinct (map c_token f)"

lemma normalize_hosts_ok: "normalize_hosts name w hs = Inr hs' \<Longrightarrow> \<forall>p \<in> set hs'. valid_pattern p"
  unfolding normalize_hosts_def
  by (rule traverse_from_all) (auto split: sum.splits dest: normalize_valid)

lemma normalize_hosts_Nil: "normalize_hosts name w hs = Inr hs' \<Longrightarrow> hs' = [] \<longleftrightarrow> hs = []"
  by (auto simp: normalize_hosts_def dest: traverse_from_length)

lemma normalize_hosts_fixed: "\<forall>p \<in> set hs. valid_pattern p \<Longrightarrow> normalize_hosts name w hs = Inr hs"
  unfolding normalize_hosts_def by (rule traverse_from_fixed) (simp add: normalize_valid_pattern)

lemma fold_mode_Some: "fold_mode m = Some m' \<Longrightarrow> m' \<in> {mode_intercept, mode_inspect, mode_opaque}"
  by (auto simp: fold_mode_def split: if_splits)

lemma fold_mode_fixed: "m \<in> {mode_intercept, mode_inspect, mode_opaque} \<Longrightarrow> fold_mode m = Some m"
  by (auto simp: fold_mode_def)

lemma check_ports_Inr [simp]:
  "check_ports name ps = Inr u \<longleftrightarrow> (\<forall>p \<in> set ps. 1 \<le> p \<and> p \<le> 65535)"
  by (auto simp: check_ports_def find_None_iff find_Some_iff split: option.splits)
    (metis in_set_conv_nth linorder_not_le)+

lemma validate_fields_ok:
  assumes "validate_fields c = Inr d" and "c_name c \<noteq> []" "trim_space (c_name c) = c_name c"
    "24 \<le> length (c_token c)" "\<not> c_observe_all c"
  shows "client_ok d" and "c_name d = c_name c" and "c_token d = c_token c"
proof -
  from assms(1) obtain allowed opaque mode intercept inspect rules where
    g: "c_allowed_hosts c \<noteq> [] \<or> c_any_public c" and
    a: "normalize_hosts (c_name c) Allowed_Hosts (c_allowed_hosts c) = Inr allowed" and
    o: "normalize_hosts (c_name c) Opaque_Hosts (c_opaque_hosts c) = Inr opaque" and
    m: "fold_mode (c_intercept_mode c) = Some mode" and
    n: "normalize_hosts (c_name c) Intercept_Hosts (c_intercept_hosts c) = Inr intercept" and
    s: "normalize_hosts (c_name c) Inspect_Hosts (c_inspect_hosts c) = Inr inspect" and
    r: "expand_rules (c_allowed_rules c) = Inr rules" and
    p: "\<forall>p \<in> set (if c_allowed_ports c = [] then [443] else c_allowed_ports c). 1 \<le> p \<and> p \<le> 65535" and
    d: "d = c\<lparr>c_allowed_hosts := allowed, c_opaque_hosts := opaque, c_intercept_mode := mode,
         c_intercept_hosts := intercept, c_inspect_hosts := inspect, c_allowed_rules := rules,
         c_allowed_ports := (if c_allowed_ports c = [] then [443] else c_allowed_ports c)\<rparr>"
    unfolding validate_fields_def Let_def by (simp only: rbind_Inr_iff require_Inr_iff
        of_option_Inr_iff wrap_error_Inr_iff check_ports_Inr sum.inject) blast
  have "\<forall>p \<in> set allowed \<union> set opaque \<union> set intercept \<union> set inspect. valid_pattern p"
    using normalize_hosts_ok [OF a] normalize_hosts_ok [OF o] normalize_hosts_ok [OF n]
      normalize_hosts_ok [OF s] by blast
  moreover have "allowed \<noteq> [] \<or> c_any_public c" using g normalize_hosts_Nil [OF a] by blast
  moreover note fold_mode_Some [OF m] expand_rules_ok [OF r] p
  ultimately show "client_ok d" unfolding client_ok_def d using assms by simp
  show "c_name d = c_name c" "c_token d = c_token c" by (simp_all add: d)
qed

lemma validate_client_ok:
  assumes "validate_client sha i names tokens c0 = Inr c"
  shows "client_ok c" and "c_name c \<notin> set names" and "tokens (sha (c_token c)) = None"
proof -
  let ?c = "fold_observe (c0\<lparr>c_name := trim_space (c_name c0)\<rparr>)"
  have n: "c_name ?c = trim_space (c_name c0)" "c_token ?c = c_token c0" "\<not> c_observe_all ?c"
    by (simp_all add: fold_observe_def)
  from assms have f: "validate_fields ?c = Inr c" and g: "c_name ?c \<noteq> []" "c_name ?c \<notin> set names"
    "24 \<le> length (c_token ?c)" "tokens (sha (c_token ?c)) = None"
    by (auto simp: validate_client_def Let_def n split: if_splits option.splits)
  have "trim_space (c_name ?c) = c_name ?c" by (simp add: n)
  from validate_fields_ok [OF f g(1) this g(3) n(3)] g
  show "client_ok c" and "c_name c \<notin> set names" and "tokens (sha (c_token c)) = None" by auto
qed

lemma validate_client_fixed:
  assumes "client_ok c" "c_name c \<notin> set names" "tokens (sha (c_token c)) = None"
  shows "validate_client sha i names tokens c = Inr c"
proof -
  have "fold_observe c = c" using assms(1) by (simp add: fold_observe_def client_ok_def)
  moreover have "expand_rules (c_allowed_rules c) = Inr (c_allowed_rules c)"
    using assms(1) by (intro expand_rules_fixed) (simp add: client_ok_def)
  moreover have "fold_mode (c_intercept_mode c) = Some (c_intercept_mode c)"
    using assms(1) by (intro fold_mode_fixed) (simp add: client_ok_def)
  ultimately show ?thesis
    using assms
    by (simp add: validate_client_def validate_fields_def Let_def client_ok_def normalize_hosts_fixed
        not_less)
qed

lemma validate_clients_ok:
  assumes "validate_clients sha i names tokens cs = Inr cs'"
  shows "\<forall>c \<in> set cs'. client_ok c \<and> c_name c \<notin> set names \<and> tokens (sha (c_token c)) = None"
    and "distinct (map c_name cs')" and "distinct (map (sha \<circ> c_token) cs')"
proof -
  have "(\<forall>c \<in> set cs'. client_ok c \<and> c_name c \<notin> set names \<and> tokens (sha (c_token c)) = None)
     \<and> distinct (map c_name cs') \<and> distinct (map (sha \<circ> c_token) cs')"
    using assms
  proof (induction cs arbitrary: i names tokens cs')
    case Nil
    then show ?case by simp
  next
    case (Cons c cs)
    then obtain d ds where d: "validate_client sha i names tokens c = Inr d" and
      ds: "validate_clients sha (Suc i) (c_name d # names) (tokens(sha (c_token d) \<mapsto> c_name d)) cs = Inr ds" and
      cs': "cs' = d # ds" by auto
    from Cons.IH [OF ds] have ih: "\<forall>x \<in> set ds. client_ok x \<and> c_name x \<notin> set (c_name d # names)
        \<and> (tokens(sha (c_token d) \<mapsto> c_name d)) (sha (c_token x)) = None"
      "distinct (map c_name ds)" "distinct (map (sha \<circ> c_token) ds)" by blast+
    have "\<forall>x \<in> set ds. sha (c_token x) \<noteq> sha (c_token d) \<and> tokens (sha (c_token x)) = None"
      using ih(1) by (metis fun_upd_apply option.distinct(1))
    then show ?case using ih validate_client_ok [OF d] cs' by (auto simp: image_iff comp_def)
  qed
  then show "\<forall>c \<in> set cs'. client_ok c \<and> c_name c \<notin> set names \<and> tokens (sha (c_token c)) = None"
    and "distinct (map c_name cs')" and "distinct (map (sha \<circ> c_token) cs')" by blast+
qed

lemma validate_clients_fixed:
  assumes "\<forall>c \<in> set cs. client_ok c \<and> c_name c \<notin> set names \<and> tokens (sha (c_token c)) = None"
    and "distinct (map c_name cs)" and "distinct (map (sha \<circ> c_token) cs)"
  shows "validate_clients sha i names tokens cs = Inr cs"
  using assms
proof (induction cs arbitrary: i names tokens)
  case Nil
  then show ?case by simp
next
  case (Cons c cs)
  then have "validate_client sha i names tokens c = Inr c"
    by (intro validate_client_fixed) auto
  moreover have "validate_clients sha (Suc i) (c_name c # names) (tokens(sha (c_token c) \<mapsto> c_name c)) cs = Inr cs"
    by (rule Cons.IH) (use Cons.prems in \<open>auto simp: image_iff\<close>)
  ultimately show ?case by simp
qed

lemma validate_policy_ok:
  assumes "validate_policy sha f = Inr f'"
  shows "policy_ok f'" and "distinct (map (sha \<circ> c_token) f')"
proof -
  from assms have ne: "f \<noteq> []" and v: "validate_clients sha 0 [] Map.empty f = Inr f'"
    by (auto simp: validate_policy_def split: if_splits)
  show d: "distinct (map (sha \<circ> c_token) f')" by (rule validate_clients_ok(3) [OF v])
  then have "distinct (map c_token f')"
    by (metis distinct_map list.map_comp)
  moreover have "f' \<noteq> []" using ne v by (cases f) auto
  ultimately show "policy_ok f'"
    using validate_clients_ok [OF v] by (simp add: policy_ok_def)
qed

lemma authenticate_loop_filter:
  "authenticate_loop token f m n =
      (if filter (\<lambda>c. c_token c = token) f = [] then (m, n)
       else (Some (last (filter (\<lambda>c. c_token c = token) f)), n + length (filter (\<lambda>c. c_token c = token) f)))"
  by (induction f arbitrary: m n) auto

lemma authenticate_filter:
  "authenticate f token = Some c \<longleftrightarrow> filter (\<lambda>c. c_token c = token) f = [c]"
proof (cases "filter (\<lambda>c. c_token c = token) f")
  case Nil
  then show ?thesis by (simp add: authenticate_def authenticate_loop_filter)
next
  case (Cons x xs)
  then show ?thesis by (cases xs) (auto simp: authenticate_def authenticate_loop_filter)
qed

lemma filter_singleton_iff:
  assumes "distinct (map g f)"
  shows "filter (\<lambda>c. g c = t) f = [c] \<longleftrightarrow> c \<in> set f \<and> g c = t"
proof
  assume "filter (\<lambda>c. g c = t) f = [c]"
  then have "c \<in> set (filter (\<lambda>c. g c = t) f)" by simp
  then show "c \<in> set f \<and> g c = t" by simp
next
  assume c: "c \<in> set f \<and> g c = t"
  with assms show "filter (\<lambda>c. g c = t) f = [c]"
    by (induction f) (auto simp: filter_empty_conv image_iff)
qed

lemmas [evaluate] = normalize_hosts_def fold_mode_def fold_observe_def check_ports_def
  validate_fields_def validate_client_def validate_policy_def find_client_def authenticate_def allows_def
  listed_in_def rule_applies_def has_rules_for_def match_rule_def

subsection \<open>Properties\<close>

text \<open>C13. A policy that \<open>Validate\<close> accepts is well formed: client names and tokens are
  unique, tokens have at least 24 bytes, every host list holds normalized patterns, the mode is one
  of the three documented ones, rules are expanded and ports are in range; and validating it again
  succeeds and changes nothing.\<close>

theorem validate_policy_sound:
  assumes "validate_policy sha f = Inr f'"
  shows "policy_ok f' \<and> validate_policy sha f' = Inr f'"
proof -
  from validate_policy_ok [OF assms] have ok: "policy_ok f'" and d: "distinct (map (sha \<circ> c_token) f')" .
  have "validate_clients sha 0 [] Map.empty f' = Inr f'"
    by (rule validate_clients_fixed) (use ok d in \<open>simp_all add: policy_ok_def\<close>)
  with ok show ?thesis by (simp add: validate_policy_def policy_ok_def)
qed

definition sample_client :: client where
  "sample_client = \<lparr>c_name = ''agent'', c_token = replicate 24 (CHR ''t''),
     c_allowed_hosts = [''*.example.com''], c_opaque_hosts = [], c_intercept_mode = ''all'',
     c_intercept_hosts = [], c_inspect_hosts = [], c_allowed_rules = [], c_allowed_ports = [],
     c_any_public = False, c_observe_all = False\<rparr>"

definition sample_client_ok :: client where
  "sample_client_ok = sample_client\<lparr>c_intercept_mode := ''intercept'', c_allowed_ports := [443]\<rparr>"

lemma sample_validates: "validate_policy (\<lambda>s. s) [sample_client] = Inr [sample_client_ok]"
proof -
  have "normalize_pattern ''*.example.com'' = Inr ''*.example.com''" by (simp add: evaluate)
  moreover have "trim_space ''agent'' = ''agent''" by (simp add: evaluate)
  ultimately show ?thesis
    by (simp add: validate_policy_def validate_client_def sample_client_def sample_client_ok_def
        fold_observe_def validate_fields_def normalize_hosts_def fold_mode_def expand_rules_def Let_def
        check_ports_def require_def)
qed

theorem validate_policy_sound_witness:
  "policy_ok [sample_client_ok] \<and>
   validate_policy (\<lambda>s. s) [sample_client_ok] = Inr [sample_client_ok]"
  by (rule validate_policy_sound [OF sample_validates])

text \<open>Authentication succeeds with a client exactly when it is the only client of the policy
  with that token: an ambiguous token is refused, never resolved to the first or the last
  match.\<close>

theorem authenticate_unique:
  "authenticate f token = Some c \<longleftrightarrow> filter (\<lambda>c. c_token c = token) f = [c]"
  by (rule authenticate_filter)

text \<open>C14. In a validated policy the holder of a client's token is authenticated as that
  client and as no other.\<close>

theorem authenticate_validated:
  assumes "validate_policy sha f0 = Inr f"
  shows "authenticate f token = Some c \<longleftrightarrow> c \<in> set f \<and> c_token c = token"
proof -
  have "distinct (map c_token f)" using validate_policy_ok(1) [OF assms] by (simp add: policy_ok_def)
  then show ?thesis by (simp add: authenticate_filter filter_singleton_iff)
qed

theorem authenticate_validated_witness:
  "authenticate [sample_client_ok] (replicate 24 (CHR ''t'')) = Some sample_client_ok"
  using authenticate_validated [OF sample_validates, of "replicate 24 (CHR ''t'')" sample_client_ok]
  by (simp add: sample_client_ok_def sample_client_def)

text \<open>The request rules in declarative form: the verdict is the first rule that applies to the
  host and permits method and path; without one the request is refused exactly when some rule
  applies to the host.\<close>

theorem match_rule_first:
  "match_rule c host meth path =
    (case find (\<lambda>r. rule_applies (canonical_host host) r \<and> rule_matches r meth path) (c_allowed_rules c) of
       Some r \<Rightarrow> (Some r, True)
     | None \<Rightarrow> (None, \<not> has_rules_for c host))"
proof -
  have "match_rule_loop h meth path b rs =
     (case find (\<lambda>r. rule_applies h r \<and> rule_matches r meth path) rs of
        Some r \<Rightarrow> (Some r, True) | None \<Rightarrow> (None, \<not> (b \<or> list_ex (rule_applies h) rs)))" for h b rs
    by (induction rs arbitrary: b) (simp_all split: option.split)
  then show ?thesis by (simp add: match_rule_def has_rules_for_def split: option.split)
qed

text \<open>What \<open>Allows\<close> grants to a well-formed client without \<open>allow_any_public_host\<close>:
  the port is listed, the name is a valid host name and no IP literal, and it is listed itself or
  lies strictly below a listed wildcard, label by label.\<close>

theorem allows_labels:
  assumes "client_ok c" and "\<not> c_any_public c"
  shows "allows c host port \<longleftrightarrow> (let h = canonical_host host in
     valid_host h \<and> parse_ip h = None \<and> port \<in> set (c_allowed_ports c) \<and>
     (\<exists>p \<in> set (c_allowed_hosts c). p = h \<or>
        (\<exists>s ls. p = ''*.'' @ s \<and> ls \<noteq> [] \<and> labels h = ls @ labels s)))"
proof -
  have "\<forall>p \<in> set (c_allowed_hosts c). valid_pattern p" using assms(1) by (auto simp: client_ok_def)
  then show ?thesis
    using assms(2) host_matches_label_iff [of "canonical_host host" "c_allowed_hosts c"]
    by (auto simp: allows_def Let_def)
qed

lemma sample_client_valid: "client_ok sample_client_ok"
  using validate_policy_ok(1) [OF sample_validates] by (simp add: policy_ok_def)

theorem allows_labels_witness: "allows sample_client_ok ''API.example.com.'' 443"
proof -
  have h: "canonical_host ''API.example.com.'' = ''api.example.com''" by (simp add: evaluate)
  have v: "valid_host ''api.example.com''" and i: "parse_ip ''api.example.com'' = None" by (simp_all add: evaluate)
  have l: "labels ''api.example.com'' = [''api''] @ labels ''example.com''" by simp
  have "\<not> c_any_public sample_client_ok" "c_allowed_hosts sample_client_ok = [''*.example.com'']"
    "443 \<in> set (c_allowed_ports sample_client_ok)"
    by (simp_all add: sample_client_ok_def sample_client_def)
  then show ?thesis
    unfolding allows_labels [OF sample_client_valid \<open>\<not> c_any_public sample_client_ok\<close>] Let_def h
    using v i l by (intro conjI) (auto intro!: exI [of _ "''example.com''"] exI [of _ "[''api'']"])
qed

end
