(* ===== verification/Destination.thy ===== *)
theory Destination
  imports Go_Net
begin

text \<open>
  The destination filter of \<open>internal/proxy/destination.go\<close>: the table of special-purpose
  ranges, the test \<open>isPublic\<close> and the selection of an address from the answers of a DNS
  lookup. The lookup itself is an argument; its answer is any list of addresses or an error.
\<close>

subsection \<open>The table of prohibited ranges\<close>

definition prohibited_texts :: "string list" where
  "prohibited_texts = [
    ''0.0.0.0/8'', ''10.0.0.0/8'', ''100.64.0.0/10'', ''127.0.0.0/8'',
    ''169.254.0.0/16'', ''172.16.0.0/12'', ''192.0.0.0/24'', ''192.0.2.0/24'',
    ''192.88.99.0/24'', ''192.168.0.0/16'', ''198.18.0.0/15'', ''198.51.100.0/24'',
    ''203.0.113.0/24'', ''224.0.0.0/4'', ''240.0.0.0/4'',
    ''::/128'', ''::1/128'', ''100::/64'', ''2001:db8::/32'', ''3fff::/20'',
    ''5f00::/16'', ''fc00::/7'', ''fe80::/10'', ''ff00::/8'',
    ''64:ff9b::/96'', ''64:ff9b:1::/48'', ''2001::/32'', ''2002::/16'',
    ''2001:10::/28'', ''2001:20::/28'']"

text \<open>\<open>mustPrefixes\<close> panics on a text that is no prefix: \<open>None\<close>.\<close>

definition must_prefixes :: "string list \<Rightarrow> ip_prefix list option" where
  "must_prefixes raw = those (map parse_prefix raw)"

definition prohibited_prefixes :: "ip_prefix list" where
  "prohibited_prefixes = (case must_prefixes prohibited_texts of None \<Rightarrow> [] | Some ps \<Rightarrow> ps)"

definition is_public :: "ip_addr \<Rightarrow> bool" where
  "is_public a = (if \<not> ip_is_valid a \<or> \<not> ip_is_global_unicast a then False
     else \<not> list_ex (\<lambda>p. prefix_contains p (ip_unmap a)) prohibited_prefixes)"

lemma replicate_eval: "replicate (numeral k) x = x # replicate (pred_numeral k) x" "replicate 0 x = []"
  by (simp_all add: numeral_eq_Suc)

text \<open>The parsed table.\<close>

abbreviation px4 :: "32 word \<Rightarrow> nat \<Rightarrow> ip_prefix" where
  "px4 a n \<equiv> \<lparr>px_addr = Ip4 a, px_bits = n\<rparr>"

abbreviation px6 :: "128 word \<Rightarrow> nat \<Rightarrow> ip_prefix" where
  "px6 a n \<equiv> \<lparr>px_addr = Ip6 a [], px_bits = n\<rparr>"

lemma parse_prefix_table:
  "parse_prefix ''0.0.0.0/8'' = Some (px4 0 8)"
  "parse_prefix ''10.0.0.0/8'' = Some (px4 0x0A000000 8)"
  "parse_prefix ''100.64.0.0/10'' = Some (px4 0x64400000 10)"
  "parse_prefix ''127.0.0.0/8'' = Some (px4 0x7F000000 8)"
  "parse_prefix ''169.254.0.0/16'' = Some (px4 0xA9FE0000 16)"
  "parse_prefix ''172.16.0.0/12'' = Some (px4 0xAC100000 12)"
  "parse_prefix ''192.0.0.0/24'' = Some (px4 0xC0000000 24)"
  "parse_prefix ''192.0.2.0/24'' = Some (px4 0xC0000200 24)"
  "parse_prefix ''192.88.99.0/24'' = Some (px4 0xC0586300 24)"
  "parse_prefix ''192.168.0.0/16'' = Some (px4 0xC0A80000 16)"
  "parse_prefix ''198.18.0.0/15'' = Some (px4 0xC6120000 15)"
  "parse_prefix ''198.51.100.0/24'' = Some (px4 0xC6336400 24)"
  "parse_prefix ''203.0.113.0/24'' = Some (px4 0xCB007100 24)"
  "parse_prefix ''224.0.0.0/4'' = Some (px4 0xE0000000 4)"
  "parse_prefix ''240.0.0.0/4'' = Some (px4 0xF0000000 4)"
  "parse_prefix ''::/128'' = Some (px6 0 128)"
  "parse_prefix ''::1/128'' = Some (px6 1 128)"
  "parse_prefix ''100::/64'' = Some (px6 0x01000000000000000000000000000000 64)"
  "parse_prefix ''2001:db8::/32'' = Some (px6 0x20010DB8000000000000000000000000 32)"
  "parse_prefix ''3fff::/20'' = Some (px6 0x3FFF0000000000000000000000000000 20)"
  "parse_prefix ''5f00::/16'' = Some (px6 0x5F000000000000000000000000000000 16)"
  "parse_prefix ''fc00::/7'' = Some (px6 0xFC000000000000000000000000000000 7)"
  "parse_prefix ''fe80::/10'' = Some (px6 0xFE800000000000000000000000000000 10)"
  "parse_prefix ''ff00::/8'' = Some (px6 0xFF000000000000000000000000000000 8)"
  "parse_prefix ''64:ff9b::/96'' = Some (px6 0x0064FF9B000000000000000000000000 96)"
  "parse_prefix ''64:ff9b:1::/48'' = Some (px6 0x0064FF9B000100000000000000000000 48)"
  "parse_prefix ''2001::/32'' = Some (px6 0x20010000000000000000000000000000 32)"
  "parse_prefix ''2002::/16'' = Some (px6 0x20020000000000000000000000000000 16)"
  "parse_prefix ''2001:10::/28'' = Some (px6 0x20010010000000000000000000000000 28)"
  "parse_prefix ''2001:20::/28'' = Some (px6 0x20010020000000000000000000000000 28)"
  by (simp_all add: evaluate replicate_eval)

lemma prohibited_prefixes_table:
  "must_prefixes prohibited_texts = Some prohibited_prefixes"
  "prohibited_prefixes =
    [px4 0 8, px4 0x0A000000 8, px4 0x64400000 10, px4 0x7F000000 8,
     px4 0xA9FE0000 16, px4 0xAC100000 12, px4 0xC0000000 24, px4 0xC0000200 24,
     px4 0xC0586300 24, px4 0xC0A80000 16, px4 0xC6120000 15, px4 0xC6336400 24,
     px4 0xCB007100 24, px4 0xE0000000 4, px4 0xF0000000 4,
     px6 0 128, px6 1 128, px6 0x01000000000000000000000000000000 64,
     px6 0x20010DB8000000000000000000000000 32, px6 0x3FFF0000000000000000000000000000 20,
     px6 0x5F000000000000000000000000000000 16, px6 0xFC000000000000000000000000000000 7,
     px6 0xFE800000000000000000000000000000 10, px6 0xFF000000000000000000000000000000 8,
     px6 0x0064FF9B000000000000000000000000 96, px6 0x0064FF9B000100000000000000000000 48,
     px6 0x20010000000000000000000000000000 32, px6 0x20020000000000000000000000000000 16,
     px6 0x20010010000000000000000000000000 28, px6 0x20010020000000000000000000000000 28]"
  by (simp_all add: prohibited_prefixes_def must_prefixes_def prohibited_texts_def parse_prefix_table)

subsection \<open>The ranges as intervals of addresses\<close>

lemma px4_interval:
  assumes "uint p mod 2 ^ (32 - n) = 0" "0 < n"
  shows "prefix_contains (px4 p n) (Ip4 a) \<longleftrightarrow> uint p \<le> uint a \<and> uint a \<le> uint p + 2 ^ (32 - n) - 1"
proof -
  from assms(2) have "(32 - n) mod 32 = 32 - n" by simp
  then have "prefix_contains (px4 p n) (Ip4 a) \<longleftrightarrow> in_top a p n"
    by (simp add: prefix_contains_def in_top_def)
  moreover have "uint p = uint p div 2 ^ (32 - n) * 2 ^ (LENGTH(32) - n)"
    using assms(1) by (metis add.right_neutral div_mult_mod_eq len_bit0 len_num1 mult_2 numeral_Bit0 one_add_one numeral_2_eq_2 len_of_numeral_defs)
  ultimately show ?thesis using in_top_interval by fastforce
qed

lemma px6_interval:
  assumes "uint p mod 2 ^ (128 - n) = 0"
  shows "prefix_contains (px6 p n) (Ip6 a []) \<longleftrightarrow> uint p \<le> uint a \<and> uint a \<le> uint p + 2 ^ (128 - n) - 1"
proof -
  have "uint p = uint p div 2 ^ (128 - n) * 2 ^ (128 - n)"
    using assms by (metis add.right_neutral div_mult_mod_eq)
  then show ?thesis using in_top_interval [of p "uint p div 2 ^ (128 - n)" n a]
    by (simp add: prefix_contains_def)
qed

lemma prefix_families [simp]:
  "\<not> prefix_contains (px4 p n) (Ip6 a z)" "\<not> prefix_contains (px6 q n) (Ip4 b)"
  "z \<noteq> [] \<Longrightarrow> \<not> prefix_contains (px6 q n) (Ip6 a z)"
  by (simp_all add: prefix_contains_def)

text \<open>The special-purpose ranges as first and last addresses.\<close>

definition special_v4 :: "(int \<times> int) list" where
  "special_v4 = [
    (0x00000000, 0x00FFFFFF), (0x0A000000, 0x0AFFFFFF), (0x64400000, 0x647FFFFF),
    (0x7F000000, 0x7FFFFFFF), (0xA9FE0000, 0xA9FEFFFF), (0xAC100000, 0xAC1FFFFF),
    (0xC0000000, 0xC00000FF), (0xC0000200, 0xC00002FF), (0xC0586300, 0xC05863FF),
    (0xC0A80000, 0xC0A8FFFF), (0xC6120000, 0xC613FFFF), (0xC6336400, 0xC63364FF),
    (0xCB007100, 0xCB0071FF), (0xE0000000, 0xEFFFFFFF), (0xF0000000, 0xFFFFFFFF)]"

definition special_v6 :: "(int \<times> int) list" where
  "special_v6 = [
    (0, 0), (1, 1),
    (0x01000000000000000000000000000000, 0x0100000000000000FFFFFFFFFFFFFFFF),
    (0x20010DB8000000000000000000000000, 0x20010DB8FFFFFFFFFFFFFFFFFFFFFFFF),
    (0x3FFF0000000000000000000000000000, 0x3FFF0FFFFFFFFFFFFFFFFFFFFFFFFFFF),
    (0x5F000000000000000000000000000000, 0x5F00FFFFFFFFFFFFFFFFFFFFFFFFFFFF),
    (0xFC000000000000000000000000000000, 0xFDFFFFFFFFFFFFFFFFFFFFFFFFFFFFFF),
    (0xFE800000000000000000000000000000, 0xFEBFFFFFFFFFFFFFFFFFFFFFFFFFFFFF),
    (0xFF000000000000000000000000000000, 0xFFFFFFFFFFFFFFFFFFFFFFFFFFFFFFFF),
    (0x0064FF9B000000000000000000000000, 0x0064FF9B0000000000000000FFFFFFFF),
    (0x0064FF9B000100000000000000000000, 0x0064FF9B0001FFFFFFFFFFFFFFFFFFFF),
    (0x20010000000000000000000000000000, 0x20010000FFFFFFFFFFFFFFFFFFFFFFFF),
    (0x20020000000000000000000000000000, 0x2002FFFFFFFFFFFFFFFFFFFFFFFFFFFF),
    (0x20010010000000000000000000000000, 0x2001001FFFFFFFFFFFFFFFFFFFFFFFFF),
    (0x20010020000000000000000000000000, 0x2001002FFFFFFFFFFFFFFFFFFFFFFFFF)]"

definition in_intervals :: "(int \<times> int) list \<Rightarrow> int \<Rightarrow> bool" where
  "in_intervals rs x = list_ex (\<lambda>(lo, hi). lo \<le> x \<and> x \<le> hi) rs"

lemma prohibited_v4:
  "list_ex (\<lambda>p. prefix_contains p (Ip4 a)) prohibited_prefixes \<longleftrightarrow> in_intervals special_v4 (uint a)"
  unfolding prohibited_prefixes_table special_v4_def in_intervals_def
  by (simp add: px4_interval)

lemma prohibited_v6:
  "list_ex (\<lambda>p. prefix_contains p (Ip6 a [])) prohibited_prefixes \<longleftrightarrow> in_intervals special_v6 (uint a)"
  unfolding prohibited_prefixes_table special_v6_def in_intervals_def
  by (simp add: px6_interval)

subsection \<open>Public addresses\<close>

lemma uint_bound32: "uint (a :: 32 word) < 0x100000000"
  using uint_bounded [of a] by simp

lemma class_ranges_v4:
  "in_top a 0x7F000000 8 \<longleftrightarrow> 0x7F000000 \<le> uint a \<and> uint a \<le> 0x7FFFFFFF"
  "in_top a 0xE0000000 4 \<longleftrightarrow> 0xE0000000 \<le> uint a \<and> uint a \<le> 0xEFFFFFFF"
  "in_top a 0xA9FE0000 16 \<longleftrightarrow> 0xA9FE0000 \<le> uint a \<and> uint a \<le> 0xA9FEFFFF" for a :: "32 word"
  using in_top_interval [of "0x7F000000 :: 32 word" "0x7F" 8 a]
    in_top_interval [of "0xE0000000 :: 32 word" "0xE" 4 a]
    in_top_interval [of "0xA9FE0000 :: 32 word" "0xA9FE" 16 a] by auto

lemma class_ranges_v6:
  "in_top a 0xFF000000000000000000000000000000 8 \<longleftrightarrow> 0xFF000000000000000000000000000000 \<le> uint a
     \<and> uint a \<le> 0xFFFFFFFFFFFFFFFFFFFFFFFFFFFFFFFF"
  "in_top a 0xFE800000000000000000000000000000 10 \<longleftrightarrow> 0xFE800000000000000000000000000000 \<le> uint a
     \<and> uint a \<le> 0xFEBFFFFFFFFFFFFFFFFFFFFFFFFFFFFF" for a :: "128 word"
  using in_top_interval [of "0xFF000000000000000000000000000000 :: 128 word" "0xFF" 8 a]
    in_top_interval [of "0xFE800000000000000000000000000000 :: 128 word" "0x3FA" 10 a] by auto

lemma in_special_v4:
  "a = 0 \<Longrightarrow> in_intervals special_v4 (uint a)"
  "a = 0xFFFFFFFF \<Longrightarrow> in_intervals special_v4 (uint a)"
  "in_top a 0x7F000000 8 \<Longrightarrow> in_intervals special_v4 (uint a)"
  "in_top a 0xE0000000 4 \<Longrightarrow> in_intervals special_v4 (uint a)"
  "in_top a 0xA9FE0000 16 \<Longrightarrow> in_intervals special_v4 (uint a)" for a :: "32 word"
  by (auto simp: class_ranges_v4 in_intervals_def special_v4_def)

lemma in_special_v6:
  "a = 0 \<Longrightarrow> in_intervals special_v6 (uint a)"
  "a = 1 \<Longrightarrow> in_intervals special_v6 (uint a)"
  "in_top a 0xFF000000000000000000000000000000 8 \<Longrightarrow> in_intervals special_v6 (uint a)"
  "in_top a 0xFE800000000000000000000000000000 10 \<Longrightarrow> in_intervals special_v6 (uint a)" for a :: "128 word"
  by (auto simp: class_ranges_v6 in_intervals_def special_v6_def)

lemma is_public_v4 [simp]: "is_public (Ip4 a) \<longleftrightarrow> \<not> in_intervals special_v4 (uint a)"
  using in_special_v4 [of a]
  by (auto simp: is_public_def ip_is_valid_def prohibited_v4 ip_is_global_unicast_def)

lemma is_public_4in6:
  "is_4in6 a \<Longrightarrow> is_public (Ip6 a z) \<longleftrightarrow> is_public (Ip4 (ucast a))"
  using in_special_v4 [of "ucast a"]
  by (auto simp: is_public_def ip_is_valid_def prohibited_v4 ip_is_global_unicast_def is_4in6_def)

lemma is_4in6_mapped:
  "is_4in6 (0xFFFF00000000 OR ucast (a :: 32 word))"
  "ucast (0xFFFF00000000 OR (ucast a :: 128 word)) = a"
proof -
  have "drop_bit 32 (ucast a :: 128 word) = 0"
    by (rule bit_word_eqI) (auto simp: bit_simps dest: bit_imp_le_length)
  then show "is_4in6 (0xFFFF00000000 OR ucast a)"
    by (simp add: is_4in6_def drop_bit_or)
  have "ucast (ucast a :: 128 word) = a"
    by (rule bit_word_eqI) (auto simp: bit_simps)
  moreover have "(ucast (0xFFFF00000000 :: 128 word) :: 32 word) = 0" by simp
  ultimately show "ucast (0xFFFF00000000 OR (ucast a :: 128 word)) = a"
    by (simp only: unsigned_or_eq) simp
qed

lemma is_public_v6:
  "\<not> is_4in6 a \<Longrightarrow> is_public (Ip6 a []) \<longleftrightarrow> \<not> in_intervals special_v6 (uint a)"
  using in_special_v6 [of a]
  by (auto simp: is_public_def ip_is_valid_def prohibited_v6 ip_is_global_unicast_def)

lemma is_public_zoned:
  "\<not> is_4in6 a \<Longrightarrow> z \<noteq> [] \<Longrightarrow> is_public (Ip6 a z) \<longleftrightarrow> ip_is_global_unicast (Ip6 a z)"
  by (simp add: is_public_def ip_is_valid_def prohibited_prefixes_table)

lemma is_public_invalid [simp]: "\<not> is_public Ip_Invalid"
  by (simp add: is_public_def ip_is_valid_def)

subsection \<open>Choosing an address\<close>

datatype resolve_error = Lookup_Failed | No_Public_Address

text \<open>\<open>PublicResolver.Resolve\<close> on the answer of \<open>LookupNetIP\<close>; \<open>None\<close> is a failed
  lookup.\<close>

fun first_public :: "ip_addr list \<Rightarrow> ip_addr option" where
  "first_public [] = None"
| "first_public (a # as) =
     (let a = ip_unmap a in if is_public a then Some a else first_public as)"

definition resolve :: "ip_addr list option \<Rightarrow> (resolve_error, ip_addr) result" where
  "resolve answer = rbind (of_option Lookup_Failed answer)
     (\<lambda>addrs. of_option No_Public_Address (first_public addrs))"

lemma first_public_find: "first_public as = find is_public (map ip_unmap as)"
  by (induction as) (auto simp: Let_def)

lemma first_public_None: "first_public xs = None \<longleftrightarrow> (\<forall>b \<in> set xs. \<not> is_public (ip_unmap b))"
  by (induction xs) (auto simp: Let_def)

lemma first_public_append:
  "\<forall>b \<in> set us. \<not> is_public (ip_unmap b) \<Longrightarrow> first_public (us @ vs) = first_public vs"
  by (induction us) (auto simp: Let_def)

lemma resolve_Inr_iff:
  "resolve answer = Inr a \<longleftrightarrow>
     (\<exists>us x vs. answer = Some (us @ x # vs) \<and> a = ip_unmap x
        \<and> is_public a \<and> (\<forall>b \<in> set us. \<not> is_public (ip_unmap b)))"
proof -
  have "first_public xs = Some a \<longleftrightarrow> (\<exists>us x vs. xs = us @ x # vs \<and> a = ip_unmap x
        \<and> is_public a \<and> (\<forall>b \<in> set us. \<not> is_public (ip_unmap b)))" for xs
  proof
    assume f: "first_public xs = Some a"
    then have "\<exists>x \<in> set xs. is_public (ip_unmap x)"
      using first_public_None [of xs] by auto
    from split_list_first_prop [OF this] obtain us x vs where
      x: "xs = us @ x # vs" "is_public (ip_unmap x)" "\<forall>b \<in> set us. \<not> is_public (ip_unmap b)"
      by blast
    from f have "a = ip_unmap x"
      by (simp add: x(1) first_public_append [OF x(3)] Let_def x(2))
    with x show "\<exists>us x vs. xs = us @ x # vs \<and> a = ip_unmap x
        \<and> is_public a \<and> (\<forall>b \<in> set us. \<not> is_public (ip_unmap b))" by blast
  qed (auto simp: first_public_append Let_def)
  then show ?thesis by (cases answer) (simp_all add: resolve_def)
qed

text \<open>C15. An IPv4 address passes \<open>isPublic\<close> exactly when it lies in none of the
  special-purpose IPv4 ranges; an IPv4-mapped IPv6 address is judged by its IPv4 address.\<close>

theorem is_public_exact_v4:
  "(is_public (Ip4 a) \<longleftrightarrow> \<not> in_intervals special_v4 (uint a)) \<and>
   (is_public (Ip6 (0xFFFF00000000 OR ucast a) z) \<longleftrightarrow> is_public (Ip4 a))"
  using is_4in6_mapped [of a] by (simp add: is_public_4in6)

text \<open>An IPv6 address without a zone that is not IPv4-mapped passes \<open>isPublic\<close>
  exactly when it lies in none of the special-purpose and transition ranges.\<close>

theorem is_public_exact_v6:
  assumes "\<not> is_4in6 a"
  shows "is_public (Ip6 a []) \<longleftrightarrow> \<not> in_intervals special_v6 (uint a)"
  using assms by (rule is_public_v6)

lemma is_public_exact_v6_witness:
  "is_public (Ip6 0x26064700000000000000000000001111 []) \<longleftrightarrow>
     \<not> in_intervals special_v6 (uint (0x26064700000000000000000000001111 :: 128 word))"
  by (rule is_public_exact_v6) (simp add: is_4in6_def)

text \<open>\<open>Resolve\<close> succeeds exactly when an answer is public, with the first such
  answer, unmapped.\<close>

theorem resolve_first_public:
  "resolve answer = Inr a \<longleftrightarrow>
     (\<exists>us x vs. answer = Some (us @ x # vs) \<and> a = ip_unmap x
        \<and> is_public a \<and> (\<forall>b \<in> set us. \<not> is_public (ip_unmap b)))"
  by (rule resolve_Inr_iff)


lemma resolve_first_public_witness:
  "is_public (Ip4 0x08080808) \<and> resolve (Some [Ip4 0x0A000001, Ip4 0x08080808]) = Inr (Ip4 0x08080808)"
proof -
  have "resolve (Some [Ip4 0x0A000001, Ip4 0x08080808]) = Inr (Ip4 0x08080808)"
    by (simp add: resolve_def Let_def in_intervals_def special_v4_def)
  with resolve_first_public [of "Some [Ip4 0x0A000001, Ip4 0x08080808]" "Ip4 0x08080808"] show ?thesis by blast
qed

end
