(* ===== verification/Needle_Trie.thy ===== *)
theory Needle_Trie
  imports Go_Strings
begin

text \<open>
  The matcher of \<open>internal/secret/matcher.go\<close>: a trie over byte strings that carries, at
  each node, the needles ending there and the secrets whose value prefix ends there, and the
  walk that reports the longest acceptable needle at an offset. The reference semantics is the
  one of \<open>matcher_reference_test.go\<close>: the needles sorted by descending length, the first one
  that is a prefix of the data.
\<close>

subsection \<open>The trie\<close>

definition kind_value :: "8 word" where "kind_value = 1"
definition kind_placeholder :: "8 word" where "kind_placeholder = 2"

definition masked_prefix_length :: nat where "masked_prefix_length = 4"

record needle_ref =
  nr_secret :: nat
  nr_kind :: "8 word"

datatype trie_node = Trie_Node
  (edges: "(char \<times> trie_node) list") (refs: "needle_ref list") (masked: "nat list") (depth: nat)

definition child :: "trie_node \<Rightarrow> char \<Rightarrow> trie_node option" where
  "child n label = map_of (edges n) label"

text \<open>The root is an array of 256 node pointers, indexed by the first byte.\<close>

type_synonym needle_trie = "char \<Rightarrow> trie_node option"

definition empty_trie :: needle_trie where
  "empty_trie = (\<lambda>_. None)"

text \<open>Nodes are mutated through the pointer that \<open>walkTo\<close> returns; here the walk carries
  the update of its final node. A child is updated in place; a new one goes to the end of the
  edges.\<close>

fun set_edge :: "char \<Rightarrow> trie_node \<Rightarrow> (char \<times> trie_node) list \<Rightarrow> (char \<times> trie_node) list" where
  "set_edge c n [] = [(c, n)]"
| "set_edge c n (e # es) = (if fst e = c then (c, n) # es else e # set_edge c n es)"

fun walk_down :: "(trie_node \<Rightarrow> trie_node) \<Rightarrow> string \<Rightarrow> trie_node \<Rightarrow> trie_node" where
  "walk_down f [] n = f n"
| "walk_down f (label # needle) n =
     (let next_n = (case child n label of None \<Rightarrow> Trie_Node [] [] [] (depth n + 1) | Some m \<Rightarrow> m) in
      Trie_Node (set_edge label (walk_down f needle next_n) (edges n)) (refs n) (masked n) (depth n))"

definition walk_to :: "(trie_node \<Rightarrow> trie_node) \<Rightarrow> string \<Rightarrow> needle_trie \<Rightarrow> needle_trie" where
  "walk_to f needle t =
     (let c = hd needle;
          node = (case t c of None \<Rightarrow> Trie_Node [] [] [] 1 | Some n \<Rightarrow> n) in
      t(c \<mapsto> walk_down f (tl needle) node))"

definition add_ref :: "needle_ref \<Rightarrow> trie_node \<Rightarrow> trie_node" where
  "add_ref r n = Trie_Node (edges n) (refs n @ [r]) (masked n) (depth n)"

definition add_masked :: "nat \<Rightarrow> trie_node \<Rightarrow> trie_node" where
  "add_masked s n = Trie_Node (edges n) (refs n) (masked n @ [s]) (depth n)"

definition add :: "string \<Rightarrow> nat \<Rightarrow> 8 word \<Rightarrow> needle_trie \<Rightarrow> needle_trie" where
  "add needle secret kind t = (if needle = [] then t
     else walk_to (add_ref \<lparr>nr_secret = secret, nr_kind = kind\<rparr>) needle t)"

definition add_masked_prefix :: "string \<Rightarrow> nat \<Rightarrow> needle_trie \<Rightarrow> needle_trie" where
  "add_masked_prefix p secret t = walk_to (add_masked secret) p t"

text \<open>What \<open>newNeedleTrie\<close> reads of a resolved secret: its value, the representations of the
  value and those of the placeholder.\<close>

record needle_source =
  ns_value :: string
  ns_representations :: "string list"
  ns_placeholder_representations :: "string list"

definition add_secret :: "nat \<Rightarrow> needle_source \<Rightarrow> needle_trie \<Rightarrow> needle_trie" where
  "add_secret i item t =
    (let t = foldl (\<lambda>t r. add r i kind_value t) t (ns_representations item);
         t = foldl (\<lambda>t r. add r i kind_placeholder t) t (ns_placeholder_representations item) in
     if masked_prefix_length * 2 \<le> length (ns_value item)
     then add_masked_prefix (take masked_prefix_length (ns_value item)) i t else t)"

fun add_secrets :: "nat \<Rightarrow> needle_source list \<Rightarrow> needle_trie \<Rightarrow> needle_trie" where
  "add_secrets i [] t = t"
| "add_secrets i (item # items) t = add_secrets (Suc i) items (add_secret i item t)"

definition new_needle_trie :: "needle_source list \<Rightarrow> needle_trie" where
  "new_needle_trie secrets = add_secrets 0 secrets empty_trie"

subsection \<open>The longest needle at an offset\<close>

text \<open>A scope of \<open>None\<close> is the nil slice: every secret is accepted.\<close>

definition accepted :: "8 word \<Rightarrow> bool list option \<Rightarrow> needle_ref \<Rightarrow> bool" where
  "accepted kinds scope r \<longleftrightarrow>
     \<not> (and (nr_kind r) kinds = 0 \<or> (case scope of None \<Rightarrow> False | Some s \<Rightarrow> \<not> s ! nr_secret r))"

fun longest_from :: "8 word \<Rightarrow> bool list option \<Rightarrow> string \<Rightarrow> trie_node \<Rightarrow> nat \<times> nat \<times> nat list
    \<Rightarrow> nat \<times> nat \<times> nat list" where
  "longest_from kinds scope rest node (len, secret, ms) =
    (let ms = (if masked node \<noteq> [] then masked node else ms);
         found = (case find (accepted kinds scope) (refs node) of
                    None \<Rightarrow> (len, secret, ms) | Some r \<Rightarrow> (depth node, nr_secret r, ms)) in
     case rest of [] \<Rightarrow> found
     | c # cs \<Rightarrow> (case child node c of None \<Rightarrow> found | Some n \<Rightarrow> longest_from kinds scope cs n found))"

definition longest :: "needle_trie \<Rightarrow> string \<Rightarrow> 8 word \<Rightarrow> bool list option \<Rightarrow> nat \<times> nat \<times> nat list" where
  "longest t data kinds scope = (case t (hd data) of
     None \<Rightarrow> (0, 0, []) | Some n \<Rightarrow> longest_from kinds scope (tl data) n (0, 0, []))"

declare longest_from.simps [simp del]

lemmas [evaluate] = longest_from.simps longest_def accepted_def child_def walk_to_def add_def
  add_ref_def add_masked_def add_masked_prefix_def add_secret_def new_needle_trie_def
  empty_trie_def kind_value_def kind_placeholder_def masked_prefix_length_def

subsection \<open>What the trie denotes\<close>

fun node_at :: "trie_node \<Rightarrow> string \<Rightarrow> trie_node option" where
  "node_at n [] = Some n"
| "node_at n (c # p) = (case child n c of None \<Rightarrow> None | Some m \<Rightarrow> node_at m p)"

definition refs_at :: "needle_trie \<Rightarrow> string \<Rightarrow> needle_ref list" where
  "refs_at t p = (case t (hd p) of None \<Rightarrow> [] | Some n \<Rightarrow>
     (case node_at n (tl p) of None \<Rightarrow> [] | Some m \<Rightarrow> refs m))"

definition masked_at :: "needle_trie \<Rightarrow> string \<Rightarrow> nat list" where
  "masked_at t p = (case t (hd p) of None \<Rightarrow> [] | Some n \<Rightarrow>
     (case node_at n (tl p) of None \<Rightarrow> [] | Some m \<Rightarrow> masked m))"

definition depth_ok :: "needle_trie \<Rightarrow> bool" where
  "depth_ok t \<longleftrightarrow> (\<forall>c n p m. t c = Some n \<longrightarrow> node_at n p = Some m \<longrightarrow> depth m = Suc (length p))"

lemma map_of_set_edge: "map_of (set_edge c n es) = (map_of es)(c \<mapsto> n)"
  by (induction es) (auto simp: fun_eq_iff)

lemma child_walk_down:
  "child (walk_down f (label # needle) n) c = (if c = label
     then Some (walk_down f needle (case child n label of None \<Rightarrow> Trie_Node [] [] [] (depth n + 1) | Some m \<Rightarrow> m))
     else child n c)"
  by (simp add: Let_def map_of_set_edge child_def)

definition node_fields :: "(trie_node \<Rightarrow> 'a list) \<Rightarrow> trie_node option \<Rightarrow> 'a list" where
  "node_fields g m = (case m of None \<Rightarrow> [] | Some n \<Rightarrow> g n)"

lemma node_fields_simps [simp]: "node_fields g None = []" "node_fields g (Some n) = g n"
  by (simp_all add: node_fields_def)

text \<open>An update that keeps the edges changes the fields only at the end of the walk.\<close>

lemma node_at_fresh: "node_at (Trie_Node [] r m d) p = (if p = [] then Some (Trie_Node [] r m d) else None)"
  by (cases p) (auto simp: child_def)

lemma node_fields_walk_down:
  assumes f: "\<And>n. edges (f n) = edges n" and g: "\<And>d. g (Trie_Node [] [] [] d) = []"
    and ge: "\<And>e e' n. g (Trie_Node e' (refs n) (masked n) (depth n)) = g n"
    and gf: "\<And>n. g (f n) = h (g n)"
  shows "node_fields g (node_at (walk_down f w n) p) =
     (if p = w then h (node_fields g (node_at n p)) else node_fields g (node_at n p))"
proof (induction w arbitrary: n p)
  case Nil
  show ?case
    by (cases p) (auto simp: gf child_def f split: option.split)
next
  case (Cons c w)
  show ?case
  proof (cases p)
    case Nil
    then show ?thesis by (simp add: Let_def ge)
  next
    case (Cons d q)
    show ?thesis
    proof (cases "d = c")
      case True
      let ?m = "case child n c of None \<Rightarrow> Trie_Node [] [] [] (depth n + 1) | Some m \<Rightarrow> m"
      have A: "node_fields g (node_at ?m q) = node_fields g (node_at n p)"
        using True Cons by (cases "child n c") (auto simp: node_at_fresh g)
      have B: "node_at (walk_down f (c # w) n) p = node_at (walk_down f w ?m) q"
        using True Cons by (simp del: walk_down.simps add: child_walk_down)
      have "p = c # w \<longleftrightarrow> q = w" using True Cons by simp
      then show ?thesis unfolding B Cons.IH [of ?m q] A by simp
    next
      case False
      then show ?thesis
        using Cons by (simp del: walk_down.simps add: child_walk_down)
    qed
  qed
qed

lemma node_fields_walk_to:
  assumes f: "\<And>n. edges (f n) = edges n" and g: "\<And>d. g (Trie_Node [] [] [] d) = []"
    and ge: "\<And>e e' n. g (Trie_Node e' (refs n) (masked n) (depth n)) = g n"
    and gf: "\<And>n. g (f n) = h (g n)"
    and w: "w \<noteq> []" and p: "p \<noteq> []"
  defines "at \<equiv> \<lambda>t p. node_fields g (case t (hd p) of None \<Rightarrow> None | Some n \<Rightarrow> node_at n (tl p))"
  shows "at (walk_to f w t) p = (if p = w then h (at t p) else at t p)"
proof -
  obtain a v where w': "w = a # v" using w by (cases w) auto
  obtain b q where p': "p = b # q" using p by (cases p) auto
  note wd = node_fields_walk_down [of f g h, OF f g ge gf]
  show ?thesis
    unfolding at_def w' p' walk_to_def Let_def
    by (cases "t a") (simp_all add: wd node_at_fresh g)
qed

lemma refs_at_fields: "refs_at t p = node_fields refs (case t (hd p) of None \<Rightarrow> None | Some n \<Rightarrow> node_at n (tl p))"
  by (simp add: refs_at_def node_fields_def split: option.split)

lemma masked_at_fields: "masked_at t p = node_fields masked (case t (hd p) of None \<Rightarrow> None | Some n \<Rightarrow> node_at n (tl p))"
  by (simp add: masked_at_def node_fields_def split: option.split)

lemma refs_at_add: "p \<noteq> [] \<Longrightarrow> refs_at (add w s k t) p =
    (if p = w then refs_at t p @ [\<lparr>nr_secret = s, nr_kind = k\<rparr>] else refs_at t p)"
  unfolding refs_at_fields add_def
  by (cases "w = []") (simp_all add: node_fields_walk_to [where h = "\<lambda>x. x @ [_]"] add_ref_def)

lemma masked_at_add [simp]: "p \<noteq> [] \<Longrightarrow> masked_at (add w s k t) p = masked_at t p"
  unfolding masked_at_fields add_def
  by (cases "w = []") (simp_all add: node_fields_walk_to [where h = "\<lambda>x. x"] add_ref_def)

lemma refs_at_add_masked [simp]:
  "p \<noteq> [] \<Longrightarrow> w \<noteq> [] \<Longrightarrow> refs_at (add_masked_prefix w s t) p = refs_at t p"
  unfolding refs_at_fields add_masked_prefix_def
  by (simp add: node_fields_walk_to [where h = "\<lambda>x. x"] add_masked_def)

lemma masked_at_add_masked: "p \<noteq> [] \<Longrightarrow> w \<noteq> [] \<Longrightarrow>
   masked_at (add_masked_prefix w s t) p = (if p = w then masked_at t p @ [s] else masked_at t p)"
  unfolding masked_at_fields add_masked_prefix_def
  by (simp add: node_fields_walk_to [where h = "\<lambda>x. x @ [_]"] add_masked_def)

text \<open>Depths count the bytes from the root.\<close>

lemma node_at_walk_down_depth:
  assumes n: "\<And>p m. node_at n p = Some m \<Longrightarrow> depth m = depth n + length p"
    and f: "\<And>n. depth (f n) = depth n" "\<And>n. edges (f n) = edges n"
    and m: "node_at (walk_down f w n) p = Some m"
  shows "depth m = depth n + length p"
  using n m
proof (induction w arbitrary: n p)
  case Nil
  have "node_at (f n) p = (if p = [] then Some (f n) else node_at n p)"
    by (cases p) (simp_all add: child_def f)
  with Nil show ?case by (auto simp: f split: if_splits)
next
  case (Cons c w)
  show ?case
  proof (cases p)
    case Nil
    with Cons.prems(2) show ?thesis by (auto simp: Let_def)
  next
    case (Cons d q)
    let ?n = "case child n c of None \<Rightarrow> Trie_Node [] [] [] (depth n + 1) | Some m \<Rightarrow> m"
    have one: "depth ?n = depth n + 1"
      using Cons.prems(1) [of "[c]"] by (cases "child n c") simp_all
    have ok: "depth m = depth ?n + length q" if "node_at ?n q = Some m" for m q
    proof (cases "child n c")
      case None
      with that show ?thesis by (auto simp: node_at_fresh split: if_splits)
    next
      case (Some k)
      with that have "node_at n (c # q) = Some m" by simp
      from Cons.prems(1) [OF this] one show ?thesis by simp
    qed
    show ?thesis
    proof (cases "d = c")
      case True
      then have "node_at (walk_down f w ?n) q = Some m"
        using Cons.prems(2) Cons by (simp del: walk_down.simps add: child_walk_down)
      then show ?thesis using Cons.IH [of ?n, OF ok] one Cons by simp
    next
      case False
      then have "node_at n p = Some m"
        using Cons.prems(2) Cons by (simp del: walk_down.simps add: child_walk_down)
      then show ?thesis by (rule Cons.prems(1))
    qed
  qed
qed

lemma depth_ok_walk_to:
  assumes t: "depth_ok t" and f: "\<And>n. depth (f n) = depth n" "\<And>n. edges (f n) = edges n"
  shows "depth_ok (walk_to f w t)"
  unfolding depth_ok_def
proof (intro allI impI)
  fix c n p m
  assume n: "walk_to f w t c = Some n" and m: "node_at n p = Some m"
  let ?r = "case t (hd w) of None \<Rightarrow> Trie_Node [] [] [] 1 | Some n \<Rightarrow> n"
  have r: "depth m = Suc (length p)" if "node_at ?r p = Some m" for p m
    using that t by (auto simp: depth_ok_def node_at_fresh split: option.splits if_splits)
  have "depth ?r = 1" using r [of "[]"] by simp
  with r have r': "depth m = depth ?r + length p" if "node_at ?r p = Some m" for p m
    using that by simp
  show "depth m = Suc (length p)"
  proof (cases "c = hd w")
    case True
    then have "n = walk_down f (tl w) ?r" using n by (auto simp: walk_to_def Let_def)
    with m node_at_walk_down_depth [OF r' f] have "depth m = depth ?r + length p" by blast
    with \<open>depth ?r = 1\<close> show ?thesis by simp
  next
    case False
    then show ?thesis using n m t by (auto simp: walk_to_def depth_ok_def Let_def)
  qed
qed

lemma at_empty_trie [simp]: "refs_at empty_trie p = []" "masked_at empty_trie p = []"
  by (simp_all add: refs_at_def masked_at_def empty_trie_def)

lemma depth_ok_empty [simp]: "depth_ok empty_trie"
  by (simp add: depth_ok_def empty_trie_def)

lemma depth_ok_add [simp]: "depth_ok t \<Longrightarrow> depth_ok (add w s k t)"
  by (simp add: add_def depth_ok_walk_to add_ref_def)

lemma depth_ok_add_masked [simp]: "depth_ok t \<Longrightarrow> depth_ok (add_masked_prefix w s t)"
  by (simp add: add_masked_prefix_def depth_ok_walk_to add_masked_def)

subsection \<open>The walk reports the last hit\<close>

fun last_hit :: "(trie_node \<Rightarrow> 'a option) \<Rightarrow> string \<Rightarrow> trie_node \<Rightarrow> 'a \<Rightarrow> 'a" where
  "last_hit g [] node acc = (case g node of None \<Rightarrow> acc | Some x \<Rightarrow> x)"
| "last_hit g (c # cs) node acc =
     (let acc = (case g node of None \<Rightarrow> acc | Some x \<Rightarrow> x) in
      case child node c of None \<Rightarrow> acc | Some n \<Rightarrow> last_hit g cs n acc)"

definition needle_hit :: "8 word \<Rightarrow> bool list option \<Rightarrow> trie_node \<Rightarrow> (nat \<times> nat) option" where
  "needle_hit kinds scope n =
     map_option (\<lambda>r. (depth n, nr_secret r)) (find (accepted kinds scope) (refs n))"

definition masked_hit :: "trie_node \<Rightarrow> nat list option" where
  "masked_hit n = (if masked n = [] then None else Some (masked n))"

definition hit_at :: "(trie_node \<Rightarrow> 'a option) \<Rightarrow> trie_node \<Rightarrow> string \<Rightarrow> 'a option" where
  "hit_at g n p = (case node_at n p of None \<Rightarrow> None | Some m \<Rightarrow> g m)"

lemma hit_at_simps [simp]:
  "hit_at g n [] = g n"
  "hit_at g n (c # p) = (case child n c of None \<Rightarrow> None | Some m \<Rightarrow> hit_at g m p)"
  by (auto simp: hit_at_def split: option.split)

lemma longest_from_hits:
  "longest_from kinds scope rest node (len, sec, ms) =
     (let p = last_hit (needle_hit kinds scope) rest node (len, sec) in
      (fst p, snd p, last_hit masked_hit rest node ms))"
proof (induction rest arbitrary: node len sec ms)
  case Nil
  show ?case
    by (simp add: longest_from.simps [of _ _ "[]"] needle_hit_def masked_hit_def split: option.split)
next
  case (Cons c cs)
  have "longest_from kinds scope (c # cs) node (len, sec, ms) =
    (let p = (case needle_hit kinds scope node of None \<Rightarrow> (len, sec) | Some x \<Rightarrow> x);
         ms = (case masked_hit node of None \<Rightarrow> ms | Some m \<Rightarrow> m) in
     case child node c of None \<Rightarrow> (fst p, snd p, ms)
     | Some n \<Rightarrow> longest_from kinds scope cs n (fst p, snd p, ms))"
    by (simp add: longest_from.simps [of _ _ "_ # _"] Let_def needle_hit_def masked_hit_def split: option.split)
  then show ?case by (simp add: Let_def Cons.IH split: option.split)
qed

text \<open>The result of the walk is the hit at the longest prefix that has one.\<close>

lemma last_hit_spec:
  "(\<exists>p. prefix p rest \<and> hit_at g n p = Some (last_hit g rest n acc)
      \<and> (\<forall>q. prefix q rest \<longrightarrow> length p < length q \<longrightarrow> hit_at g n q = None))
   \<or> (last_hit g rest n acc = acc \<and> (\<forall>q. prefix q rest \<longrightarrow> hit_at g n q = None))"
proof (induction rest arbitrary: n acc)
  case Nil
  show ?case by (cases "g n") auto
next
  case (Cons c cs)
  show ?case
  proof (cases "child n c")
    case None
    have p: "prefix q (c # cs) \<Longrightarrow> q = [] \<or> hit_at g n q = None" for q
      using None by (auto simp: prefix_Cons)
    show ?thesis
    proof (cases "g n")
      case N: None
      with None have "last_hit g (c # cs) n acc = acc" by simp
      with p N show ?thesis by (metis hit_at_simps(1))
    next
      case (Some x)
      with None have "last_hit g (c # cs) n acc = x" by simp
      with p Some show ?thesis
        by (intro disjI1 exI [of _ "[]"]) (auto dest: p)
    qed
  next
    case (Some m)
    let ?acc = "case g n of None \<Rightarrow> acc | Some x \<Rightarrow> x"
    have l: "last_hit g (c # cs) n acc = last_hit g cs m ?acc" using Some by simp
    from Cons.IH [of m ?acc] show ?thesis
    proof (elim disjE exE conjE)
      fix p
      assume "prefix p cs" "hit_at g m p = Some (last_hit g cs m ?acc)"
        "\<forall>q. prefix q cs \<longrightarrow> length p < length q \<longrightarrow> hit_at g m q = None"
      then show ?thesis unfolding l
        by (intro disjI1 exI [of _ "c # p"]) (auto simp: prefix_Cons Some)
    next
      assume i: "last_hit g cs m ?acc = ?acc" "\<forall>q. prefix q cs \<longrightarrow> hit_at g m q = None"
      then show ?thesis unfolding l
        by (cases "g n") (auto simp: prefix_Cons Some)
    qed
  qed
qed

definition find_at :: "needle_trie \<Rightarrow> 8 word \<Rightarrow> bool list option \<Rightarrow> string \<Rightarrow> needle_ref option" where
  "find_at t kinds scope p = find (accepted kinds scope) (refs_at t p)"

lemma longest_needle:
  assumes "depth_ok t" and "longest t data kinds scope = (len, sec, ms)" and "data \<noteq> []"
  shows "(\<exists>p r. p \<noteq> [] \<and> prefix p data \<and> find_at t kinds scope p = Some r \<and> len = length p
            \<and> sec = nr_secret r
            \<and> (\<forall>q. prefix q data \<longrightarrow> length p < length q \<longrightarrow> find_at t kinds scope q = None))
       \<or> (len = 0 \<and> sec = 0 \<and> (\<forall>q. prefix q data \<longrightarrow> q \<noteq> [] \<longrightarrow> find_at t kinds scope q = None))"
proof -
  obtain c cs where d: "data = c # cs" using assms(3) by (cases data) auto
  show ?thesis
  proof (cases "t c")
    case None
    with assms(2) have "find_at t kinds scope (c # q) = None" "len = 0" "sec = 0" for q
      by (auto simp: d longest_def find_at_def refs_at_def)
    then show ?thesis by (auto simp: d prefix_Cons)
  next
    case (Some n)
    have f: "find_at t kinds scope (c # q) = (case node_at n q of None \<Rightarrow> None
        | Some m \<Rightarrow> find (accepted kinds scope) (refs m))" for q
      by (simp add: find_at_def refs_at_def Some split: option.split)
    have hit: "hit_at (needle_hit kinds scope) n q
        = map_option (\<lambda>r. (length (c # q), nr_secret r)) (find_at t kinds scope (c # q))" for q
      using assms(1) Some unfolding f
      by (auto simp: hit_at_def needle_hit_def depth_ok_def split: option.split)
    have l: "(len, sec) = last_hit (needle_hit kinds scope) cs n (0, 0)"
      using assms(2) Some by (simp add: d longest_def longest_from_hits Let_def prod_eq_iff)
    from last_hit_spec [of cs "needle_hit kinds scope" n "(0, 0)"] show ?thesis
    proof (elim disjE exE conjE)
      fix p
      assume p: "prefix p cs"
        "hit_at (needle_hit kinds scope) n p = Some (last_hit (needle_hit kinds scope) cs n (0, 0))"
        "\<forall>q. prefix q cs \<longrightarrow> length p < length q \<longrightarrow> hit_at (needle_hit kinds scope) n q = None"
      then obtain r where "find_at t kinds scope (c # p) = Some r" "len = length (c # p)" "sec = nr_secret r"
        unfolding hit l [symmetric] by auto
      with p show ?thesis unfolding hit
        by (intro disjI1 exI [of _ "c # p"] exI [of _ r]) (auto simp: d prefix_Cons)
    next
      assume "last_hit (needle_hit kinds scope) cs n (0, 0) = (0, 0)"
        "\<forall>q. prefix q cs \<longrightarrow> hit_at (needle_hit kinds scope) n q = None"
      then show ?thesis unfolding hit using l by (auto simp: d prefix_Cons)
    qed
  qed
qed

lemma longest_masked:
  assumes "longest t data kinds scope = (len, sec, ms)" and "data \<noteq> []"
  shows "(\<exists>p. p \<noteq> [] \<and> prefix p data \<and> ms = masked_at t p \<and> ms \<noteq> []
            \<and> (\<forall>q. prefix q data \<longrightarrow> length p < length q \<longrightarrow> masked_at t q = []))
       \<or> (ms = [] \<and> (\<forall>q. prefix q data \<longrightarrow> q \<noteq> [] \<longrightarrow> masked_at t q = []))"
proof -
  obtain c cs where d: "data = c # cs" using assms(2) by (cases data) auto
  show ?thesis
  proof (cases "t c")
    case None
    with assms(1) have "masked_at t (c # q) = []" "ms = []" for q
      by (auto simp: d longest_def masked_at_def)
    then show ?thesis by (auto simp: d prefix_Cons)
  next
    case (Some n)
    have hit: "hit_at masked_hit n q = (if masked_at t (c # q) = [] then None else Some (masked_at t (c # q)))" for q
      using Some by (auto simp: hit_at_def masked_hit_def masked_at_def split: option.split)
    have l: "ms = last_hit masked_hit cs n []"
      using assms(1) Some by (simp add: d longest_def longest_from_hits Let_def)
    from last_hit_spec [of cs masked_hit n "[]"] show ?thesis
    proof (elim disjE exE conjE)
      fix p
      assume "prefix p cs" "hit_at masked_hit n p = Some (last_hit masked_hit cs n [])"
        "\<forall>q. prefix q cs \<longrightarrow> length p < length q \<longrightarrow> hit_at masked_hit n q = None"
      then show ?thesis unfolding hit l [symmetric]
        by (intro disjI1 exI [of _ "c # p"]) (auto simp: d prefix_Cons split: if_splits)
    next
      assume "last_hit masked_hit cs n [] = []" "\<forall>q. prefix q cs \<longrightarrow> hit_at masked_hit n q = None"
      then show ?thesis unfolding hit using l by (auto simp: d prefix_Cons split: if_splits)
    qed
  qed
qed

subsection \<open>The trie of a list of secrets\<close>

definition secret_needles :: "nat \<Rightarrow> needle_source \<Rightarrow> (string \<times> needle_ref) list" where
  "secret_needles i item =
     map (\<lambda>r. (r, \<lparr>nr_secret = i, nr_kind = kind_value\<rparr>)) (ns_representations item) @
     map (\<lambda>r. (r, \<lparr>nr_secret = i, nr_kind = kind_placeholder\<rparr>)) (ns_placeholder_representations item)"

definition needles_of :: "nat \<Rightarrow> needle_source list \<Rightarrow> (string \<times> needle_ref) list" where
  "needles_of i items = concat (map (\<lambda>(j, item). secret_needles j item) (enumerate i items))"

definition masked_of :: "nat \<Rightarrow> needle_source list \<Rightarrow> string \<Rightarrow> nat list" where
  "masked_of i items p = map fst (filter (\<lambda>(j, item). masked_prefix_length * 2 \<le> length (ns_value item)
     \<and> take masked_prefix_length (ns_value item) = p) (enumerate i items))"

lemma needles_of_simps [simp]:
  "needles_of i [] = []" "needles_of i (x # xs) = secret_needles i x @ needles_of (Suc i) xs"
  by (simp_all add: needles_of_def)

lemma refs_at_adds: "p \<noteq> [] \<Longrightarrow> refs_at (foldl (\<lambda>t r. add r i k t) t rs) p =
    refs_at t p @ map snd (filter (\<lambda>n. fst n = p) (map (\<lambda>r. (r, \<lparr>nr_secret = i, nr_kind = k\<rparr>)) rs))"
  by (induction rs arbitrary: t) (auto simp: refs_at_add)

lemma masked_at_adds [simp]: "p \<noteq> [] \<Longrightarrow> masked_at (foldl (\<lambda>t r. add r i k t) t rs) p = masked_at t p"
  by (induction rs arbitrary: t) auto

lemma depth_ok_adds [simp]: "depth_ok t \<Longrightarrow> depth_ok (foldl (\<lambda>t r. add r i k t) t rs)"
  by (induction rs arbitrary: t) auto

lemma take_masked_nonempty:
  "masked_prefix_length * 2 \<le> length v \<Longrightarrow> v \<noteq> []" "masked_prefix_length \<noteq> 0"
  by (auto simp: masked_prefix_length_def)

lemma refs_at_add_secret: "p \<noteq> [] \<Longrightarrow> refs_at (add_secret i item t) p =
    refs_at t p @ map snd (filter (\<lambda>n. fst n = p) (secret_needles i item))"
  by (simp add: add_secret_def Let_def refs_at_adds secret_needles_def take_masked_nonempty)

lemma masked_at_add_secret: "p \<noteq> [] \<Longrightarrow> masked_at (add_secret i item t) p =
    masked_at t p @ (if masked_prefix_length * 2 \<le> length (ns_value item)
      \<and> take masked_prefix_length (ns_value item) = p then [i] else [])"
  by (auto simp: add_secret_def Let_def masked_at_add_masked take_masked_nonempty)

lemma depth_ok_add_secret [simp]: "depth_ok t \<Longrightarrow> depth_ok (add_secret i item t)"
  by (simp add: add_secret_def Let_def)

lemma add_secrets_denotes:
  "p \<noteq> [] \<Longrightarrow> refs_at (add_secrets i items t) p =
     refs_at t p @ map snd (filter (\<lambda>n. fst n = p) (needles_of i items))"
  "p \<noteq> [] \<Longrightarrow> masked_at (add_secrets i items t) p = masked_at t p @ masked_of i items p"
  "depth_ok t \<Longrightarrow> depth_ok (add_secrets i items t)"
  by (induction i items t rule: add_secrets.induct)
    (auto simp: refs_at_add_secret masked_at_add_secret masked_of_def)

lemma new_needle_trie_denotes:
  "p \<noteq> [] \<Longrightarrow> refs_at (new_needle_trie items) p = map snd (filter (\<lambda>n. fst n = p) (needles_of 0 items))"
  "p \<noteq> [] \<Longrightarrow> masked_at (new_needle_trie items) p = masked_of 0 items p"
  "depth_ok (new_needle_trie items)"
  by (simp_all add: new_needle_trie_def add_secrets_denotes)

subsection \<open>Equivalence with the reference\<close>

text \<open>The reference of the test oracle: needles sorted stably by descending length; the first
  acceptable one that the data starts with.\<close>

definition by_length_desc :: "(string \<times> 'a) list \<Rightarrow> (string \<times> 'a) list" where
  "by_length_desc ns = sort_key (\<lambda>n. - int (length (fst n))) ns"

definition reference_match :: "('a \<Rightarrow> bool) \<Rightarrow> (string \<times> 'a) list \<Rightarrow> string \<Rightarrow> (string \<times> 'a) option" where
  "reference_match ok ns data = find (\<lambda>n. ok (snd n) \<and> fst n \<noteq> [] \<and> prefix (fst n) data) (by_length_desc ns)"

lemma find_append: "find P (us @ vs) = (case find P us of Some u \<Rightarrow> Some u | None \<Rightarrow> find P vs)"
  by (induction us) auto

lemma find_filter: "find P (filter Q xs) = find (\<lambda>x. Q x \<and> P x) xs"
  by (induction xs) auto

lemma find_map_snd: "find P (map f xs) = map_option f (find (\<lambda>x. P (f x)) xs)"
  by (induction xs) auto

lemma find_cong_set: "(\<And>x. x \<in> set xs \<Longrightarrow> P x = Q x) \<Longrightarrow> find P xs = find Q xs"
  by (induction xs) auto

lemma find_sort_key_Some:
  assumes "find P (sort_key k xs) = Some x"
  shows "find (\<lambda>y. k y = k x \<and> P y) xs = Some x" and "\<And>y. y \<in> set xs \<Longrightarrow> P y \<Longrightarrow> k x \<le> k y"
proof -
  have Px: "P x" using assms by (metis find_Some_iff)
  have "\<exists>y \<in> set (sort_key k xs). P y"
    using assms by (metis find_None_iff option.distinct(1))
  from split_list_first_prop [OF this] obtain us y vs where
    y: "sort_key k xs = us @ y # vs" "P y" "\<forall>z \<in> set us. \<not> P z" by blast
  have "find P us = None" using y(3) by (simp add: find_None_iff)
  then have "find P (us @ y # vs) = Some y" using y(2) by (simp add: find_append)
  with assms y(1) have yx: "y = x" by simp
  have "find P (filter (\<lambda>z. k z = k x) us) = None" using y(3) by (auto simp: find_None_iff)
  then have "find P (filter (\<lambda>z. k z = k x) (sort_key k xs)) = Some x"
    using y yx by (simp add: find_append Px)
  then show "find (\<lambda>y. k y = k x \<and> P y) xs = Some x"
    by (simp add: sort_key_stable find_filter)
  fix z
  assume "z \<in> set xs" "P z"
  then have "z \<in> set (us @ y # vs)" by (metis set_sort y(1))
  with \<open>P z\<close> y(3) have "z = x \<or> z \<in> set vs" using yx by auto
  moreover have "sorted (map k (us @ y # vs))" by (metis sorted_sort_key y(1))
  ultimately show "k x \<le> k z" using yx by (auto simp: sorted_append)
qed

lemma reference_match_Some:
  assumes "reference_match ok ns data = Some (w, r)"
  shows "w \<noteq> []" "prefix w data" "find ok (map snd (filter (\<lambda>n. fst n = w) ns)) = Some r"
    and "\<And>q. prefix q data \<Longrightarrow> length w < length q \<Longrightarrow> find ok (map snd (filter (\<lambda>n. fst n = q) ns)) = None"
proof -
  let ?P = "\<lambda>n. ok (snd n) \<and> fst n \<noteq> [] \<and> prefix (fst n) data"
  from assms have f: "find ?P (sort_key (\<lambda>n. - int (length (fst n))) ns) = Some (w, r)"
    by (simp add: reference_match_def by_length_desc_def)
  then have P: "?P (w, r)" by (metis (mono_tags, lifting) find_Some_iff)
  then show w: "w \<noteq> []" "prefix w data" by simp_all
  have "prefix p data \<and> length p = length w \<longleftrightarrow> p = w" for p
    using w(2) by (auto simp: prefix_def append_eq_append_conv)
  then have "find (\<lambda>n. fst n = w \<and> ok (snd n)) ns =
    find (\<lambda>n. - int (length (fst n)) = - int (length (fst (w, r))) \<and> ?P n) ns"
    using w by (intro find_cong_set) auto
  also have "\<dots> = Some (w, r)" by (rule find_sort_key_Some(1) [OF f])
  finally show "find ok (map snd (filter (\<lambda>n. fst n = w) ns)) = Some r"
    by (simp add: find_map_snd find_filter)
  show "find ok (map snd (filter (\<lambda>n. fst n = q) ns)) = None" if "prefix q data" "length w < length q" for q
  proof -
    have "q \<noteq> []" using \<open>length w < length q\<close> by auto
    then have "\<not> ok s" if "(q, s) \<in> set ns" for s
      using find_sort_key_Some(2) [OF f that] \<open>prefix q data\<close> \<open>length w < length q\<close> by auto
    then show ?thesis by (auto simp: find_None_iff)
  qed
qed

lemma reference_match_None:
  assumes "reference_match ok ns data = None" and "prefix q data" and "q \<noteq> []"
  shows "find ok (map snd (filter (\<lambda>n. fst n = q) ns)) = None"
  using assms by (auto simp: reference_match_def by_length_desc_def find_None_iff)

text \<open>The walk over the trie of a policy and the reference report the same needle.\<close>

lemma longest_reference:
  assumes "data \<noteq> []"
  shows "(case reference_match (accepted kinds scope) (needles_of 0 secrets) data of
      None \<Rightarrow> fst (longest (new_needle_trie secrets) data kinds scope) = 0
    | Some (w, r) \<Rightarrow> fst (longest (new_needle_trie secrets) data kinds scope) = length w
        \<and> fst (snd (longest (new_needle_trie secrets) data kinds scope)) = nr_secret r)"
proof -
  let ?t = "new_needle_trie secrets" and ?ns = "needles_of 0 secrets" and ?ok = "accepted kinds scope"
  obtain len sec ms where l: "longest ?t data kinds scope = (len, sec, ms)" by (metis prod_cases3)
  have f: "find_at ?t kinds scope p = find ?ok (map snd (filter (\<lambda>n. fst n = p) ?ns))" if "p \<noteq> []" for p
    using that by (simp add: find_at_def new_needle_trie_denotes)
  note hit = longest_needle [OF new_needle_trie_denotes(3) l assms]
  show ?thesis
  proof (cases "reference_match ?ok ?ns data")
    case None
    have "find_at ?t kinds scope p = None" if "prefix p data" "p \<noteq> []" for p
      using that by (simp add: f reference_match_None [OF None])
    with hit have "len = 0" by (elim disjE exE conjE) auto
    with None l show ?thesis by simp
  next
    case (Some wr)
    obtain w r where wr: "wr = (w, r)" by force
    note m = reference_match_Some [OF Some [unfolded wr]]
    have w: "find_at ?t kinds scope w = Some r" using m(1,3) f by simp
    have longer: "find_at ?t kinds scope q = None" if "prefix q data" "length w < length q" for q
      using that m(4) f [of q] by fastforce
    have "\<not> (\<forall>q. prefix q data \<longrightarrow> q \<noteq> [] \<longrightarrow> find_at ?t kinds scope q = None)"
      using w m(1,2) by force
    with hit obtain p r' where p: "p \<noteq> []" "prefix p data" "find_at ?t kinds scope p = Some r'"
      "len = length p" "sec = nr_secret r'"
      "\<forall>q. prefix q data \<longrightarrow> length p < length q \<longrightarrow> find_at ?t kinds scope q = None"
      by blast
    have "\<not> length p < length w" using p(6) m(2) w by auto
    moreover have "\<not> length w < length p" using longer [OF p(2)] p(3) by auto
    ultimately have "length p = length w" by simp
    moreover have "p = take (length p) data" "w = take (length w) data"
      using p(2) m(2) by (metis append_eq_conv_conj prefix_def)+
    ultimately have "p = w" by metis
    with p w Some l wr show ?thesis by simp
  qed
qed

text \<open>The candidates for masked renderings are the secrets whose value starts with the first
  four bytes of the data.\<close>

lemma masked_of_length: "masked_of i items p \<noteq> [] \<Longrightarrow> length p = masked_prefix_length"
  by (auto simp: masked_of_def filter_empty_conv masked_prefix_length_def)

lemma longest_masked_of:
  assumes "data \<noteq> []"
  shows "snd (snd (longest (new_needle_trie secrets) data kinds scope)) =
    masked_of 0 secrets (take masked_prefix_length data)"
proof -
  let ?t = "new_needle_trie secrets"
  obtain len sec ms where l: "longest ?t data kinds scope = (len, sec, ms)" by (metis prod_cases3)
  have f: "masked_at ?t p = masked_of 0 secrets p" if "p \<noteq> []" for p
    using that by (simp add: new_needle_trie_denotes)
  from longest_masked [OF l assms] show ?thesis
  proof (elim disjE exE conjE)
    fix p
    assume p: "p \<noteq> []" "prefix p data" "ms = masked_at ?t p" "ms \<noteq> []"
    then have "length p = masked_prefix_length" using f masked_of_length by metis
    with p(2) have "p = take masked_prefix_length data" by (auto simp: prefix_def)
    with p f l show ?thesis by simp
  next
    assume n: "ms = []" "\<forall>q. prefix q data \<longrightarrow> q \<noteq> [] \<longrightarrow> masked_at ?t q = []"
    have "take masked_prefix_length data \<noteq> []"
      using assms by (simp add: masked_prefix_length_def)
    with n f l show ?thesis by (metis snd_conv take_is_prefix)
  qed
qed

text \<open>C17. The trie built by \<open>newNeedleTrie\<close> reports, at any offset, exactly the needle of the
  reference: the longest acceptable representation the data starts with, the first configured one
  among equals; and as candidates for masked renderings exactly the secrets, in order, of at least
  eight bytes whose first four bytes are those of the data.\<close>

theorem longest_is_reference:
  assumes "data \<noteq> []"
  shows "(case reference_match (accepted kinds scope) (needles_of 0 secrets) data of
      None \<Rightarrow> fst (longest (new_needle_trie secrets) data kinds scope) = 0
    | Some (w, r) \<Rightarrow> fst (longest (new_needle_trie secrets) data kinds scope) = length w
        \<and> fst (snd (longest (new_needle_trie secrets) data kinds scope)) = nr_secret r)
    \<and> snd (snd (longest (new_needle_trie secrets) data kinds scope)) =
        masked_of 0 secrets (take masked_prefix_length data)"
  using longest_reference [OF assms] longest_masked_of [OF assms] by (rule conjI)

definition sample_sources :: "needle_source list" where
  "sample_sources = [\<lparr>ns_value = ''abcdefgh'', ns_representations = [''abcd''],
     ns_placeholder_representations = [''P'']\<rparr>, \<lparr>ns_value = ''abcdxyzw'',
     ns_representations = [''abcdxyzw'', ''ab''], ns_placeholder_representations = [''Q'']\<rparr>]"

lemma longest_is_reference_witness:
  "fst (longest (new_needle_trie sample_sources) ''abcdx'' kind_value None) = 4
   \<and> snd (snd (longest (new_needle_trie sample_sources) ''abcdx'' kind_value None)) = [0, 1]"
proof -
  have "reference_match (accepted kind_value None) (needles_of 0 sample_sources) ''abcdx''
      = Some (''abcd'', \<lparr>nr_secret = 0, nr_kind = 1\<rparr>)"
    by (simp add: reference_match_def by_length_desc_def sample_sources_def secret_needles_def evaluate)
  moreover have "masked_of 0 sample_sources (take masked_prefix_length ''abcdx'') = [0, 1]"
    by (simp add: masked_of_def sample_sources_def evaluate)
  ultimately show ?thesis
    using longest_is_reference [where data = "''abcdx''" and kinds = kind_value and scope = None
      and secrets = sample_sources] by simp
qed

end
