(* ===== verification/Go_Encoding.thy ===== *)
theory Go_Encoding
  imports Go_Net
begin

text \<open>
  Go's text encodings as far as the program uses them: \<open>encoding/base64\<close>, the escaping and the
  query strings of \<open>net/url\<close>, \<open>mime.ParseMediaType\<close>.
\<close>

subsection \<open>Base64\<close>

definition b64_std :: string where
  "b64_std = ''ABCDEFGHIJKLMNOPQRSTUVWXYZabcdefghijklmnopqrstuvwxyz0123456789+/''"

definition b64_url :: string where
  "b64_url = ''ABCDEFGHIJKLMNOPQRSTUVWXYZabcdefghijklmnopqrstuvwxyz0123456789-_''"

text \<open>An encoding is an alphabet of 64 characters and whether it pads with \<open>=\<close>.\<close>

fun b64_encode :: "string \<Rightarrow> bool \<Rightarrow> string \<Rightarrow> string" where
  "b64_encode alph pad [] = []"
| "b64_encode alph pad [a] =
     [alph ! (code a div 4), alph ! (code a mod 4 * 16)] @ (if pad then ''=='' else [])"
| "b64_encode alph pad [a, b] =
     [alph ! (code a div 4), alph ! (code a mod 4 * 16 + code b div 16), alph ! (code b mod 16 * 4)]
     @ (if pad then ''='' else [])"
| "b64_encode alph pad (a # b # c # s) =
     [alph ! (code a div 4), alph ! (code a mod 4 * 16 + code b div 16),
      alph ! (code b mod 16 * 4 + code c div 64), alph ! (code c mod 64)] @ b64_encode alph pad s"

fun index_of :: "'a list \<Rightarrow> 'a \<Rightarrow> nat option" where
  "index_of [] x = None"
| "index_of (y # ys) x = (if y = x then Some 0 else map_option Suc (index_of ys x))"

text \<open>Decoding of the bytes left after line breaks are skipped; trailing bits are not checked
  (the encodings are not strict).\<close>

fun b64_quads :: "string \<Rightarrow> bool \<Rightarrow> string \<Rightarrow> string option" where
  "b64_quads alph pad [] = Some []"
| "b64_quads alph pad [a] = None"
| "b64_quads alph pad [a, b] = (if pad then None else
     (case (index_of alph a, index_of alph b) of
        (Some i, Some j) \<Rightarrow> Some [char_of (i * 4 + j div 16)] | _ \<Rightarrow> None))"
| "b64_quads alph pad [a, b, c] = (if pad then None else
     (case (index_of alph a, index_of alph b, index_of alph c) of
        (Some i, Some j, Some k) \<Rightarrow>
          Some [char_of (i * 4 + j div 16), char_of (j mod 16 * 16 + k div 4)] | _ \<Rightarrow> None))"
| "b64_quads alph pad (a # b # c # d # s) =
     (case (index_of alph a, index_of alph b) of
        (Some i, Some j) \<Rightarrow>
          (case (index_of alph c, index_of alph d) of
             (Some k, Some l) \<Rightarrow> map_option (\<lambda>r. char_of (i * 4 + j div 16) #
                char_of (j mod 16 * 16 + k div 4) # char_of (k mod 4 * 64 + l) # r) (b64_quads alph pad s)
           | (Some k, None) \<Rightarrow> if pad \<and> d = CHR ''='' \<and> s = []
                then Some [char_of (i * 4 + j div 16), char_of (j mod 16 * 16 + k div 4)] else None
           | (None, _) \<Rightarrow> if pad \<and> c = CHR ''='' \<and> d = CHR ''='' \<and> s = []
                then Some [char_of (i * 4 + j div 16)] else None)
      | _ \<Rightarrow> None)"

definition b64_decode :: "string \<Rightarrow> bool \<Rightarrow> string \<Rightarrow> string option" where
  "b64_decode alph pad s = b64_quads alph pad (filter (\<lambda>c. c \<noteq> CHR 0x0A \<and> c \<noteq> CHR 0x0D) s)"

definition b64_ok :: "string \<Rightarrow> bool" where
  "b64_ok alph \<longleftrightarrow> length alph = 64 \<and> distinct alph \<and> CHR ''='' \<notin> set alph
     \<and> CHR 0x0A \<notin> set alph \<and> CHR 0x0D \<notin> set alph"

lemma b64_ok_alphabets: "b64_ok b64_std" "b64_ok b64_url"
  by (simp_all add: b64_ok_def b64_std_def b64_url_def)

lemma index_of_nth: "distinct xs \<Longrightarrow> i < length xs \<Longrightarrow> index_of xs (xs ! i) = Some i"
  by (induction xs arbitrary: i) (auto simp: nth_Cons split: nat.split)

lemma b64_nth: "b64_ok alph \<Longrightarrow> i < 64 \<Longrightarrow> index_of alph (alph ! i) = Some i"
  by (simp add: b64_ok_def index_of_nth)

lemma index_of_None: "x \<notin> set xs \<Longrightarrow> index_of xs x = None"
  by (induction xs) auto

lemma code_bound: "code c < 256"
  by simp

lemma b64_bounds:
  "code a div 4 < 64" "code a mod 4 * 16 < 64" "code a mod 4 * 16 + code b div 16 < 64"
  "code b mod 16 * 4 < 64" "code b mod 16 * 4 + code c div 64 < 64" "code c mod 64 < 64"
  using code_bound [of a] code_bound [of b] code_bound [of c] by linarith+

lemma radix_digits:
  fixes x y k :: nat assumes "y < k" shows "(x * k + y) div k = x" "(x * k + y) mod k = y"
  using assms by (auto simp: div_mult_self4 mod_mult_self4)

lemma b64_join:
  "char_of (code a div 4 * 4 + code a mod 4 * 16 div 16) = a"
  "char_of (code a div 4 * 4 + (code a mod 4 * 16 + code b div 16) div 16) = a"
  "char_of ((code a mod 4 * 16 + code b div 16) mod 16 * 16 + code b mod 16 * 4 div 4) = b"
  "char_of ((code a mod 4 * 16 + code b div 16) mod 16 * 16 + (code b mod 16 * 4 + code c div 64) div 4) = b"
  "char_of ((code b mod 16 * 4 + code c div 64) mod 4 * 64 + code c mod 64) = c"
proof -
  have b: "code b div 16 < 16" and c: "code c div 64 < 4"
    using code_bound [of b] code_bound [of c] by linarith+
  show "char_of (code a div 4 * 4 + code a mod 4 * 16 div 16) = a" by simp
  show "char_of (code a div 4 * 4 + (code a mod 4 * 16 + code b div 16) div 16) = a"
    unfolding radix_digits [OF b] by simp
  show "char_of ((code a mod 4 * 16 + code b div 16) mod 16 * 16 + code b mod 16 * 4 div 4) = b"
    unfolding radix_digits [OF b] by simp
  show "char_of ((code a mod 4 * 16 + code b div 16) mod 16 * 16
      + (code b mod 16 * 4 + code c div 64) div 4) = b"
    unfolding radix_digits [OF b] radix_digits [OF c] by simp
  show "char_of ((code b mod 16 * 4 + code c div 64) mod 4 * 64 + code c mod 64) = c"
    unfolding radix_digits [OF c] by simp
qed

lemma b64_quads_encode:
  assumes "b64_ok alph" shows "b64_quads alph pad (b64_encode alph pad s) = Some s"
proof -
  note nth = b64_nth [OF assms]
  have eq: "index_of alph (CHR ''='') = None"
    using assms by (simp add: b64_ok_def index_of_None)
  show ?thesis
    using assms
  proof (induction alph pad s rule: b64_encode.induct)
    case (4 alph pad a b c s)
    note nth = b64_nth [OF 4(2)]
    show ?case
      by (simp only: b64_encode.simps append_Cons append_Nil b64_quads.simps nth [OF b64_bounds(1)]
          nth [OF b64_bounds(3)] nth [OF b64_bounds(5)] nth [OF b64_bounds(6)] prod.case option.case
          4(1) [OF 4(2)] option.map b64_join)
  next
    case (3 alph pad a b)
    note nth = b64_nth [OF 3]
    have eq: "index_of alph (CHR ''='') = None" using 3 by (simp add: b64_ok_def index_of_None)
    have "b64_quads alph pad (b64_encode alph pad [a, b]) =
      Some [char_of (code a div 4 * 4 + (code a mod 4 * 16 + code b div 16) div 16),
            char_of ((code a mod 4 * 16 + code b div 16) mod 16 * 16 + code b mod 16 * 4 div 4)]"
      by (cases pad) (simp_all only: b64_encode.simps append_Cons append_Nil append_Nil2 b64_quads.simps
          nth [OF b64_bounds(1)] nth [OF b64_bounds(3)] nth [OF b64_bounds(4)] eq prod.case option.case
          if_True if_False simp_thms)
    then show ?case by (simp only: b64_join)
  qed (simp_all add: b64_nth b64_bounds b64_join b64_ok_def index_of_None)
qed

lemma set_b64_encode: "b64_ok alph \<Longrightarrow> set (b64_encode alph pad s) \<subseteq> set alph \<union> {CHR ''=''}"
proof (induction alph pad s rule: b64_encode.induct)
  case (4 alph pad a b c s)
  then show ?case
    using b64_bounds by (auto simp: b64_ok_def intro!: nth_mem)
qed (use b64_bounds in \<open>auto simp: b64_ok_def intro!: nth_mem\<close>)

text \<open>The encoding of any bytes decodes to them.\<close>

lemma b64_roundtrip:
  assumes "b64_ok alph" shows "b64_decode alph pad (b64_encode alph pad s) = Some s"
proof -
  have "filter (\<lambda>c. c \<noteq> CHR 0x0A \<and> c \<noteq> CHR 0x0D) (b64_encode alph pad s) = b64_encode alph pad s"
    using set_b64_encode [OF assms, of pad s] assms
    by (intro filter_True) (auto simp: b64_ok_def)
  then show ?thesis by (simp add: b64_decode_def b64_quads_encode [OF assms])
qed

subsection \<open>Percent encoding\<close>

definition unreserved :: "char \<Rightarrow> bool" where
  "unreserved c \<longleftrightarrow> lower_letter c \<or> upper_letter c \<or> digit_char c \<or> c \<in> set ''-_.~''"

definition percent :: "char \<Rightarrow> string" where
  "percent c = CHR ''%'' # [''0123456789ABCDEF'' ! (code c div 16), ''0123456789ABCDEF'' ! (code c mod 16)]"

definition query_escape :: "string \<Rightarrow> string" where
  "query_escape s = concat (map (\<lambda>c. if unreserved c then [c] else if c = CHR '' '' then ''+'' else percent c) s)"

definition path_escape :: "string \<Rightarrow> string" where
  "path_escape s = concat (map (\<lambda>c. if unreserved c \<or> c \<in> set ''$&+=:@'' then [c] else percent c) s)"

text \<open>\<open>url.QueryUnescape\<close>; \<open>None\<close> is an \<open>EscapeError\<close>.\<close>

fun query_unescape :: "string \<Rightarrow> string option" where
  "query_unescape [] = Some []"
| "query_unescape (c # s) =
    (if c = CHR ''%'' then
       (case s of a # b # r \<Rightarrow>
          (case (hex_digit a, hex_digit b) of
             (Some i, Some j) \<Rightarrow> map_option ((#) (char_of (16 * i + j))) (query_unescape r) | _ \<Rightarrow> None)
        | _ \<Rightarrow> None)
     else map_option ((#) (if c = CHR ''+'' then CHR '' '' else c)) (query_unescape s))"

lemma hex_digit_upper: "n < 16 \<Longrightarrow> hex_digit (''0123456789ABCDEF'' ! n) = Some n"
proof -
  have "list_all (\<lambda>n. hex_digit (''0123456789ABCDEF'' ! n) = Some n) [0..<16]"
    by (simp add: hex_digit_def upt_rec)
  then show "n < 16 \<Longrightarrow> hex_digit (''0123456789ABCDEF'' ! n) = Some n" by (simp add: list_all_iff)
qed

lemma query_unescape_percent: "query_unescape (percent c @ s) = map_option ((#) c) (query_unescape s)"
proof -
  have "code c div 16 < 16" "code c mod 16 < 16" using code_bound [of c] by linarith+
  moreover have "char_of (16 * (code c div 16) + code c mod 16) = c" by simp
  ultimately show ?thesis
    unfolding percent_def append_Cons append_Nil query_unescape.simps(2)
    by (simp only: hex_digit_upper list.case prod.case option.case if_True simp_thms)
qed

lemma query_unescape_plain:
  "c \<noteq> CHR ''%'' \<Longrightarrow> query_unescape (c # s) = map_option ((#) (if c = CHR ''+'' then CHR '' '' else c)) (query_unescape s)"
  by simp

lemma query_roundtrip: "query_unescape (query_escape s) = Some s"
proof (induction s)
  case Nil
  show ?case by (simp add: query_escape_def)
next
  case (Cons c s)
  have e: "query_escape (c # s) = (if unreserved c then [c] else if c = CHR '' '' then ''+'' else percent c)
      @ query_escape s" by (simp add: query_escape_def)
  have u: "\<not> unreserved (CHR ''%'')" "\<not> unreserved (CHR ''+'')" by (simp_all add: unreserved_def)
  show ?case
  proof (cases "unreserved c")
    case True
    then have "c \<noteq> CHR ''%''" "c \<noteq> CHR ''+''" using u by auto
    with True Cons show ?thesis unfolding e by simp
  next
    case False
    then show ?thesis
      unfolding e by (cases "c = CHR '' ''") (simp_all add: Cons query_unescape_percent)
  qed
qed

lemma nth_hex: "n < 16 \<Longrightarrow> ''0123456789ABCDEF'' ! n \<in> set ''0123456789ABCDEF''"
  by (rule nth_mem) simp

lemma query_escape_chars:
  assumes "c \<in> set (query_escape s)" shows "unreserved c \<or> c = CHR ''+'' \<or> c = CHR ''%''"
proof -
  have hex: "list_all unreserved ''0123456789ABCDEF''" by (simp add: unreserved_def)
  have n: "code b div 16 < 16" "code b mod 16 < 16" for b using code_bound [of b] by linarith+
  have "unreserved (''0123456789ABCDEF'' ! (code b div 16))" "unreserved (''0123456789ABCDEF'' ! (code b mod 16))" for b
    using hex nth_hex [OF n(1) [of b]] nth_hex [OF n(2) [of b]] unfolding list_all_iff by blast+
  then have "list_all (\<lambda>d. unreserved d \<or> d = CHR ''%'') (percent b)" for b
    unfolding percent_def by simp
  then have "list_all (\<lambda>d. unreserved d \<or> d = CHR ''+'' \<or> d = CHR ''%'') (query_escape s)"
    by (induction s) (auto simp: query_escape_def list_all_iff)
  with assms show ?thesis by (simp add: list_all_iff)
qed

lemma query_escape_free: "CHR ''&'' \<notin> set (query_escape s)" "CHR ''='' \<notin> set (query_escape s)"
  "CHR '';'' \<notin> set (query_escape s)"
  using query_escape_chars [of "CHR ''&''" s] query_escape_chars [of "CHR ''=''" s]
    query_escape_chars [of "CHR '';''" s] by (auto simp: unreserved_def)

subsection \<open>Query strings\<close>

text \<open>\<open>url.Values\<close>: the keys in order of first appearance, each with its values in order. A Go
  map has no order; every use of it below is independent of the order of the keys or takes the
  list in the order of one iteration.\<close>

type_synonym url_values = "(string \<times> string list) list"

fun values_add :: "string \<Rightarrow> string \<Rightarrow> url_values \<Rightarrow> url_values" where
  "values_add k v [] = [(k, [v])]"
| "values_add k v ((k', vs) # m) = (if k' = k then (k', vs @ [v]) # m else (k', vs) # values_add k v m)"

text \<open>One piece between ampersands: \<open>None\<close> is an error, an empty piece is skipped.\<close>

definition parse_pair :: "string \<Rightarrow> (string \<times> string) option option" where
  "parse_pair piece = (if CHR '';'' \<in> set piece then None else if piece = [] then Some None else
     (let kv = (case cut_on (CHR ''='') piece of None \<Rightarrow> (piece, []) | Some p \<Rightarrow> p) in
      case (query_unescape (fst kv), query_unescape (snd kv)) of
        (Some k, Some v) \<Rightarrow> Some (Some (k, v)) | _ \<Rightarrow> None))"

fun parse_pairs :: "string list \<Rightarrow> url_values \<Rightarrow> url_values option" where
  "parse_pairs [] m = Some m"
| "parse_pairs (p # ps) m = (case parse_pair p of None \<Rightarrow> None
     | Some None \<Rightarrow> parse_pairs ps m | Some (Some (k, v)) \<Rightarrow> parse_pairs ps (values_add k v m))"

text \<open>\<open>url.ParseQuery\<close>, with its limit on the number of parameters.\<close>

definition parse_query :: "string \<Rightarrow> url_values option" where
  "parse_query q = (if 10000 < length (split_on (CHR ''&'') q) then None
     else parse_pairs (split_on (CHR ''&'') q) [])"

text \<open>\<open>Values.Encode\<close>: sorted by key.\<close>

definition encode_pair :: "string \<Rightarrow> string \<Rightarrow> string" where
  "encode_pair k v = query_escape k @ ''='' @ query_escape v"

definition values_pairs :: "url_values \<Rightarrow> (string \<times> string) list" where
  "values_pairs m = concat (map (\<lambda>(k, vs). map (Pair k) vs) (sort_key fst m))"

definition values_encode :: "url_values \<Rightarrow> string" where
  "values_encode m = join_with ''&'' (map (\<lambda>(k, v). encode_pair k v) (values_pairs m))"

lemma parse_encode_pair: "parse_pair (encode_pair k v) = Some (Some (k, v))"
proof -
  have "cut_on (CHR ''='') (encode_pair k v) = Some (query_escape k, query_escape v)"
    by (simp add: cut_on_Some_iff encode_pair_def query_escape_free)
  then show ?thesis
    by (simp add: parse_pair_def query_roundtrip) (simp add: encode_pair_def query_escape_free)
qed

lemma parse_pairs_encoded:
  "parse_pairs (map (\<lambda>(k, v). encode_pair k v) kvs) m = Some (foldl (\<lambda>m (k, v). values_add k v m) m kvs)"
  by (induction kvs arbitrary: m) (auto simp: parse_encode_pair)

lemma values_add_new: "k \<notin> fst ` set m \<Longrightarrow> values_add k v m = m @ [(k, [v])]"
  by (induction m) auto

lemma values_add_last: "k \<notin> fst ` set m \<Longrightarrow> values_add k v (m @ [(k, vs)]) = m @ [(k, vs @ [v])]"
  by (induction m) auto

lemma foldl_values_add:
  "k \<notin> fst ` set m \<Longrightarrow> foldl (\<lambda>m (k, v). values_add k v m) (m @ [(k, us)]) (map (Pair k) vs) = m @ [(k, us @ vs)]"
  by (induction vs arbitrary: us) (auto simp: values_add_last)

lemma foldl_values_pairs:
  "distinct (map fst (m @ n)) \<Longrightarrow> \<forall>e \<in> set n. snd e \<noteq> [] \<Longrightarrow>
   foldl (\<lambda>m (k, v). values_add k v m) m (concat (map (\<lambda>(k, vs). map (Pair k) vs) n)) = m @ n"
proof (induction n arbitrary: m)
  case (Cons e n)
  obtain k v vs where e: "e = (k, v # vs)"
    using Cons.prems(2) by (cases e) (metis list.exhaust list.set_intros(1) snd_conv)
  have k: "k \<notin> fst ` set m" using Cons.prems(1) e by auto
  then have "foldl (\<lambda>m (k, v). values_add k v m) m (map (Pair k) (v # vs)) = m @ [e]"
    using foldl_values_add [OF k, of "[v]" vs] by (simp add: values_add_new e)
  then show ?case using Cons.IH [of "m @ [e]"] Cons.prems e by simp
qed simp

text \<open>Encoding values and parsing the result gives the values, sorted by key.\<close>

lemma values_roundtrip:
  assumes "distinct (map fst m)" and "\<forall>e \<in> set m. snd e \<noteq> []"
    and "m \<noteq> []" and "length (values_pairs m) \<le> 10000"
  shows "parse_query (values_encode m) = Some (sort_key fst m)"
proof -
  let ?ws = "map (\<lambda>(k, v). encode_pair k v) (values_pairs m)"
  obtain e es where e: "sort_key fst m = e # es"
    using assms(3) by (metis length_0_conv length_sort neq_Nil_conv)
  then have "e \<in> set m" by (metis list.set_intros(1) set_sort)
  with assms(2) have "snd e \<noteq> []" by blast
  then have "values_pairs m \<noteq> []" by (cases e) (simp add: values_pairs_def e)
  then have split: "split_on (CHR ''&'') (values_encode m) = ?ws"
    unfolding values_encode_def
    by (intro split_join_id) (auto simp: encode_pair_def query_escape_free)
  have "parse_pairs ?ws [] = Some (sort_key fst m)"
  proof -
    have "distinct (map fst (sort_key fst m))"
      using assms(1) by (simp add: distinct_map inj_on_def) 
    then show ?thesis
      using foldl_values_pairs [of "[]" "sort_key fst m"] assms(2)
      by (simp add: parse_pairs_encoded values_pairs_def)
  qed
  with assms(4) show ?thesis by (simp add: parse_query_def split)
qed

subsection \<open>Media types\<close>

definition tspecial :: "char \<Rightarrow> bool" where
  "tspecial c \<longleftrightarrow> c \<in> set ''()<>@,;:/[]?='' \<or> code c = 34 \<or> code c = 92"

definition token_char :: "char \<Rightarrow> bool" where
  "token_char c \<longleftrightarrow> graphic c \<and> \<not> tspecial c"

definition consume_token :: "string \<Rightarrow> string \<times> string" where
  "consume_token v = (takeWhile token_char v, dropWhile token_char v)"

text \<open>The loop over a quoted string behind its opening quote; \<open>None\<close> when it does not end.\<close>

fun consume_quoted :: "string \<Rightarrow> string \<Rightarrow> (string \<times> string) option" where
  "consume_quoted [] buf = None"
| "consume_quoted (r # v) buf =
    (if code r = 34 then Some (buf, v)
     else if code r = 92 \<and> v \<noteq> [] \<and> tspecial (hd v)
       then (case v of [] \<Rightarrow> None | c # w \<Rightarrow> consume_quoted w (buf @ [c]))
     else if code r = 13 \<or> code r = 10 then None
     else consume_quoted v (buf @ [r]))"

definition consume_value :: "string \<Rightarrow> string \<times> string" where
  "consume_value v = (if v \<noteq> [] \<and> code (hd v) = 34
     then (case consume_quoted (tl v) [] of None \<Rightarrow> ([], v) | Some p \<Rightarrow> p)
     else consume_token v)"

definition consume_media_param :: "string \<Rightarrow> (string \<times> string \<times> string) option" where
  "consume_media_param v = (case trim_left v of
     c # rest \<Rightarrow>
       if c \<noteq> CHR '';'' then None else
       (let (param, rest) = consume_token (trim_left rest) in
        if param = [] then None else
        case trim_left rest of
          d # rest \<Rightarrow>
            if d \<noteq> CHR ''='' then None else
            (let rest = trim_left rest; (v, rest2) = consume_value rest in
             if v = [] \<and> rest2 = rest then None else Some (to_lower param, v, rest2))
        | [] \<Rightarrow> None)
   | [] \<Rightarrow> None)"

text \<open>The parameter loop: whether \<open>ParseMediaType\<close> returns without error. Every parameter takes
  at least two bytes, so the length of the text is enough fuel.\<close>

fun media_params_ok :: "nat \<Rightarrow> (string \<times> string) list \<Rightarrow> string \<Rightarrow> bool" where
  "media_params_ok 0 ps v = (trim_left v = [])"
| "media_params_ok (Suc n) ps v =
    (let v = trim_left v in
     if v = [] then True else
     case consume_media_param v of
       None \<Rightarrow> trim_space v = '';''
     | Some (k, x, rest) \<Rightarrow>
         (case map_of ps k of
            Some y \<Rightarrow> y = x \<and> media_params_ok n ps rest
          | None \<Rightarrow> media_params_ok n ((k, x) # ps) rest))"

definition media_type_ok :: "string \<Rightarrow> bool" where
  "media_type_ok s = (let (typ, rest) = consume_token s in typ \<noteq> [] \<and>
     (rest = [] \<or> hd rest = CHR ''/'' \<and>
       (let (sub, rest2) = consume_token (tl rest) in sub \<noteq> [] \<and> rest2 = [])))"

text \<open>\<open>mime.ParseMediaType\<close>: the media type, \<open>None\<close> on any error.\<close>

definition mime_media_type :: "string \<Rightarrow> string option" where
  "mime_media_type v =
    (let base = (case cut_on (CHR '';'') v of None \<Rightarrow> v | Some (b, _) \<Rightarrow> b);
         mediatype = trim_space (to_lower base);
         params = drop (length base) v in
     if \<not> media_type_ok mediatype then None
     else if media_params_ok (length params) [] params then Some mediatype else None)"

lemmas [evaluate] = b64_std_def b64_url_def b64_decode_def unreserved_def percent_def query_escape_def
  path_escape_def parse_pair_def parse_query_def encode_pair_def values_pairs_def values_encode_def
  tspecial_def token_char_def consume_token_def consume_value_def consume_media_param_def
  media_type_ok_def mime_media_type_def

end
