(* ===== verification/Go_Json.thy ===== *)
theory Go_Json
  imports Go_Encoding
begin

text \<open>
  Go's package \<open>encoding/json\<close> as far as the program uses it: decoding of one value into the
  generic tree (numbers keep their text), the test that nothing but white space follows, and
  encoding with sorted object names and HTML escaping.
\<close>

text \<open>An object is the list of its names and values in the order of one iteration over the Go
  map; the decoder lists them in the order of first appearance, a repeated name overwrites.\<close>

datatype json = J_Null | J_Bool bool | J_Num string | J_Str string
  | J_Arr "json list" | J_Obj "(string \<times> json) list"

definition json_space :: "char \<Rightarrow> bool" where
  "json_space c \<longleftrightarrow> c = CHR '' '' \<or> code c = 9 \<or> code c = 10 \<or> code c = 13"

definition skip_space :: "string \<Rightarrow> string" where
  "skip_space s = dropWhile json_space s"

subsection \<open>Strings\<close>

definition hex4 :: "string \<Rightarrow> nat option" where
  "hex4 s = (case s of a # b # c # d # _ \<Rightarrow>
       if hex_digit a \<noteq> None \<and> hex_digit b \<noteq> None \<and> hex_digit c \<noteq> None \<and> hex_digit d \<noteq> None
       then Some (hex_value [a, b, c, d]) else None
     | _ \<Rightarrow> None)"

definition surrogate :: "nat \<Rightarrow> bool" where
  "surrogate r \<longleftrightarrow> 55296 \<le> r \<and> r < 57344"

text \<open>The text behind \<open>\\u\<close>: the rune of one escape or of a surrogate pair, and the bytes read.\<close>

definition json_u_escape :: "string \<Rightarrow> (rune \<times> nat) option" where
  "json_u_escape s = (case hex4 s of
     None \<Rightarrow> None
   | Some r \<Rightarrow>
       if \<not> surrogate r then Some (r, 4) else
       (case drop 4 s of
          b # u # t \<Rightarrow>
            (case (if code b = 92 \<and> u = CHR ''u'' then hex4 t else None) of
               Some r2 \<Rightarrow> if r < 56320 \<and> 56320 \<le> r2 \<and> r2 < 57344
                 then Some ((r - 55296) * 1024 + (r2 - 56320) + 65536, 10) else Some (65533, 4)
             | None \<Rightarrow> Some (65533, 4))
        | _ \<Rightarrow> Some (65533, 4)))"

definition json_simple_escape :: "char \<Rightarrow> char option" where
  "json_simple_escape c =
    (if code c = 34 \<or> code c = 92 \<or> c = CHR ''/'' then Some c
     else if c = CHR ''b'' then Some (CHR 0x08) else if c = CHR ''f'' then Some (CHR 0x0C)
     else if c = CHR ''n'' then Some (CHR 0x0A) else if c = CHR ''r'' then Some (CHR 0x0D)
     else if c = CHR ''t'' then Some (CHR 0x09) else None)"

text \<open>The bytes behind an opening quote: the decoded string and what follows the closing quote.\<close>

function json_string :: "string \<Rightarrow> string \<Rightarrow> (string \<times> string) option" where
  "json_string [] acc = None"
| "json_string (c # s) acc =
    (if code c = 34 then Some (acc, s)
     else if code c < 32 then None
     else if code c = 92 then
       (case s of
          [] \<Rightarrow> None
        | e # t \<Rightarrow>
            if e = CHR ''u'' then
              (case json_u_escape t of None \<Rightarrow> None
               | Some (r, n) \<Rightarrow> json_string (drop n t) (acc @ encode_rune r))
            else (case json_simple_escape e of None \<Rightarrow> None | Some x \<Rightarrow> json_string t (acc @ [x])))
     else json_string (drop (snd (decode_rune (c # s))) (c # s))
            (acc @ encode_rune (fst (decode_rune (c # s)))))"
  by pat_completeness auto
termination
proof (relation "measure (length \<circ> fst)", goal_cases)
  case (4 c s acc)
  have "0 < snd (decode_rune (c # s))" using decode_rune_width(1) [of "c # s"] by simp
  then show ?case by (simp only: in_measure o_apply fst_conv length_drop) (rule diff_less, simp_all)
qed auto

declare json_string.simps [simp del]

subsection \<open>Numbers\<close>

definition json_digits :: "string \<Rightarrow> (string \<times> string) option" where
  "json_digits s = (let ds = takeWhile (\<lambda>c. digit_char c) s in
     if ds = [] then None else Some (ds, drop (length ds) s))"

definition json_fraction :: "string \<Rightarrow> (string \<times> string) option" where
  "json_fraction s = (if s \<noteq> [] \<and> hd s = CHR ''.''
     then map_option (\<lambda>(ds, r). (CHR ''.'' # ds, r)) (json_digits (tl s)) else Some ([], s))"

definition json_exponent :: "string \<Rightarrow> (string \<times> string) option" where
  "json_exponent s = (if s \<noteq> [] \<and> (hd s = CHR ''e'' \<or> hd s = CHR ''E'') then
     (let r = tl s in
      if r \<noteq> [] \<and> (hd r = CHR ''+'' \<or> hd r = CHR ''-'')
      then map_option (\<lambda>(ds, r'). (hd s # hd r # ds, r')) (json_digits (tl r))
      else map_option (\<lambda>(ds, r'). (hd s # ds, r')) (json_digits r))
     else Some ([], s))"

definition json_number :: "string \<Rightarrow> (string \<times> string) option" where
  "json_number s =
    (let sign = (if s \<noteq> [] \<and> hd s = CHR ''-'' then ''-'' else []); r = drop (length sign) s in
     case (if r \<noteq> [] \<and> hd r = CHR ''0'' then Some (''0'', tl r) else json_digits r) of
       None \<Rightarrow> None
     | Some (i, r) \<Rightarrow>
         (case json_fraction r of None \<Rightarrow> None
          | Some (f, r) \<Rightarrow>
              (case json_exponent r of None \<Rightarrow> None
               | Some (e, r) \<Rightarrow> Some (sign @ i @ f @ e, r))))"

subsection \<open>Values\<close>

fun obj_set :: "string \<Rightarrow> 'a \<Rightarrow> (string \<times> 'a) list \<Rightarrow> (string \<times> 'a) list" where
  "obj_set k v [] = [(k, v)]"
| "obj_set k v (m # ms) = (if fst m = k then (k, v) # ms else m # obj_set k v ms)"

definition json_literal :: "string \<Rightarrow> json \<Rightarrow> string \<Rightarrow> (json \<times> string) option" where
  "json_literal w v s = map_option (\<lambda>r. (v, r)) (cut_prefix s w)"

text \<open>The recursive descent, on fuel and a budget of nesting levels (10000 in Go). One level of it:
  the parsers for the parts are arguments.\<close>

definition value_step :: "(nat \<Rightarrow> string \<Rightarrow> (json \<times> string) option) \<Rightarrow> (nat \<Rightarrow> string \<Rightarrow> (json \<times> string) option)
    \<Rightarrow> nat \<Rightarrow> string \<Rightarrow> (json \<times> string) option" where
  "value_step elements members d s = (case skip_space s of
     [] \<Rightarrow> None
   | c # r \<Rightarrow>
       if c = CHR ''{'' then
         (if d = 0 then None else
          case skip_space r of
            [] \<Rightarrow> None
          | e # r' \<Rightarrow> if e = CHR ''}'' then Some (J_Obj [], r') else members (d - 1) r)
       else if c = CHR ''['' then
         (if d = 0 then None else
          case skip_space r of
            [] \<Rightarrow> None
          | e # r' \<Rightarrow> if e = CHR '']'' then Some (J_Arr [], r') else elements (d - 1) r)
       else if code c = 34 then map_option (\<lambda>(x, r). (J_Str x, r)) (json_string r [])
       else if c = CHR ''t'' then json_literal ''true'' (J_Bool True) (c # r)
       else if c = CHR ''f'' then json_literal ''false'' (J_Bool False) (c # r)
       else if c = CHR ''n'' then json_literal ''null'' J_Null (c # r)
       else map_option (\<lambda>(x, r). (J_Num x, r)) (json_number (c # r)))"

definition elements_step :: "(string \<Rightarrow> (json \<times> string) option) \<Rightarrow> (string \<Rightarrow> json list \<Rightarrow> (json \<times> string) option)
    \<Rightarrow> string \<Rightarrow> json list \<Rightarrow> (json \<times> string) option" where
  "elements_step parse_value elements s acc = (case parse_value s of
     None \<Rightarrow> None
   | Some (v, r) \<Rightarrow>
       (case skip_space r of
          [] \<Rightarrow> None
        | e # r' \<Rightarrow> if e = CHR '','' then elements r' (acc @ [v])
            else if e = CHR '']'' then Some (J_Arr (acc @ [v]), r') else None))"

definition members_step :: "(string \<Rightarrow> (json \<times> string) option)
    \<Rightarrow> (string \<Rightarrow> (string \<times> json) list \<Rightarrow> (json \<times> string) option)
    \<Rightarrow> string \<Rightarrow> (string \<times> json) list \<Rightarrow> (json \<times> string) option" where
  "members_step parse_value members s acc = (case skip_space s of
     [] \<Rightarrow> None
   | q # r \<Rightarrow>
       if code q \<noteq> 34 then None else
       (case json_string r [] of
          None \<Rightarrow> None
        | Some (k, r) \<Rightarrow>
            (case skip_space r of
               [] \<Rightarrow> None
             | e # r \<Rightarrow>
                 if e \<noteq> CHR '':'' then None else
                 (case parse_value r of
                    None \<Rightarrow> None
                  | Some (v, r) \<Rightarrow>
                      (case skip_space r of
                         [] \<Rightarrow> None
                       | e # r' \<Rightarrow> if e = CHR '','' then members r' (obj_set k v acc)
                           else if e = CHR ''}'' then Some (J_Obj (obj_set k v acc), r')
                           else None)))))"

text \<open>Every second call reads at least one byte; \<open>json_fuel\<close> below shows that twice the length of
  the text plus one is enough fuel.\<close>

fun json_value :: "nat \<Rightarrow> nat \<Rightarrow> string \<Rightarrow> (json \<times> string) option"
  and json_elements :: "nat \<Rightarrow> nat \<Rightarrow> string \<Rightarrow> json list \<Rightarrow> (json \<times> string) option"
  and json_members :: "nat \<Rightarrow> nat \<Rightarrow> string \<Rightarrow> (string \<times> json) list \<Rightarrow> (json \<times> string) option" where
  "json_value 0 d s = None"
| "json_value (Suc n) d s =
     value_step (\<lambda>d r. json_elements n d r []) (\<lambda>d r. json_members n d r []) d s"
| "json_elements 0 d s acc = None"
| "json_elements (Suc n) d s acc = elements_step (json_value n d) (json_elements n d) s acc"
| "json_members 0 d s acc = None"
| "json_members (Suc n) d s acc = members_step (json_value n d) (json_members n d) s acc"

lemmas json_value_Suc = json_value.simps(2) [unfolded value_step_def]
lemmas json_elements_Suc = json_elements.simps(2) [unfolded elements_step_def]
lemmas json_members_Suc = json_members.simps(2) [unfolded members_step_def]

declare json_value.simps(2) [simp del] json_elements.simps(2) [simp del] json_members.simps(2) [simp del]
declare json_value_Suc [simp] json_elements_Suc [simp] json_members_Suc [simp]

text \<open>One \<open>Decode\<close> of a decoder over the text: the value and the text left.\<close>

definition json_decode :: "string \<Rightarrow> (json \<times> string) option" where
  "json_decode s = json_value (2 * length s + 1) 10000 s"

text \<open>A second \<open>Decode\<close> returns \<open>io.EOF\<close> when only white space is left.\<close>

definition json_at_end :: "string \<Rightarrow> bool" where
  "json_at_end s \<longleftrightarrow> skip_space s = []"

text \<open>\<open>json.Unmarshal\<close> into the generic tree; \<open>None\<close> is a syntax error.\<close>

definition json_unmarshal :: "string \<Rightarrow> json option" where
  "json_unmarshal s = (case json_decode s of
     Some (v, r) \<Rightarrow> if json_at_end r then Some v else None | None \<Rightarrow> None)"

subsection \<open>Encoding\<close>

definition hex_lower :: "nat \<Rightarrow> char" where
  "hex_lower n = ''0123456789abcdef'' ! n"

text \<open>One rune of a string, already decoded; \<open>w\<close> is its width (an invalid byte decodes to
  U+FFFD with width one).\<close>

definition json_quote_rune :: "rune \<Rightarrow> nat \<Rightarrow> string" where
  "json_quote_rune r w =
    (if r = 34 \<or> r = 92 then [CHR 0x5C, char_of r]
     else if r = 8 then [CHR 0x5C, CHR ''b''] else if r = 12 then [CHR 0x5C, CHR ''f'']
     else if r = 10 then [CHR 0x5C, CHR ''n''] else if r = 13 then [CHR 0x5C, CHR ''r'']
     else if r = 9 then [CHR 0x5C, CHR ''t'']
     else if r < 32 \<or> r = 60 \<or> r = 62 \<or> r = 38
       then CHR 0x5C # ''u00'' @ [hex_lower (r div 16), hex_lower (r mod 16)]
     else if r = 65533 \<and> w = 1 then CHR 0x5C # ''ufffd''
     else if r = 8232 then CHR 0x5C # ''u2028'' else if r = 8233 then CHR 0x5C # ''u2029''
     else encode_rune r)"

function json_quote_bytes :: "string \<Rightarrow> string" where
  "json_quote_bytes s = (if s = [] then []
     else json_quote_rune (fst (decode_rune s)) (snd (decode_rune s))
       @ json_quote_bytes (drop (snd (decode_rune s)) s))"
  by pat_completeness auto
termination
  using decode_rune_width(1)
  by (relation "measure length") (auto, metis Suc_le_eq diff_less length_greater_0_conv)

declare json_quote_bytes.simps [simp del]

definition json_quote :: "string \<Rightarrow> string" where
  "json_quote s = [CHR 0x22] @ json_quote_bytes s @ [CHR 0x22]"

text \<open>\<open>json.Marshal\<close> of the generic tree.\<close>

fun json_marshal :: "json \<Rightarrow> string" where
  "json_marshal J_Null = ''null''"
| "json_marshal (J_Bool b) = (if b then ''true'' else ''false'')"
| "json_marshal (J_Num n) = n"
| "json_marshal (J_Str s) = json_quote s"
| "json_marshal (J_Arr vs) = ''['' @ join_with '','' (map json_marshal vs) @ '']''"
| "json_marshal (J_Obj ms) = ''{'' @ join_with '',''
     (map (\<lambda>(k, t). json_quote k @ '':'' @ t) (sort_key fst (map (\<lambda>(k, v). (k, json_marshal v)) ms))) @ ''}''"

lemmas [evaluate] = json_space_def skip_space_def hex4_def surrogate_def json_u_escape_def
  json_simple_escape_def json_string.simps json_digits_def json_fraction_def json_exponent_def
  json_number_def json_literal_def json_decode_def json_at_end_def json_unmarshal_def
  hex_lower_def json_quote_rune_def json_quote_bytes.simps [of "_ # _"] json_quote_bytes.simps [of "[]"]
  json_quote_def

subsection \<open>The fuel is enough\<close>

lemma skip_space_length: "length (skip_space s) \<le> length s"
  by (simp add: skip_space_def length_dropWhile_le)

lemma skip_space_Cons_length: "skip_space s = c # r \<Longrightarrow> length r < length s"
  using skip_space_length [of s] by simp

lemma json_string_shorter: "json_string s acc = Some (x, r) \<Longrightarrow> length r < length s"
proof (induction s acc rule: json_string.induct)
  case (2 c s acc)
  have w: "0 < snd (decode_rune (c # s))" using decode_rune_width(1) [of "c # s"] by simp
  note step = 2(4) [unfolded json_string.simps(2)]
  consider "code c = 34" | "code c = 92" "code c \<noteq> 34" "\<not> code c < 32"
    | "code c \<noteq> 92" "code c \<noteq> 34" "\<not> code c < 32"
    using step by (auto split: if_splits)
  then show ?case
  proof cases
    case 1
    with step show ?thesis by simp
  next
    case 2
    with step obtain e t where t: "s = e # t" by (auto split: list.splits)
    show ?thesis
    proof (cases "e = CHR ''u''")
      case True
      with step 2 t obtain q n where "json_u_escape t = Some (q, n)"
        "json_string (drop n t) (acc @ encode_rune q) = Some (x, r)" by (auto split: option.splits)
      with 2(1) show ?thesis
        using "2.IH"(1) [OF 2(2) 2(3) 2(1) t True, of "(q, n)" q n] t by simp
    next
      case False
      with step 2 t obtain y where "json_simple_escape e = Some y" "json_string t (acc @ [y]) = Some (x, r)"
        by (auto split: option.splits)
      then show ?thesis using "2.IH"(2) [OF 2(2) 2(3) 2(1) t False, of y] t by simp
    qed
  next
    case 3
    with step have "json_string (drop (snd (decode_rune (c # s))) (c # s))
        (acc @ encode_rune (fst (decode_rune (c # s)))) = Some (x, r)" by simp
    from "2.IH"(3) [OF 3(2) 3(3) 3(1) this] show ?thesis using w by simp
  qed
qed (simp add: json_string.simps)

lemma json_digits_shorter: "json_digits s = Some (x, r) \<Longrightarrow> length r < length s"
  by (cases s) (auto simp: json_digits_def Let_def split: if_splits)

lemma json_fraction_shorter: "json_fraction s = Some (x, r) \<Longrightarrow> length r \<le> length s"
  by (cases s) (auto simp: json_fraction_def split: if_splits dest: json_digits_shorter)

lemma json_exponent_shorter: "json_exponent s = Some (x, r) \<Longrightarrow> length r \<le> length s"
  by (cases s; cases "tl s") (auto simp: json_exponent_def Let_def split: if_splits dest: json_digits_shorter)

lemma json_number_shorter:
  assumes "json_number s = Some (x, r)" shows "length r < length s"
proof -
  define sign where "sign = (if s \<noteq> [] \<and> hd s = CHR ''-'' then ''-'' else [])"
  define s1 where "s1 = drop (length sign) s"
  from assms obtain i s2 f s3 e where
    i: "(if s1 \<noteq> [] \<and> hd s1 = CHR ''0'' then Some (''0'', tl s1) else json_digits s1) = Some (i, s2)"
    and f: "json_fraction s2 = Some (f, s3)" and e: "json_exponent s3 = Some (e, r)"
    unfolding json_number_def Let_def sign_def [symmetric] s1_def [symmetric]
    by (auto simp del: if_split_asm split: option.splits)
  have "length s2 < length s1"
    using i json_digits_shorter [of s1] by (cases s1) (auto split: if_splits)
  moreover have "length s1 \<le> length s" by (simp add: s1_def)
  ultimately show ?thesis
    using json_fraction_shorter [OF f] json_exponent_shorter [OF e] by linarith
qed

lemma json_literal_shorter: "w \<noteq> [] \<Longrightarrow> json_literal w v s = Some (x, r) \<Longrightarrow> length r < length s"
  by (auto simp: json_literal_def cut_prefix_Some_iff)

lemma json_scalar_shorter:
  "map_option (\<lambda>(x, r). (J_Str x, r)) (json_string t []) = Some (v, r) \<Longrightarrow> length r < length t"
  "map_option (\<lambda>(x, r). (J_Num x, r)) (json_number t) = Some (v, r) \<Longrightarrow> length r < length t"
  using json_string_shorter [of t "[]"] json_number_shorter [of t] by auto

lemma json_value_shorter:
  "json_value n d s = Some (v, r) \<Longrightarrow> length r < length s"
  "json_elements n d s acc = Some (v, r) \<Longrightarrow> length r < length s"
  "json_members n d s acc' = Some (v, r) \<Longrightarrow> length r < length s"
proof (induction n arbitrary: d s v r acc acc')
  case (Suc n)
  {
    case 1
    obtain c t where t: "skip_space s = c # t" using 1 by (cases "skip_space s") simp_all
    have ct: "length (c # t) \<le> length s" by (metis skip_space_length t)
    have br: "length r < length s" if "skip_space t = e # r" for e
      using skip_space_Cons_length [OF that] ct by simp
    have lit: "length r < length s" if "json_literal w u (c # t) = Some (v, r)" "w \<noteq> []" for w u
      using json_literal_shorter [OF that(2) that(1)] ct by simp
    from 1 t ct show ?case
      using json_scalar_shorter [of t v r] json_scalar_shorter [of "c # t" v r] Suc(2) [of "d - 1" t "[]" v r]
        Suc(3) [of "d - 1" t "[]" v r] lit br
      by (auto split: if_splits list.splits)
  next
    case 2
    then obtain w t where t: "json_value n d s = Some (w, t)" by (auto split: option.splits)
    with 2 obtain e t' where t': "skip_space t = e # t'" by (auto split: list.splits)
    have "length t' < length s" using Suc(1) [OF t] skip_space_Cons_length [OF t'] by simp
    with 2 t t' show ?case using Suc(2) [of d t' "acc @ [w]" v r] by (auto split: if_splits)
  next
    case 3
    then obtain q t where t: "skip_space s = q # t" by (auto split: list.splits)
    with 3 obtain k u where u: "json_string t [] = Some (k, u)" by (auto split: if_splits option.splits)
    with 3 t obtain e u' where u': "skip_space u = e # u'" by (auto split: if_splits list.splits)
    with 3 t u obtain w x where x: "json_value n d u' = Some (w, x)" by (auto split: if_splits option.splits)
    with 3 t u u' obtain e' y where y: "skip_space x = e' # y" by (auto split: if_splits list.splits)
    have "length y < length s"
      using skip_space_Cons_length [OF t] json_string_shorter [OF u] skip_space_Cons_length [OF u']
        Suc(1) [OF x] skip_space_Cons_length [OF y] by linarith
    with 3 t u u' x y show ?case
      using Suc(3) [of d y "obj_set k w acc'" v r] by (auto split: if_splits)
  }
qed simp_all

text \<open>More fuel does not change the result.\<close>

lemma json_more_fuel:
  "2 * length s < n \<Longrightarrow> json_value n d s = json_value (Suc n) d s"
  "2 * length s + 1 < n \<Longrightarrow> json_elements n d s acc = json_elements (Suc n) d s acc"
  "2 * length s + 1 < n \<Longrightarrow> json_members n d s acc' = json_members (Suc n) d s acc'"
proof (induction n arbitrary: d s acc acc')
  case (Suc n)
  {
    case 1
    show ?case
    proof (cases "skip_space s")
      case (Cons c t)
      have "length t < length s" using skip_space_Cons_length [OF Cons] .
      then have "json_members n (d - 1) t [] = json_members (Suc n) (d - 1) t []"
        "json_elements n (d - 1) t [] = json_elements (Suc n) (d - 1) t []"
        using 1 Suc(2,3) by simp_all
      then show ?thesis
        by (simp only: json_value_Suc Cons list.case)
    qed simp
  next
    case 2
    then have v: "json_value n d s = json_value (Suc n) d s" using Suc(1) by simp
    show ?case
    proof (cases "json_value (Suc n) d s")
      case (Some p)
      then obtain w t where p: "json_value (Suc n) d s = Some (w, t)" by (cases p) simp
      have "json_elements n d t' a = json_elements (Suc n) d t' a" if "skip_space t = e # t'" for e t' a
        using Suc(2) json_value_shorter(1) [OF p] skip_space_Cons_length [OF that] 2 by simp
      then show ?thesis
        by (simp only: json_elements_Suc v p prod.case option.case split: if_split list.split) simp
    qed (simp only: json_elements_Suc v option.case)
  next
    case 3
    show ?case
    proof (cases "skip_space s")
      case q: (Cons q t)
      show ?thesis
      proof (cases "json_string t []")
        case None
        then show ?thesis by (simp only: json_members_Suc q list.case option.case)
      next
        case (Some p)
        then obtain k u where k: "json_string t [] = Some (k, u)" by (cases p) simp
        show ?thesis
        proof (cases "skip_space u")
          case Nil
          then show ?thesis by (simp only: json_members_Suc q k list.case option.case prod.case)
        next
          case e: (Cons e w)
          have lw: "length w + 2 \<le> length s"
            using skip_space_Cons_length [OF q] json_string_shorter [OF k] skip_space_Cons_length [OF e] by simp
          have v: "json_value n d w = json_value (Suc n) d w" using Suc(1) [of w d] lw 3 by simp
          show ?thesis
          proof (cases "json_value (Suc n) d w")
            case None
            then show ?thesis by (simp only: json_members_Suc q k e v list.case option.case prod.case)
          next
            case (Some p)
            then obtain a x where x: "json_value (Suc n) d w = Some (a, x)" by (cases p) simp
            show ?thesis
            proof (cases "skip_space x")
              case Nil
              then show ?thesis by (simp only: json_members_Suc q k e v x list.case option.case prod.case)
            next
              case y: (Cons f y)
              have "json_members n d y (obj_set k a acc') = json_members (Suc n) d y (obj_set k a acc')"
                using Suc(3) [of y d] lw json_value_shorter(1) [OF x] skip_space_Cons_length [OF y] 3 by simp
              then show ?thesis by (simp only: json_members_Suc q k e v x y list.case option.case prod.case)
            qed
          qed
        qed
      qed
    qed simp
  }
qed simp_all

lemma json_fuel: "2 * length s < n \<Longrightarrow> json_value n d s = json_value (2 * length s + 1) d s"
proof (induction n)
  case (Suc n)
  show ?case
  proof (cases "2 * length s < n")
    case True
    with Suc show ?thesis by (simp only: json_more_fuel(1) [OF True, symmetric])
  next
    case False
    with Suc.prems have "n = 2 * length s" by simp
    then show ?thesis by (simp only: Suc_eq_plus1)
  qed
qed simp

text \<open>Unfolding on numerals, for evaluation.\<close>

lemmas [evaluate] = json_value_Suc [where n = "pred_numeral k" for k, folded numeral_eq_Suc]
  json_elements_Suc [where n = "pred_numeral k" for k, folded numeral_eq_Suc]
  json_members_Suc [where n = "pred_numeral k" for k, folded numeral_eq_Suc]

end
