(* ===== verification/Secret_Broker.thy ===== *)
theory Secret_Broker
  imports Needle_Trie Go_Json Host_Pattern
begin

text \<open>
  The secret broker of \<open>internal/secret/broker.go\<close>: validation of the definitions, resolution of
  their values with a lookup that is an argument, and substitution of placeholders in the headers
  of a request.

  A header map is the list of its names and values in the order of one iteration over the Go map.
\<close>

subsection \<open>Representations of a secret\<close>

definition secret_representations :: "string \<Rightarrow> string list" where
  "secret_representations v = (let json_value = json_quote v in
     fold (\<lambda>candidate out. if candidate = [] \<or> candidate \<in> set out then out else out @ [candidate])
       [v, query_escape v, path_escape v,
        trim_suffix (trim_prefix json_value [CHR 0x22]) [CHR 0x22],
        b64_encode b64_std True v, b64_encode b64_std False v,
        b64_encode b64_url True v, b64_encode b64_url False v] [])"

subsection \<open>Definitions and the broker\<close>

record secret_definition =
  d_name :: string
  d_value_env :: string
  d_placeholder :: string
  d_clients :: "string list"
  d_allowed_hosts :: "string list"

record resolved = secret_definition +
  s_value :: string
  s_representations :: "string list"
  s_placeholder_representations :: "string list"
  s_marker :: string

record broker =
  b_secrets :: "resolved list"
  b_trie :: needle_trie

datatype secret_error =
    Secrets_Empty
  | Secret_Bad_Name nat
  | Secret_Duplicate_Name string
  | Secret_No_Placeholder string
  | Secret_Placeholder_Break string
  | Secret_Duplicate_Placeholder string
  | Secret_No_Scope string
  | Secret_Bad_Host string nat pattern_error
  | Secret_Unset string string
  | Secret_Bad_Value string
  | Secret_Duplicate_Value string
  | Secret_Value_Collides string
  | Secret_Placeholder_Collides string

definition valid_name :: "string \<Rightarrow> bool" where
  "valid_name name = (case runes name of [] \<Rightarrow> False
     | r # rs \<Rightarrow> rune_is_lower r \<and> list_all (\<lambda>r. rune_is_lower r \<or> rune_is_digit r \<or> r = 95) rs)"

definition line_break :: string where
  "line_break = [CHR 0x0D, CHR 0x0A]"

definition value_env_of :: "string \<Rightarrow> string \<Rightarrow> string" where
  "value_env_of name env0 = (let env = trim_space env0 in
     if env = [] then ''VEILGATED_'' @ to_upper name
     else if \<not> has_prefix env ''VEILGATED_'' then ''VEILGATED_'' @ env else env)"

definition placeholder_of :: "string \<Rightarrow> string" where
  "placeholder_of p = (let q = trim_prefix p ''VEILGATE_SECRET_'' in
     if \<not> has_prefix q ''VEILGATED_SECRET_'' then ''VEILGATED_SECRET_'' @ q else q)"

text \<open>The body of the loop of \<open>New\<close>: the index, the names, placeholders and values of the
  definitions before this one, and the environment lookup.\<close>

definition resolve_definition ::
  "(string \<Rightarrow> string option) \<Rightarrow> nat \<Rightarrow> string list \<Rightarrow> string list \<Rightarrow> string list \<Rightarrow> secret_definition
    \<Rightarrow> (secret_error, resolved) result" where
  "resolve_definition lookup i names placeholders vals d =
    (let name = trim_space (d_name d) in
     rbind (require (valid_name name) (Secret_Bad_Name i)) (\<lambda>_.
     rbind (require (name \<notin> set names) (Secret_Duplicate_Name name)) (\<lambda>_.
     let env = value_env_of name (d_value_env d); raw = trim_space (d_placeholder d) in
     rbind (require (raw \<noteq> []) (Secret_No_Placeholder name)) (\<lambda>_.
     let placeholder = placeholder_of raw in
     rbind (require (\<not> contains_any placeholder line_break) (Secret_Placeholder_Break name)) (\<lambda>_.
     rbind (require (placeholder \<notin> set placeholders) (Secret_Duplicate_Placeholder name)) (\<lambda>_.
     rbind (require (d_clients d \<noteq> [] \<and> d_allowed_hosts d \<noteq> []) (Secret_No_Scope name)) (\<lambda>_.
     rbind (traverse (\<lambda>j h. wrap_error (Secret_Bad_Host name j) (normalize_pattern h)) (d_allowed_hosts d)) (\<lambda>hosts.
     rbind (of_option (Secret_Unset name env) (lookup env)) (\<lambda>value.
     rbind (require (value \<noteq> []) (Secret_Unset name env)) (\<lambda>_.
     rbind (require (8 \<le> length value \<and> length value \<le> 16 * 1024 \<and> \<not> contains_any value line_break)
              (Secret_Bad_Value name)) (\<lambda>_.
     rbind (require (value \<notin> set vals) (Secret_Duplicate_Value name)) (\<lambda>_.
     rbind (require (value \<notin> set (placeholder # placeholders)) (Secret_Value_Collides name)) (\<lambda>_.
     rbind (require (placeholder \<notin> set vals) (Secret_Placeholder_Collides name)) (\<lambda>_.
     Inr \<lparr>d_name = name, d_value_env = env, d_placeholder = placeholder, d_clients = d_clients d,
       d_allowed_hosts = hosts, s_value = value, s_representations = secret_representations value,
       s_placeholder_representations = secret_representations placeholder,
       s_marker = ''[secret:'' @ name @ '']''\<rparr>))))))))))))))"

fun resolve_definitions ::
  "(string \<Rightarrow> string option) \<Rightarrow> nat \<Rightarrow> string list \<Rightarrow> string list \<Rightarrow> string list \<Rightarrow> secret_definition list
    \<Rightarrow> (secret_error, resolved list) result" where
  "resolve_definitions lookup i names placeholders vals [] = Inr []"
| "resolve_definitions lookup i names placeholders vals (d # ds) =
     rbind (resolve_definition lookup i names placeholders vals d) (\<lambda>r.
     rbind (resolve_definitions lookup (Suc i) (d_name r # names) (d_placeholder r # placeholders)
              (s_value r # vals) ds) (\<lambda>rs. Inr (r # rs)))"

definition source_of :: "resolved \<Rightarrow> needle_source" where
  "source_of r = \<lparr>ns_value = s_value r, ns_representations = s_representations r,
     ns_placeholder_representations = s_placeholder_representations r\<rparr>"

definition new_broker ::
  "secret_definition list \<Rightarrow> (string \<Rightarrow> string option) \<Rightarrow> (secret_error, broker) result" where
  "new_broker defs lookup = (if defs = [] then Inl Secrets_Empty else
     rbind (resolve_definitions lookup 0 [] [] [] defs) (\<lambda>secrets.
       Inr \<lparr>b_secrets = secrets, b_trie = new_needle_trie (map source_of secrets)\<rparr>))"

subsection \<open>Invariants of a resolved policy\<close>

definition secret_ok :: "resolved \<Rightarrow> bool" where
  "secret_ok r \<longleftrightarrow> valid_name (d_name r) \<and> has_prefix (d_placeholder r) ''VEILGATED_SECRET_''
     \<and> \<not> contains_any (d_placeholder r) line_break
     \<and> d_clients r \<noteq> [] \<and> d_allowed_hosts r \<noteq> [] \<and> list_all valid_pattern (d_allowed_hosts r)
     \<and> 8 \<le> length (s_value r) \<and> length (s_value r) \<le> 16384 \<and> \<not> contains_any (s_value r) line_break
     \<and> s_representations r = secret_representations (s_value r)
     \<and> s_placeholder_representations r = secret_representations (d_placeholder r)
     \<and> s_marker r = ''[secret:'' @ d_name r @ '']''"

definition secrets_ok :: "resolved list \<Rightarrow> bool" where
  "secrets_ok rs \<longleftrightarrow> list_all secret_ok rs \<and> distinct (map d_name rs)
     \<and> distinct (map d_placeholder rs @ map s_value rs)"

definition broker_ok :: "broker \<Rightarrow> bool" where
  "broker_ok b \<longleftrightarrow> b_secrets b \<noteq> [] \<and> secrets_ok (b_secrets b)
     \<and> b_trie b = new_needle_trie (map source_of (b_secrets b))"

lemma placeholder_of_prefix: "has_prefix (placeholder_of p) ''VEILGATED_SECRET_''"
  by (simp add: placeholder_of_def Let_def)

lemma resolve_definition_ok:
  assumes "resolve_definition lookup i names placeholders vals d = Inr r"
  shows "secret_ok r" "d_name r \<notin> set names" "d_placeholder r \<notin> set placeholders"
    "s_value r \<notin> set vals" "s_value r \<noteq> d_placeholder r" "s_value r \<notin> set placeholders"
    "d_placeholder r \<notin> set vals"
    "\<exists>env. lookup env = Some (s_value r) \<and> has_prefix env ''VEILGATED_''"
proof -
  have hosts: "list_all valid_pattern hs \<and> (hs = [] \<longleftrightarrow> xs = [])"
    if "traverse (\<lambda>j h. wrap_error (Secret_Bad_Host n j) (normalize_pattern h)) xs = Inr hs" for n xs hs
    using traverse_from_all [OF that, of valid_pattern] that traverse_from_length [OF that]
    by (auto simp: list_all_iff normalize_valid)
  have env: "has_prefix (value_env_of n e) ''VEILGATED_''" for n e
    by (simp add: value_env_of_def Let_def)
  show "secret_ok r" "d_name r \<notin> set names" "d_placeholder r \<notin> set placeholders"
    "s_value r \<notin> set vals" "s_value r \<noteq> d_placeholder r" "s_value r \<notin> set placeholders"
    "d_placeholder r \<notin> set vals"
    "\<exists>env. lookup env = Some (s_value r) \<and> has_prefix env ''VEILGATED_''"
    using assms hosts env placeholder_of_prefix
    by (auto simp: resolve_definition_def Let_def secret_ok_def)
qed

lemma resolve_definitions_ok:
  assumes "resolve_definitions lookup i names placeholders vals ds = Inr rs"
    and "distinct names" "distinct (placeholders @ vals)"
  shows "list_all secret_ok rs \<and> distinct (map d_name rs @ names) \<and> length rs = length ds
    \<and> distinct (map d_placeholder rs @ placeholders @ map s_value rs @ vals)"
  using assms
proof (induction ds arbitrary: i names placeholders vals rs)
  case (Cons d ds)
  obtain r qs where r: "resolve_definition lookup i names placeholders vals d = Inr r"
    "resolve_definitions lookup (Suc i) (d_name r # names) (d_placeholder r # placeholders)
       (s_value r # vals) ds = Inr qs" "rs = r # qs"
    using Cons.prems(1) by auto
  have "distinct (d_name r # names)" "distinct ((d_placeholder r # placeholders) @ s_value r # vals)"
    using resolve_definition_ok [OF r(1)] Cons.prems by auto
  from Cons.IH [OF r(2) this] resolve_definition_ok(1) [OF r(1)] r(3) show ?case by auto
qed simp

lemma new_broker_ok:
  assumes "new_broker defs lookup = Inr b" shows "broker_ok b" "length (b_secrets b) = length defs"
proof -
  from assms obtain rs where rs: "defs \<noteq> []" "resolve_definitions lookup 0 [] [] [] defs = Inr rs"
    "b = \<lparr>b_secrets = rs, b_trie = new_needle_trie (map source_of rs)\<rparr>"
    by (auto simp: new_broker_def split: if_splits)
  from resolve_definitions_ok [OF rs(2)] rs show "broker_ok b" "length (b_secrets b) = length defs"
    by (auto simp: broker_ok_def secrets_ok_def)
qed

subsection \<open>Substitution in one header value\<close>

datatype header_error = Incomplete_Credential | Malformed_Basic | Basic_Without_Password
  | Incomplete_Basic | Incomplete_Value

definition split_colon :: "string \<Rightarrow> string list" where
  "split_colon s = (case cut_on (CHR '':'') s of None \<Rightarrow> [s] | Some (a, b) \<Rightarrow> [a, b])"

text \<open>The loop over the parts of decoded Basic credentials: the parts rewritten and whether one
  was the placeholder; \<open>None\<close> when a part contains the placeholder but is longer.\<close>

fun replace_parts :: "string \<Rightarrow> string \<Rightarrow> string list \<Rightarrow> (string list \<times> bool) option" where
  "replace_parts placeholder secret [] = Some ([], False)"
| "replace_parts placeholder secret (p # ps) =
     (if contains p placeholder \<and> p \<noteq> placeholder then None else
      map_option (\<lambda>(qs, m). if contains p placeholder then (secret # qs, True) else (p # qs, m))
        (replace_parts placeholder secret ps))"

definition replace_basic :: "string \<Rightarrow> string \<Rightarrow> string \<Rightarrow> string \<Rightarrow> (header_error, string \<times> bool) result" where
  "replace_basic value credential placeholder secret =
    (case (case b64_decode b64_std True credential of
             None \<Rightarrow> b64_decode b64_std False credential | Some d \<Rightarrow> Some d) of
       None \<Rightarrow> if contains value placeholder then Inl Malformed_Basic else Inr (value, False)
     | Some decoded \<Rightarrow>
         (let parts = split_colon decoded in
          if length parts \<noteq> 2 \<and> contains decoded placeholder then Inl Basic_Without_Password else
          case replace_parts placeholder secret parts of
            None \<Rightarrow> Inl Incomplete_Basic
          | Some (parts, matched) \<Rightarrow>
              if matched then Inr (''Basic '' @ b64_encode b64_std True (join_with '':'' parts), True)
              else Inr (value, False)))"

definition is_auth_header :: "string \<Rightarrow> bool" where
  "is_auth_header name \<longleftrightarrow> equal_fold name ''Authorization'' \<or> equal_fold name ''Proxy-Authorization''"

definition replace_header_value ::
  "string \<Rightarrow> string \<Rightarrow> string \<Rightarrow> string \<Rightarrow> (header_error, string \<times> bool) result" where
  "replace_header_value name value placeholder secret =
    (if is_auth_header name then
       (case cut_on (CHR '' '') (trim_space value) of
          None \<Rightarrow> if contains value placeholder then Inl Incomplete_Credential else Inr (value, False)
        | Some (scheme, credential) \<Rightarrow>
            (let credential = trim_space credential in
             if equal_fold scheme ''Basic'' then replace_basic value credential placeholder secret
             else if credential = placeholder then Inr (scheme @ '' '' @ secret, True)
             else if contains value placeholder then Inl Incomplete_Credential
             else Inr (value, False)))
     else if value = placeholder then Inr (secret, True)
     else if contains value placeholder then Inl Incomplete_Value
     else Inr (value, False))"

subsection \<open>Substitution in the headers of a request\<close>

type_synonym headers = "(string \<times> string list) list"

datatype apply_error =
    Header_Misuse string string header_error
  | Secret_Over_Plaintext string
  | Secret_Client_Unauthorized string string
  | Secret_Host_Unauthorized string string

text \<open>The first pass over the headers for one secret: whether its placeholder is used.\<close>

definition item_replace :: "string \<Rightarrow> resolved \<Rightarrow> string \<Rightarrow> (apply_error, string \<times> bool) result" where
  "item_replace name item value =
     wrap_error (Header_Misuse name (d_name item))
       (replace_header_value name value (d_placeholder item) (s_value item))"

fun inspect_values :: "string \<Rightarrow> resolved \<Rightarrow> string list \<Rightarrow> bool \<Rightarrow> (apply_error, bool) result" where
  "inspect_values name item [] found = Inr found"
| "inspect_values name item (v # vs) found =
     rbind (item_replace name item v) (\<lambda>(_, matched). inspect_values name item vs (found \<or> matched))"

fun inspect_headers :: "resolved \<Rightarrow> headers \<Rightarrow> bool \<Rightarrow> (apply_error, bool) result" where
  "inspect_headers item [] found = Inr found"
| "inspect_headers item ((name, vs) # hs) found =
     rbind (inspect_values name item vs found) (\<lambda>found. inspect_headers item hs found)"

definition scoped :: "resolved \<Rightarrow> string \<Rightarrow> string \<Rightarrow> bool" where
  "scoped item client host \<longleftrightarrow> client \<in> set (d_clients item) \<and> host_matches (d_allowed_hosts item) host"

definition authorize :: "resolved \<Rightarrow> string \<Rightarrow> string \<Rightarrow> bool \<Rightarrow> (apply_error, unit) result" where
  "authorize item client host secure =
     rbind (require secure (Secret_Over_Plaintext (d_name item))) (\<lambda>_.
     rbind (require (client \<in> set (d_clients item)) (Secret_Client_Unauthorized (d_name item) client)) (\<lambda>_.
     require (host_matches (d_allowed_hosts item) host) (Secret_Host_Unauthorized (d_name item) host)))"

fun authorize_headers :: "resolved list \<Rightarrow> headers \<Rightarrow> string \<Rightarrow> string \<Rightarrow> bool \<Rightarrow> string list
    \<Rightarrow> (apply_error, string list) result" where
  "authorize_headers [] hs client host secure used = Inr used"
| "authorize_headers (item # items) hs client host secure used =
     rbind (inspect_headers item hs False) (\<lambda>found.
     if \<not> found then authorize_headers items hs client host secure used else
     rbind (authorize item client host secure) (\<lambda>_.
     authorize_headers items hs client host secure (used @ [d_name item])))"

text \<open>The second pass, on the staged copy.\<close>

definition stage_values :: "string \<Rightarrow> resolved \<Rightarrow> string list \<Rightarrow> (apply_error, string list) result" where
  "stage_values name item vs = traverse (\<lambda>i v. rbind (item_replace name item v)
     (\<lambda>(replaced, matched). Inr (if matched then replaced else v))) vs"

definition stage_headers :: "resolved \<Rightarrow> headers \<Rightarrow> (apply_error, headers) result" where
  "stage_headers item hs =
     traverse (\<lambda>i (name, vs). rbind (stage_values name item vs) (\<lambda>ws. Inr (name, ws))) hs"

fun stage_all :: "resolved list \<Rightarrow> headers \<Rightarrow> (apply_error, headers) result" where
  "stage_all [] hs = Inr hs"
| "stage_all (item # items) hs = rbind (stage_headers item hs) (\<lambda>hs. stage_all items hs)"

text \<open>\<open>Broker.Apply\<close>: the headers of the request afterwards and the names of the secrets used;
  on an error the headers are those before. \<open>None\<close> is the nil broker.\<close>

definition apply_headers :: "broker option \<Rightarrow> headers \<Rightarrow> string \<Rightarrow> string \<Rightarrow> bool
    \<Rightarrow> (apply_error, headers \<times> string list) result" where
  "apply_headers br hs client host secure = (case br of
     None \<Rightarrow> Inr (hs, [])
   | Some b \<Rightarrow>
       rbind (authorize_headers (b_secrets b) hs client host secure []) (\<lambda>used.
       rbind (stage_all (b_secrets b) hs) (\<lambda>staged. Inr (staged, sorted_names used))))"

text \<open>\<open>Broker.ScopesHost\<close>.\<close>

definition scopes_host :: "broker option \<Rightarrow> string \<Rightarrow> string \<Rightarrow> bool" where
  "scopes_host br client host = (case br of None \<Rightarrow> False
     | Some b \<Rightarrow> list_ex (\<lambda>item. scoped item client host) (b_secrets b))"

lemmas [evaluate] = secret_representations_def valid_name_def line_break_def value_env_of_def
  placeholder_of_def resolve_definition_def source_of_def new_broker_def split_colon_def
  replace_basic_def is_auth_header_def replace_header_value_def item_replace_def authorize_def
  stage_values_def stage_headers_def apply_headers_def scopes_host_def scoped_def

subsection \<open>What an accepted request has passed\<close>

definition uses_secret :: "headers \<Rightarrow> resolved \<Rightarrow> bool" where
  "uses_secret hs item \<longleftrightarrow> (\<exists>(name, vs) \<in> set hs. \<exists>v \<in> set vs.
     \<exists>w. item_replace name item v = Inr (w, True))"

definition readable :: "headers \<Rightarrow> resolved \<Rightarrow> bool" where
  "readable hs item \<longleftrightarrow> (\<forall>(name, vs) \<in> set hs. \<forall>v \<in> set vs. \<exists>r. item_replace name item v = Inr r)"

lemma inspect_values_Inr:
  "inspect_values name item vs f = Inr g \<longleftrightarrow> (\<forall>v \<in> set vs. \<exists>r. item_replace name item v = Inr r)
     \<and> (g \<longleftrightarrow> f \<or> (\<exists>v \<in> set vs. \<exists>w. item_replace name item v = Inr (w, True)))"
proof (induction vs arbitrary: f)
  case (Cons v vs)
  then show ?case by (cases "item_replace name item v") auto
qed auto

lemma inspect_headers_Inr:
  "inspect_headers item hs f = Inr g \<longleftrightarrow> readable hs item \<and> (g \<longleftrightarrow> f \<or> uses_secret hs item)"
proof (induction hs arbitrary: f)
  case (Cons h hs)
  then show ?case
    by (cases h) (auto simp: inspect_values_Inr readable_def uses_secret_def)
qed (auto simp: readable_def uses_secret_def)

lemma authorize_Inr [simp]: "authorize item client host secure = Inr u \<longleftrightarrow> secure \<and> scoped item client host"
  by (auto simp: authorize_def scoped_def)

lemma authorize_headers_Inr:
  "authorize_headers items hs client host secure used = Inr used' \<longleftrightarrow>
     (\<forall>item \<in> set items. readable hs item \<and> (uses_secret hs item \<longrightarrow> secure \<and> scoped item client host))
     \<and> used' = used @ map d_name (filter (uses_secret hs) items)"
  by (induction items arbitrary: used) (auto simp: inspect_headers_Inr)

lemma stage_values_unused:
  assumes "\<forall>v \<in> set vs. \<exists>r. item_replace name item v = Inr r"
    and "\<not> (\<exists>v \<in> set vs. \<exists>w. item_replace name item v = Inr (w, True))"
  shows "stage_values name item vs = Inr vs"
proof -
  have "rbind (item_replace name item v) (\<lambda>(replaced, matched). Inr (if matched then replaced else v)) = Inr v"
    if "v \<in> set vs" for v
    using assms that by (cases "item_replace name item v") auto
  then show ?thesis unfolding stage_values_def by (rule traverse_from_fixed)
qed

lemma stage_headers_unused:
  assumes "readable hs item" and "\<not> uses_secret hs item" shows "stage_headers item hs = Inr hs"
proof -
  have "stage_values name item vs = Inr vs" if "(name, vs) \<in> set hs" for name vs
    using assms that by (intro stage_values_unused) (auto simp: readable_def uses_secret_def)
  then have "(case h of (name, vs) \<Rightarrow> rbind (stage_values name item vs) (\<lambda>ws. Inr (name, ws))) = Inr h"
    if "h \<in> set hs" for h
    using that by (cases h) simp
  then show ?thesis unfolding stage_headers_def by (rule traverse_from_fixed)
qed

lemma stage_all_unused:
  "\<forall>item \<in> set items. readable hs item \<and> \<not> uses_secret hs item \<Longrightarrow> stage_all items hs = Inr hs"
  by (induction items) (simp_all add: stage_headers_unused)

lemma traverse_from_list_all2:
  "traverse_from i f xs = Inr ys \<Longrightarrow> (\<And>i x y. f i x = Inr y \<Longrightarrow> P x y) \<Longrightarrow> list_all2 P xs ys"
  by (induction xs arbitrary: i ys) auto

text \<open>The staged copy keeps the shape of the headers; each value goes through all secrets.\<close>

fun stage_value :: "resolved list \<Rightarrow> string \<Rightarrow> string \<Rightarrow> (apply_error, string) result" where
  "stage_value [] name v = Inr v"
| "stage_value (item # items) name v = rbind (item_replace name item v)
     (\<lambda>(replaced, matched). stage_value items name (if matched then replaced else v))"

fun headers_rel :: "(string \<Rightarrow> string \<Rightarrow> string \<Rightarrow> bool) \<Rightarrow> headers \<Rightarrow> headers \<Rightarrow> bool" where
  "headers_rel P [] [] = True"
| "headers_rel P ((n, vs) # hs) ((n', vs') # hs') \<longleftrightarrow>
     n' = n \<and> list_all2 (P n) vs vs' \<and> headers_rel P hs hs'"
| "headers_rel P _ _ = False"

lemma headers_rel_refl: "(\<And>n v. P n v v) \<Longrightarrow> headers_rel P hs hs"
  by (induction hs) (auto simp: list.rel_refl)

lemma headers_rel_mono:
  "headers_rel P hs hs' \<Longrightarrow> (\<And>n v w. P n v w \<Longrightarrow> Q n v w) \<Longrightarrow> headers_rel Q hs hs'"
  by (induction P hs hs' rule: headers_rel.induct) (auto elim: list_all2_mono)

lemma headers_rel_trans:
  assumes "headers_rel P hs hs'" "headers_rel Q hs' hs''"
    and "\<And>n u v w. P n u v \<Longrightarrow> Q n v w \<Longrightarrow> R n u w"
  shows "headers_rel R hs hs''"
  using assms(1,2)
proof (induction hs arbitrary: hs' hs'')
  case Nil
  then show ?case by (cases hs'; cases hs'') simp_all
next
  case (Cons h hs)
  then obtain n vs vs' gs where g: "h = (n, vs)" "hs' = (n, vs') # gs" "list_all2 (P n) vs vs'" "headers_rel P hs gs"
    by (cases h; cases hs') auto
  with Cons.prems(2) obtain ws ks where k: "hs'' = (n, ws) # ks" "list_all2 (Q n) vs' ws" "headers_rel Q gs ks"
    by (cases hs'') auto
  have "list_all2 (R n) vs ws"
    by (rule list_all2_trans [OF _ g(3) k(2)]) (blast intro: assms(3))
  with Cons.IH [OF g(4) k(3)] g k show ?case by simp
qed

definition staged :: "resolved \<Rightarrow> string \<Rightarrow> string \<Rightarrow> string \<Rightarrow> bool" where
  "staged item n v w \<longleftrightarrow> (\<exists>r m. item_replace n item v = Inr (r, m) \<and> w = (if m then r else v))"

lemma stage_values_staged:
  assumes "stage_values n item vs = Inr ws" shows "list_all2 (staged item n) vs ws"
  using assms unfolding stage_values_def
proof (rule traverse_from_list_all2)
  fix i v w
  assume "rbind (item_replace n item v) (\<lambda>(replaced, matched). Inr (if matched then replaced else v)) = Inr w"
  moreover from this obtain r m where "item_replace n item v = Inr (r, m)"
    by (metis rbind_Inr_iff surj_pair)
  ultimately show "staged item n v w" by (simp add: staged_def)
qed

lemma stage_headers_values: "stage_headers item hs = Inr hs' \<Longrightarrow> headers_rel (staged item) hs hs'"
proof -
  have "traverse_from i (\<lambda>i (name, vs). rbind (stage_values name item vs) (\<lambda>ws. Inr (name, ws))) hs = Inr hs'
    \<Longrightarrow> headers_rel (staged item) hs hs'" for i
  proof (induction hs arbitrary: i hs')
    case (Cons h hs)
    then show ?case by (cases h) (auto intro: stage_values_staged)
  qed simp
  then show "stage_headers item hs = Inr hs' \<Longrightarrow> headers_rel (staged item) hs hs'"
    unfolding stage_headers_def by blast
qed

lemma stage_all_values:
  "stage_all items hs = Inr hs' \<Longrightarrow> headers_rel (\<lambda>n v w. stage_value items n v = Inr w) hs hs'"
proof (induction items arbitrary: hs)
  case Nil
  then show ?case by (simp add: headers_rel_refl)
next
  case (Cons item items)
  then obtain hs1 where hs1: "stage_headers item hs = Inr hs1" "stage_all items hs1 = Inr hs'" by auto
  show ?case
  proof (rule headers_rel_trans [OF stage_headers_values [OF hs1(1)] Cons.IH [OF hs1(2)]])
    fix n u v w
    assume s: "staged item n u v" and w: "stage_value items n v = Inr w"
    from s obtain r m where "item_replace n item u = Inr (r, m)" "v = (if m then r else u)"
      unfolding staged_def by blast
    with w show "stage_value (item # items) n u = Inr w" by simp
  qed
qed

lemma headers_rel_names: "headers_rel P hs hs' \<Longrightarrow> map fst hs' = map fst hs"
  by (induction P hs hs' rule: headers_rel.induct) auto

lemma apply_headers_Inr:
  assumes "apply_headers (Some b) hs client host secure = Inr (hs', names)"
  shows "\<forall>item \<in> set (b_secrets b). readable hs item \<and> (uses_secret hs item \<longrightarrow> secure \<and> scoped item client host)"
    and "names = sorted_names (map d_name (filter (uses_secret hs) (b_secrets b)))"
    and "stage_all (b_secrets b) hs = Inr hs'"
  using assms by (auto simp: apply_headers_def authorize_headers_Inr)

text \<open>Headers other than the authorization headers.\<close>

lemma stage_value_plain:
  assumes "\<not> is_auth_header name" and "stage_value items name v = Inr w"
    and "\<forall>a \<in> set items. \<forall>b \<in> set items. s_value a \<noteq> d_placeholder b" and "distinct (map d_placeholder items)"
  shows "(case find (\<lambda>item. d_placeholder item = v) items of
      Some item \<Rightarrow> w = s_value item
    | None \<Rightarrow> w = v \<and> (\<forall>item \<in> set items. \<not> contains v (d_placeholder item)))"
  using assms(2-4)
proof (induction items arbitrary: v)
  case (Cons item items)
  have step: "item_replace name item v = (if v = d_placeholder item then Inr (s_value item, True)
      else if contains v (d_placeholder item) then Inl (Header_Misuse name (d_name item) Incomplete_Value)
      else Inr (v, False))" for v
    using assms(1) by (simp add: item_replace_def replace_header_value_def wrap_error_def)
  show ?case
  proof (cases "v = d_placeholder item")
    case True
    have "find (\<lambda>i. d_placeholder i = s_value item) items = None"
      using Cons.prems(2) by (fastforce simp: find_None_iff)
    moreover have "stage_value items name (s_value item) = Inr w" using Cons.prems(1) True by (simp add: step)
    ultimately show ?thesis using Cons.IH [of "s_value item"] Cons.prems True by simp
  next
    case False
    with Cons.prems(1) have "\<not> contains v (d_placeholder item)" "stage_value items name v = Inr w"
      by (auto simp: step split: if_splits)
    with Cons.IH [of v] Cons.prems False show ?thesis by (auto split: option.splits)
  qed
qed simp


text \<open>With the invariants of \<open>New\<close>, every value of a header other than the authorization
  headers is afterwards the value of the secret whose placeholder it was exactly, a secret in
  scope, or it is unchanged and contains no placeholder.\<close>

theorem apply_plain_values:
  assumes "broker_ok b" and "apply_headers (Some b) hs client host secure = Inr (hs', names)"
  shows "headers_rel (\<lambda>name v w. \<not> is_auth_header name \<longrightarrow>
     (case find (\<lambda>item. d_placeholder item = v) (b_secrets b) of
        Some item \<Rightarrow> w = s_value item
      | None \<Rightarrow> w = v \<and> (\<forall>item \<in> set (b_secrets b). \<not> contains v (d_placeholder item)))) hs hs'"
proof -
  have d: "\<forall>a \<in> set (b_secrets b). \<forall>c \<in> set (b_secrets b). s_value a \<noteq> d_placeholder c"
    "distinct (map d_placeholder (b_secrets b))"
    using assms(1) by (auto simp: broker_ok_def secrets_ok_def)
  show ?thesis
    by (rule headers_rel_mono [OF stage_all_values [OF apply_headers_Inr(3) [OF assms(2)]]])
      (blast intro: stage_value_plain [OF _ _ d])
qed

subsection \<open>A policy with two secrets\<close>

definition secret_of :: "string \<Rightarrow> string \<Rightarrow> string \<Rightarrow> string \<Rightarrow> string \<Rightarrow> resolved" where
  "secret_of name env placeholder host value = \<lparr>d_name = name, d_value_env = env, d_placeholder = placeholder,
     d_clients = [''agent''], d_allowed_hosts = [host], s_value = value,
     s_representations = secret_representations value,
     s_placeholder_representations = secret_representations placeholder,
     s_marker = ''[secret:'' @ name @ '']''\<rparr>"

definition sample_secrets :: "resolved list" where
  "sample_secrets = [
     secret_of ''a'' ''VEILGATED_A'' ''VEILGATED_SECRET_a'' ''a.example.com'' '' VEILGATED_SECRET_b'',
     secret_of ''b'' ''VEILGATED_B'' ''VEILGATED_SECRET_b'' ''b.example.com'' ''hunter2hunter2'']"

definition sample_broker :: broker where
  "sample_broker = \<lparr>b_secrets = sample_secrets, b_trie = new_needle_trie (map source_of sample_secrets)\<rparr>"

definition sample_defs :: "secret_definition list" where
  "sample_defs = [
     \<lparr>d_name = '' a'', d_value_env = '''', d_placeholder = ''a'', d_clients = [''agent''],
       d_allowed_hosts = [''A.example.com.'']\<rparr>,
     \<lparr>d_name = ''b'', d_value_env = ''B'', d_placeholder = ''VEILGATE_SECRET_b'', d_clients = [''agent''],
       d_allowed_hosts = [''b.example.com'']\<rparr>]"

definition sample_env :: "string \<Rightarrow> string option" where
  "sample_env = [''VEILGATED_A'' \<mapsto> '' VEILGATED_SECRET_b'', ''VEILGATED_B'' \<mapsto> ''hunter2hunter2'']"

lemma sample_names: "valid_name ''a''" "valid_name ''b''" "trim_space '' a'' = ''a''" "trim_space ''b'' = ''b''"
  by (simp_all add: evaluate rune_is_lower_def rune_is_digit_def)

lemma sample_hosts: "normalize_pattern ''A.example.com.'' = Inr ''a.example.com''"
  "normalize_pattern ''b.example.com'' = Inr ''b.example.com''"
  by (simp_all add: evaluate)

lemma sample_texts: "value_env_of ''a'' '''' = ''VEILGATED_A''" "value_env_of ''b'' ''B'' = ''VEILGATED_B''"
  "trim_space ''VEILGATE_SECRET_b'' = ''VEILGATE_SECRET_b''" "trim_space ''a'' = ''a''"
  "placeholder_of ''a'' = ''VEILGATED_SECRET_a''" "placeholder_of ''VEILGATE_SECRET_b'' = ''VEILGATED_SECRET_b''"
  "\<not> contains_any ''VEILGATED_SECRET_a'' line_break" "\<not> contains_any ''VEILGATED_SECRET_b'' line_break"
  "\<not> contains_any '' VEILGATED_SECRET_b'' line_break" "\<not> contains_any ''hunter2hunter2'' line_break"
  by (simp_all add: evaluate)

lemma sample_resolves:
  "resolve_definition sample_env 0 [] [] [] (sample_defs ! 0) = Inr (sample_secrets ! 0)"
  "resolve_definition sample_env (Suc 0) [''a''] [''VEILGATED_SECRET_a''] ['' VEILGATED_SECRET_b''] (sample_defs ! Suc 0)
     = Inr (sample_secrets ! Suc 0)"
  by (simp_all add: resolve_definition_def sample_env_def sample_defs_def sample_secrets_def secret_of_def
      sample_names sample_hosts sample_texts Let_def require_def)

lemma sample_fields:
  "d_name (sample_secrets ! 0) = ''a''" "d_placeholder (sample_secrets ! 0) = ''VEILGATED_SECRET_a''"
  "s_value (sample_secrets ! 0) = '' VEILGATED_SECRET_b''"
  by (simp_all add: sample_secrets_def secret_of_def)

lemma sample_new: "new_broker sample_defs sample_env = Inr sample_broker"
proof -
  have s: "sample_defs = [sample_defs ! 0, sample_defs ! Suc 0]"
    "sample_secrets = [sample_secrets ! 0, sample_secrets ! Suc 0]"
    by (simp_all add: sample_defs_def sample_secrets_def)
  have "resolve_definitions sample_env 0 [] [] [] [sample_defs ! 0, sample_defs ! Suc 0]
      = Inr [sample_secrets ! 0, sample_secrets ! Suc 0]"
    by (simp only: resolve_definitions.simps sample_resolves sample_fields rbind.simps)
  then have "resolve_definitions sample_env 0 [] [] [] sample_defs = Inr sample_secrets"
    by (simp only: s [symmetric])
  then show ?thesis by (simp add: new_broker_def sample_broker_def) (simp add: sample_defs_def)
qed

text \<open>C18. A broker made by \<open>New\<close> holds one resolved secret per definition, with valid distinct
  names, prefixed distinct placeholders, values of 8 to 16384 bytes without line breaks that differ
  from each other and from every placeholder, normalized hosts, and the trie of its secrets.\<close>

theorem new_broker_invariant:
  assumes "new_broker defs lookup = Inr b" shows "broker_ok b \<and> length (b_secrets b) = length defs"
  using new_broker_ok [OF assms] by (rule conjI)

lemma new_broker_invariant_witness: "broker_ok sample_broker \<and> length (b_secrets sample_broker) = length sample_defs"
  by (rule new_broker_invariant [OF sample_new])

text \<open>A header in which the placeholder of the first secret is used.\<close>

definition sample_request :: headers where
  "sample_request = [(''X-Api-Key'', [''VEILGATED_SECRET_a'']), (''Accept'', [''text/plain''])]"

definition sample_sent :: headers where
  "sample_sent = [(''X-Api-Key'', ['' VEILGATED_SECRET_b'']), (''Accept'', [''text/plain''])]"

definition other_broker :: broker where
  "other_broker = (let ss = [secret_of ''a'' ''VEILGATED_A'' ''VEILGATED_SECRET_a'' ''a.example.com'' ''topsecret'']
     in \<lparr>b_secrets = ss, b_trie = new_needle_trie (map source_of ss)\<rparr>)"

lemma other_apply:
  "apply_headers (Some other_broker) sample_request ''agent'' ''a.example.com'' True
    = Inr ([(''X-Api-Key'', [''topsecret'']), (''Accept'', [''text/plain''])], [''a''])"
  by (simp add: other_broker_def secret_of_def sample_request_def evaluate sorted_names_def sublist_code ex_bool_eq
      del: secret_representations_def new_needle_trie_def)


lemma other_ok: "broker_ok other_broker"
  by (simp add: broker_ok_def other_broker_def secrets_ok_def secret_ok_def secret_of_def evaluate
      rune_is_lower_def rune_is_digit_def
      del: secret_representations_def new_needle_trie_def source_of_def)

lemma apply_plain_values_witness:
  "headers_rel (\<lambda>name v w. \<not> is_auth_header name \<longrightarrow>
     (case find (\<lambda>item. d_placeholder item = v) (b_secrets other_broker) of
        Some item \<Rightarrow> w = s_value item
      | None \<Rightarrow> w = v \<and> (\<forall>item \<in> set (b_secrets other_broker). \<not> contains v (d_placeholder item))))
    sample_request [(''X-Api-Key'', [''topsecret'']), (''Accept'', [''text/plain''])]"
  by (rule apply_plain_values [OF other_ok other_apply])

text \<open>The second pass of \<open>Apply\<close> reads values that the first secrets have already written,
  without authorizing again: with the accepted policy above, whose first value is the second
  placeholder behind a blank, a bearer credential for the first host releases the value of the
  second secret there, although that secret is scoped to another host and is not reported.\<close>

theorem apply_chained_release:
  "new_broker sample_defs sample_env = Inr sample_broker \<and>
   apply_headers (Some sample_broker) [(''Authorization'', [''Bearer VEILGATED_SECRET_a''])]
     ''agent'' ''a.example.com'' True
   = Inr ([(''Authorization'', [''Bearer hunter2hunter2''])], [''a'']) \<and>
   \<not> scoped (sample_secrets ! 1) ''agent'' ''a.example.com''"
  by (simp add: sample_new) (simp add: sample_broker_def sample_secrets_def secret_of_def evaluate sorted_names_def sublist_code ex_bool_eq
      del: secret_representations_def new_needle_trie_def)

end
