(* ===== verification/Secret_Transform.thy ===== *)
theory Secret_Transform
  imports Secret_Broker "HOL-Library.Multiset"
begin

text \<open>
  Substitution in queries and bodies, scrubbing and sanitizing, \<open>internal/secret/transform.go\<close>.
\<close>

subsection \<open>Masked renderings\<close>

text \<open>The loop over mask characters: bytes and number of masks read.\<close>

definition is_mask :: "rune \<Rightarrow> bool" where
  "is_mask r \<longleftrightarrow> r = 42 \<or> r = 120 \<or> r = 88 \<or> r = 8226 \<or> r = 35"

function skip_masks :: "string \<Rightarrow> nat \<times> nat" where
  "skip_masks data =
    (if data = [] \<or> \<not> is_mask (fst (decode_rune data)) then (0, 0)
     else let w = snd (decode_rune data); (n, k) = skip_masks (drop w data) in (w + n, Suc k))"
  by pat_completeness auto
termination
  using decode_rune_width(1)
  by (relation "measure length") (auto, metis Suc_le_eq diff_less length_greater_0_conv)

declare skip_masks.simps [simp del]

text \<open>The inner loop over suffix lengths, from \<open>k\<close> down to four.\<close>

fun masked_suffix :: "string \<Rightarrow> string \<Rightarrow> nat \<Rightarrow> nat option" where
  "masked_suffix rest value k = (if k < 4 then None
     else if has_prefix rest (drop (length value - k) value) then Some k
     else masked_suffix rest value (k - 1))"

text \<open>The outer loop over prefix lengths, from \<open>p\<close> down to four.\<close>

fun masked_loop :: "string \<Rightarrow> string \<Rightarrow> nat \<Rightarrow> nat" where
  "masked_loop data value p = (if p < 4 then 0
     else if \<not> has_prefix data (take p value) then masked_loop data value (p - 1)
     else let (n, masks) = skip_masks (drop p data); offset = p + n in
       if masks < 3 then masked_loop data value (p - 1)
       else case masked_suffix (drop offset data) value (min 8 (length value - p)) of
         Some k \<Rightarrow> offset + k
       | None \<Rightarrow> masked_loop data value (p - 1))"

declare masked_suffix.simps [simp del] masked_loop.simps [simp del]

definition masked_secret_length :: "string \<Rightarrow> string \<Rightarrow> nat" where
  "masked_secret_length data value = (if length value < 8 then 0
     else masked_loop data value (min 16 (length value - 4)))"

subsection \<open>Scrub and Sanitize\<close>

definition scope_for :: "broker \<Rightarrow> string \<Rightarrow> string \<Rightarrow> bool list" where
  "scope_for b client host = map (\<lambda>item. scoped item client host) (b_secrets b)"

fun masked_at_loop :: "resolved list \<Rightarrow> string \<Rightarrow> nat list \<Rightarrow> bool list option \<Rightarrow> nat \<times> nat" where
  "masked_at_loop secrets data [] scope = (0, 0)"
| "masked_at_loop secrets data (i # is) scope =
     (if (case scope of None \<Rightarrow> False | Some s \<Rightarrow> \<not> s ! i) then masked_at_loop secrets data is scope
      else let n = masked_secret_length data (s_value (secrets ! i)) in
        if 0 < n then (n, i) else masked_at_loop secrets data is scope)"

text \<open>The scanning loop of both operations: \<open>find_match\<close> gives the length and the secret of a
  match at an offset (length zero for none), \<open>out\<close> is the output so far, which lags behind at
  \<open>copied\<close>; \<open>used\<close> collects the names.\<close>

function scan_loop :: "(string \<Rightarrow> nat \<times> nat) \<Rightarrow> (nat \<Rightarrow> string) \<Rightarrow> (nat \<Rightarrow> string) \<Rightarrow> string
    \<Rightarrow> nat \<Rightarrow> nat \<Rightarrow> string \<Rightarrow> string list \<Rightarrow> string \<times> string list" where
  "scan_loop find_match text_of name_of data offset copied out used =
    (if length data \<le> offset then (out @ drop copied data, used)
     else let m = find_match (drop offset data) in
       if fst m = 0 then scan_loop find_match text_of name_of data (offset + 1) copied out used
       else scan_loop find_match text_of name_of data (offset + fst m) (offset + fst m)
              (out @ take (offset - copied) (drop copied data) @ text_of (snd m)) (used @ [name_of (snd m)]))"
  by pat_completeness auto
termination
  by (relation "measure (\<lambda>(f, t, n, data, offset, _). length data - offset)") auto

declare scan_loop.simps [simp del]

definition scrub_match :: "broker \<Rightarrow> bool list \<Rightarrow> string \<Rightarrow> nat \<times> nat" where
  "scrub_match b scope data =
    (let (len, secret, ms) = longest (b_trie b) data kind_value (Some scope) in
     if len = 0 then masked_at_loop (b_secrets b) data ms (Some scope) else (len, secret))"

definition scrub :: "broker option \<Rightarrow> string \<Rightarrow> string \<Rightarrow> string \<Rightarrow> string \<times> string list" where
  "scrub br data client host = (case br of
     None \<Rightarrow> (data, [])
   | Some b \<Rightarrow> if data = [] then (data, []) else
       (let (out, used) = scan_loop (scrub_match b (scope_for b client host))
              (\<lambda>i. d_placeholder (b_secrets b ! i)) (\<lambda>i. d_name (b_secrets b ! i)) data 0 0 [] [] in
        (out, sorted_names used)))"

definition sanitize_match :: "broker \<Rightarrow> string \<Rightarrow> nat \<times> nat" where
  "sanitize_match b data =
    (let (len, secret, _) = longest (b_trie b) data (or kind_value kind_placeholder) None in (len, secret))"

definition sanitize :: "broker option \<Rightarrow> string \<Rightarrow> string" where
  "sanitize br data = (case br of
     None \<Rightarrow> data
   | Some b \<Rightarrow> if data = [] then data else
       fst (scan_loop (sanitize_match b) (\<lambda>i. s_marker (b_secrets b ! i)) (\<lambda>i. []) data 0 0 [] []))"

subsection \<open>Placeholders in data\<close>

definition contains_placeholder :: "broker option \<Rightarrow> string \<Rightarrow> bool" where
  "contains_placeholder br data = (case br of None \<Rightarrow> False
     | Some b \<Rightarrow> list_ex (\<lambda>item. contains data (d_placeholder item)) (b_secrets b))"

definition contains_scoped_placeholder :: "broker \<Rightarrow> string \<Rightarrow> bool list \<Rightarrow> bool" where
  "contains_scoped_placeholder b data scope =
     list_ex (\<lambda>(item, ok). ok \<and> contains data (d_placeholder item)) (zip (b_secrets b) scope)"

definition placeholder_names_for :: "broker option \<Rightarrow> string \<Rightarrow> string \<Rightarrow> string \<Rightarrow> string list" where
  "placeholder_names_for br data client host = (case br of None \<Rightarrow> []
     | Some b \<Rightarrow> map (\<lambda>(item, ok). d_name item)
         (filter (\<lambda>(item, ok). ok \<and> contains data (d_placeholder item))
            (zip (b_secrets b) (scope_for b client host))))"

subsection \<open>Substitution in values, queries and bodies\<close>

datatype substitute_error =
    Value_Over_Plaintext string
  | Value_Client string string
  | Value_Host string string
  | Value_Embedded string
  | Query_Malformed | Query_Name | Json_Malformed | Json_Trailing | Json_Name
  | Form_Malformed | Form_Name | Body_Unsupported

fun substitute_value :: "resolved list \<Rightarrow> string \<Rightarrow> string \<Rightarrow> string \<Rightarrow> bool \<Rightarrow> bool
    \<Rightarrow> (substitute_error, string \<times> string option) result" where
  "substitute_value [] value client host secure strict = Inr (value, None)"
| "substitute_value (item # items) value client host secure strict =
     (if value = d_placeholder item then
        (if \<not> strict \<and> \<not> scoped item client host
         then substitute_value items value client host secure strict
         else if \<not> secure then Inl (Value_Over_Plaintext (d_name item))
         else if client \<notin> set (d_clients item) then Inl (Value_Client (d_name item) client)
         else if \<not> host_matches (d_allowed_hosts item) host then Inl (Value_Host (d_name item) host)
         else Inr (s_value item, Some (d_name item)))
      else if strict \<and> contains value (d_placeholder item) then Inl (Value_Embedded (d_name item))
      else substitute_value items value client host secure strict)"

text \<open>The loop over the entries of one name, and over the names, of query or form values. The
  test of the names and the strictness are those of the caller.\<close>

fun substitute_entries :: "(string \<Rightarrow> (substitute_error, string \<times> string option) result) \<Rightarrow> string list
    \<Rightarrow> (substitute_error, string list \<times> string list) result" where
  "substitute_entries f [] = Inr ([], [])"
| "substitute_entries f (v # vs) =
     rbind (f v) (\<lambda>(w, item). rbind (substitute_entries f vs) (\<lambda>(ws, used).
       Inr (w # ws, (case item of None \<Rightarrow> used | Some n \<Rightarrow> n # used))))"

fun substitute_values :: "(string \<Rightarrow> (substitute_error, unit) result)
    \<Rightarrow> (string \<Rightarrow> (substitute_error, string \<times> string option) result) \<Rightarrow> url_values
    \<Rightarrow> (substitute_error, url_values \<times> string list) result" where
  "substitute_values check f [] = Inr ([], [])"
| "substitute_values check f ((name, entries) # m) =
     rbind (check name) (\<lambda>_. rbind (substitute_entries f entries) (\<lambda>(ws, used).
       rbind (substitute_values check f m) (\<lambda>(m', used').
         Inr ((name, ws) # m', used @ used'))))"

text \<open>\<open>SubstituteQuery\<close>: the raw query afterwards and the names used.\<close>

definition substitute_query :: "broker option \<Rightarrow> string \<Rightarrow> string \<Rightarrow> string \<Rightarrow> bool
    \<Rightarrow> (substitute_error, string \<times> string list) result" where
  "substitute_query br raw client host secure = (case br of
     None \<Rightarrow> Inr (raw, [])
   | Some b \<Rightarrow> if raw = [] then Inr (raw, []) else
       rbind (of_option Query_Malformed (parse_query raw)) (\<lambda>vals.
       rbind (substitute_values (\<lambda>name. require (\<not> contains_placeholder br name) Query_Name)
                (\<lambda>v. substitute_value (b_secrets b) v client host secure True) vals) (\<lambda>(vals', used).
         let names = sorted_names used in
         Inr (if names \<noteq> [] then values_encode vals' else raw, names))))"

text \<open>\<open>transformJSON\<close>; the names of the secrets used are returned with the value.\<close>

fun transform_json :: "(string \<Rightarrow> (substitute_error, unit) result)
      \<Rightarrow> (string \<Rightarrow> (substitute_error, string \<times> string option) result) \<Rightarrow> json
      \<Rightarrow> (substitute_error, json \<times> string list) result"
  and transform_array :: "(string \<Rightarrow> (substitute_error, unit) result)
      \<Rightarrow> (string \<Rightarrow> (substitute_error, string \<times> string option) result) \<Rightarrow> json list
      \<Rightarrow> (substitute_error, json list \<times> string list) result"
  and transform_object :: "(string \<Rightarrow> (substitute_error, unit) result)
      \<Rightarrow> (string \<Rightarrow> (substitute_error, string \<times> string option) result) \<Rightarrow> (string \<times> json) list
      \<Rightarrow> (substitute_error, (string \<times> json) list \<times> string list) result" where
  "transform_json check f (J_Str s) = rbind (f s) (\<lambda>(w, item).
     Inr (J_Str w, (case item of None \<Rightarrow> [] | Some n \<Rightarrow> [n])))"
| "transform_json check f (J_Arr vs) = rbind (transform_array check f vs) (\<lambda>(ws, used). Inr (J_Arr ws, used))"
| "transform_json check f (J_Obj ms) = rbind (transform_object check f ms) (\<lambda>(ns, used). Inr (J_Obj ns, used))"
| "transform_json check f v = Inr (v, [])"
| "transform_array check f [] = Inr ([], [])"
| "transform_array check f (v # vs) = rbind (transform_json check f v) (\<lambda>(w, used).
     rbind (transform_array check f vs) (\<lambda>(ws, used'). Inr (w # ws, used @ used')))"
| "transform_object check f [] = Inr ([], [])"
| "transform_object check f ((k, v) # ms) = rbind (check k) (\<lambda>_. rbind (transform_json check f v) (\<lambda>(w, used).
     rbind (transform_object check f ms) (\<lambda>(ns, used'). Inr ((k, w) # ns, used @ used'))))"

definition parse_media_type :: "string \<Rightarrow> string" where
  "parse_media_type ct = (case mime_media_type ct of None \<Rightarrow> [] | Some m \<Rightarrow> to_lower m)"

definition json_media :: "string \<Rightarrow> bool" where
  "json_media m \<longleftrightarrow> m = ''application/json'' \<or> has_suffix m ''+json''"

abbreviation form_media :: string where
  "form_media \<equiv> ''application/x-www-form-urlencoded''"

definition supported_media_type :: "string \<Rightarrow> bool" where
  "supported_media_type ct = (let m = parse_media_type ct in json_media m \<or> m = form_media)"

text \<open>\<open>SubstituteBody\<close>: body, names and whether the media type is safe for text capture; an error
  carries that flag too. \<open>json.Marshal\<close> of a decoded tree does not fail.\<close>

definition substitute_body :: "broker \<Rightarrow> string \<Rightarrow> string \<Rightarrow> string \<Rightarrow> string \<Rightarrow> bool
    \<Rightarrow> (substitute_error \<times> bool, string \<times> string list \<times> bool) result" where
  "substitute_body b content_type body client host secure =
    (let scope = scope_for b client host in
     if body = [] \<or> \<not> list_ex id scope then Inr (body, [], supported_media_type content_type) else
     let media_type = parse_media_type content_type;
         subst = (\<lambda>v. substitute_value (b_secrets b) v client host secure False) in
     if json_media media_type then
       wrap_error (\<lambda>e. (e, True))
        (rbind (of_option Json_Malformed (json_decode body)) (\<lambda>(value, rest).
         rbind (require (json_at_end rest) Json_Trailing) (\<lambda>_.
         rbind (transform_json (\<lambda>name. require (\<not> contains_scoped_placeholder b name scope) Json_Name)
                  subst value) (\<lambda>(transformed, used).
           let names = sorted_names used in
           Inr (if names = [] then body else json_marshal transformed, names, True)))))
     else if media_type = form_media then
       wrap_error (\<lambda>e. (e, True))
        (rbind (of_option Form_Malformed (parse_query body)) (\<lambda>vals.
         rbind (substitute_values (\<lambda>name. require (\<not> contains_scoped_placeholder b name scope) Form_Name)
                  subst vals) (\<lambda>(vals', used).
           let names = sorted_names used in
           Inr (if names = [] then body else values_encode vals', names, True))))
     else if contains_scoped_placeholder b body scope then Inl (Body_Unsupported, False)
     else Inr (body, [], False))"

definition substitute_json_message :: "broker \<Rightarrow> string \<Rightarrow> string \<Rightarrow> string
    \<Rightarrow> (substitute_error, string \<times> string list) result" where
  "substitute_json_message b message client host =
    (case substitute_body b ''application/json'' message client host True of
       Inl (e, _) \<Rightarrow> Inl e | Inr (body, names, _) \<Rightarrow> Inr (body, names))"

subsection \<open>Bounds of masked renderings\<close>

lemma skip_masks_bound: "fst (skip_masks data) \<le> length data"
proof (induction data rule: skip_masks.induct)
  case (1 data)
  show ?case
  proof (cases "data = [] \<or> \<not> is_mask (fst (decode_rune data))")
    case True
    then show ?thesis by (simp add: skip_masks.simps [of data])
  next
    case False
    then show ?thesis
      using 1 [OF False refl] decode_rune_width(2) [of data]
      by (cases "skip_masks (drop (snd (decode_rune data)) data)")
        (simp add: skip_masks.simps [of data] Let_def)
  qed
qed

lemma masked_suffix_Some:
  "masked_suffix rest value k = Some n \<Longrightarrow> 4 \<le> n \<and> n \<le> k \<and> has_prefix rest (drop (length value - n) value)"
proof (induction rest "value" k rule: masked_suffix.induct)
  case (1 rest v k)
  then show ?case by (auto simp: masked_suffix.simps [of rest v k] split: if_splits)
qed

lemma masked_loop_match:
  assumes "0 < masked_loop data value p" and "p \<le> length value"
  shows "\<exists>q n k. 4 \<le> q \<and> q \<le> p \<and> prefix (take q value) data \<and> skip_masks (drop q data) = (n, k) \<and> 3 \<le> k
    \<and> (\<exists>m. 4 \<le> m \<and> m \<le> 8 \<and> q + m \<le> length value \<and> has_prefix (drop (q + n) data) (drop (length value - m) value)
         \<and> masked_loop data value p = q + n + m)"
  using assms
proof (induction data "value" p rule: masked_loop.induct)
  case (1 data v p)
  have p: "4 \<le> p" using 1(4) by (auto simp: masked_loop.simps [of data v p] split: if_splits)
  obtain n k where nk: "skip_masks (drop p data) = (n, k)" by force
  have rec: ?case if "0 < masked_loop data v (p - 1)" "masked_loop data v p = masked_loop data v (p - 1)"
      and IH: "0 < masked_loop data v (p - 1) \<Longrightarrow> p - 1 \<le> length v \<Longrightarrow>
        \<exists>q n k. 4 \<le> q \<and> q \<le> p - 1 \<and> prefix (take q v) data \<and> skip_masks (drop q data) = (n, k) \<and> 3 \<le> k
        \<and> (\<exists>m. 4 \<le> m \<and> m \<le> 8 \<and> q + m \<le> length v \<and> has_prefix (drop (q + n) data) (drop (length v - m) v)
         \<and> masked_loop data v (p - 1) = q + n + m)"
  proof -
    have "p - 1 \<le> length v" using 1(5) by simp
    from IH [OF that(1) this] obtain q n k m where "4 \<le> q" "q \<le> p - 1" "prefix (take q v) data"
      "skip_masks (drop q data) = (n, k)" "3 \<le> k" "4 \<le> m" "m \<le> 8" "q + m \<le> length v"
      "has_prefix (drop (q + n) data) (drop (length v - m) v)"
      "masked_loop data v (p - 1) = q + n + m" by blast
    moreover from this(2) have "q \<le> p" by simp
    ultimately show ?thesis unfolding that(2) by blast
  qed
  show ?case
  proof (cases "prefix (take p v) data \<and> 3 \<le> k")
    case False
    then have e: "masked_loop data v p = masked_loop data v (p - 1)"
      using p nk by (auto simp: masked_loop.simps [of data v p] Let_def)
    show ?thesis
    proof (cases "prefix (take p v) data")
      case True
      with False have "k < 3" by simp
      with True p nk e 1(4) show ?thesis by (intro rec 1(2)) (auto simp: Let_def)
    next
      case False
      with p e 1(4) show ?thesis by (intro rec 1(1)) auto
    qed
  next
    case t: True
    show ?thesis
    proof (cases "masked_suffix (drop (p + n) data) v (min 8 (length v - p))")
      case None
      with t p nk have e: "masked_loop data v p = masked_loop data v (p - 1)"
        by (simp add: masked_loop.simps [of data v p] Let_def)
      with None t p nk 1(4) show ?thesis by (intro rec 1(3)) (auto simp: Let_def)
    next
      case (Some m)
      with t p nk have e: "masked_loop data v p = p + n + m"
        by (simp add: masked_loop.simps [of data v p] Let_def)
      from masked_suffix_Some [OF Some] 1(5) have "4 \<le> m" "m \<le> 8" "p + m \<le> length v"
        "has_prefix (drop (p + n) data) (drop (length v - m) v)" by auto
      then show ?thesis unfolding e using t p nk by blast
    qed
  qed
qed

lemma masked_length_pos:
  assumes "0 < masked_secret_length data v"
  shows "8 \<le> length v \<and> (\<exists>q n k m. 4 \<le> q \<and> q \<le> 16 \<and> 3 \<le> k \<and> 4 \<le> m \<and> m \<le> 8 \<and> q + m \<le> length v
    \<and> prefix (take q v) data \<and> skip_masks (drop q data) = (n, k)
    \<and> has_prefix (drop (q + n) data) (drop (length v - m) v)
    \<and> masked_secret_length data v = q + n + m \<and> q + n + m \<le> length data)"
proof -
  have v: "8 \<le> length v" and l: "masked_secret_length data v = masked_loop data v (min 16 (length v - 4))"
    using assms by (auto simp: masked_secret_length_def split: if_splits)
  have "min 16 (length v - 4) \<le> length v" by simp
  from masked_loop_match [OF assms [unfolded l] this] obtain q n k m where
    q: "4 \<le> q" "q \<le> min 16 (length v - 4)" "prefix (take q v) data" "skip_masks (drop q data) = (n, k)" "3 \<le> k"
    "4 \<le> m" "m \<le> 8" "q + m \<le> length v" "has_prefix (drop (q + n) data) (drop (length v - m) v)"
    "masked_loop data v (min 16 (length v - 4)) = q + n + m" by blast
  have "length (drop (length v - m) v) \<le> length (drop (q + n) data)"
    using q(9) by (rule prefix_length_le)
  then have "q + n + m \<le> length data" using q(6,8) by simp
  moreover have "q \<le> 16" "masked_secret_length data v = q + n + m" using q(2,10) l by simp_all
  ultimately show ?thesis using v q by blast
qed

lemma masked_length_start:
  assumes "0 < masked_secret_length data v"
  shows "masked_prefix_length * 2 \<le> length v" "take masked_prefix_length v = take masked_prefix_length data"
    "masked_secret_length data v \<le> length data"
proof -
  from masked_length_pos [OF assms] obtain q n m where q: "8 \<le> length v" "4 \<le> q" "prefix (take q v) data"
    "masked_secret_length data v = q + n + m" "q + n + m \<le> length data" by blast
  then have "take 4 data = take 4 (take q v)" by (auto simp: prefix_def)
  with q show "masked_prefix_length * 2 \<le> length v" "take masked_prefix_length v = take masked_prefix_length data"
    "masked_secret_length data v \<le> length data"
    by (auto simp: masked_prefix_length_def min_def)
qed

subsection \<open>The scanning loop as a rewriting of the data\<close>

text \<open>What the loop computes, without positions: at each offset the match is replaced, else one
  byte is kept.\<close>

function rewrite :: "(string \<Rightarrow> nat \<times> nat) \<Rightarrow> (nat \<Rightarrow> string) \<Rightarrow> (nat \<Rightarrow> string) \<Rightarrow> string \<Rightarrow> string \<times> string list" where
  "rewrite find_match text_of name_of [] = ([], [])"
| "rewrite find_match text_of name_of (c # s) =
    (let m = find_match (c # s) in
     if fst m = 0 then let r = rewrite find_match text_of name_of s in (c # fst r, snd r)
     else let r = rewrite find_match text_of name_of (drop (fst m) (c # s)) in
       (text_of (snd m) @ fst r, name_of (snd m) # snd r))"
  by pat_completeness auto
termination
  by (relation "measure (\<lambda>(f, t, n, s). length s)") auto

declare rewrite.simps [simp del]

lemma scan_loop_rewrite:
  assumes "copied \<le> offset" and "offset \<le> length data" and "\<And>s. s \<noteq> [] \<Longrightarrow> fst (f s) \<le> length s"
  shows "scan_loop f t n data offset copied out used =
    (out @ take (offset - copied) (drop copied data) @ fst (rewrite f t n (drop offset data)),
     used @ snd (rewrite f t n (drop offset data)))"
  using assms
proof (induction f t n data offset copied out used rule: scan_loop.induct)
  case (1 f t n data offset copied out used)
  show ?case
  proof (cases "offset = length data")
    case True
    then show ?thesis by (simp add: scan_loop.simps rewrite.simps)
  next
    case False
    then have lt: "offset < length data" using 1(4) by simp
    then obtain c s where cs: "drop offset data = c # s" "drop (Suc offset) data = s" "data ! offset = c"
      by (metis Cons_nth_drop_Suc)
    have keep: "take (Suc offset - copied) (drop copied data) = take (offset - copied) (drop copied data) @ [c]"
      using lt 1(3) cs(3) by (simp add: Suc_diff_le take_Suc_conv_app_nth)
    show ?thesis
    proof (cases "fst (f (drop offset data)) = 0")
      case True
      with lt 1 keep show ?thesis
        by (simp add: scan_loop.simps [of f t n data offset copied] cs rewrite.simps(2) Let_def)
    next
      case False
      have "offset + fst (f (drop offset data)) \<le> length data"
        using 1(5) [of "drop offset data"] lt by simp
      moreover have "drop (offset + w) data = drop w (c # s)" for w
        using cs(1) by (metis add.commute drop_drop)
      ultimately show ?thesis
        using False lt 1
        by (simp add: scan_loop.simps [of f t n data offset copied] cs(1) rewrite.simps(2) Let_def)
    qed
  qed
qed

lemma scan_loop_from_start:
  assumes "\<And>s. s \<noteq> [] \<Longrightarrow> fst (f s) \<le> length s"
  shows "scan_loop f t n data 0 0 [] [] = rewrite f t n data"
  using scan_loop_rewrite [of 0 0 data f t n "[]" "[]", OF _ _ assms] by simp

lemma rewrite_cong:
  assumes "\<And>s. s \<noteq> [] \<Longrightarrow> fst (f s) = fst (g s) \<and> (0 < fst (g s) \<longrightarrow> snd (f s) = snd (g s))"
  shows "rewrite f t n data = rewrite g t n data"
  using assms
proof (induction f t n data rule: rewrite.induct)
  case (2 f t n c s)
  then have fg: "fst (f (c # s)) = fst (g (c # s))" "0 < fst (g (c # s)) \<Longrightarrow> snd (f (c # s)) = snd (g (c # s))"
    by auto
  show ?case
  proof (cases "fst (g (c # s)) = 0")
    case True
    with fg 2 show ?thesis by (simp add: rewrite.simps(2) Let_def)
  next
    case False
    then have "rewrite f t n (drop (fst (f (c # s))) (c # s)) = rewrite g t n (drop (fst (f (c # s))) (c # s))"
      using 2 fg(1) by (intro 2(2)) auto
    with False fg show ?thesis by (simp only: rewrite.simps(2) Let_def) simp
  qed
qed (simp add: rewrite.simps(1))

text \<open>The output as segments: kept bytes in which no match starts, and replaced matches.\<close>

datatype segment = Kept string | Replaced string nat

fun seg_source :: "segment \<Rightarrow> string" where
  "seg_source (Kept s) = s" | "seg_source (Replaced s i) = s"

fun seg_target :: "(nat \<Rightarrow> string) \<Rightarrow> segment \<Rightarrow> string" where
  "seg_target t (Kept s) = s" | "seg_target t (Replaced s i) = t i"

fun seg_names :: "(nat \<Rightarrow> string) \<Rightarrow> segment list \<Rightarrow> string list" where
  "seg_names n [] = []" | "seg_names n (Kept s # gs) = seg_names n gs"
| "seg_names n (Replaced s i # gs) = n i # seg_names n gs"

function segments :: "(string \<Rightarrow> nat \<times> nat) \<Rightarrow> string \<Rightarrow> segment list" where
  "segments f [] = []"
| "segments f (c # s) = (let m = f (c # s) in
     if fst m = 0 then (case segments f s of Kept u # gs \<Rightarrow> Kept (c # u) # gs | gs \<Rightarrow> Kept [c] # gs)
     else Replaced (take (fst m) (c # s)) (snd m) # segments f (drop (fst m) (c # s)))"
  by pat_completeness auto
termination
  by (relation "measure (\<lambda>(f, s). length s)") auto

declare segments.simps [simp del]

lemma segments_rewrite:
  "concat (map seg_source (segments f data)) = data"
  "rewrite f t n data = (concat (map (seg_target t) (segments f data)), seg_names n (segments f data))"
proof (induction f data rule: segments.induct)
  case (2 f c s)
  {
    case 1
    show ?case
    proof (cases "fst (f (c # s)) = 0")
      case True
      then show ?thesis
        using 2(1) [OF refl True] by (auto simp: segments.simps(2) Let_def split: list.split segment.split)
    next
      case False
      then show ?thesis
        using 2(3) [OF refl False] by (simp only: segments.simps(2) Let_def) simp
    qed
  next
    case 2
    show ?case
    proof (cases "fst (f (c # s)) = 0")
      case True
      then show ?thesis
        using "2.IH"(2) [OF refl True]
        by (auto simp: segments.simps(2) rewrite.simps(2) Let_def split: list.split segment.split)
    next
      case False
      then show ?thesis
        using "2.IH"(4) [OF refl False] by (simp only: segments.simps(2) rewrite.simps(2) Let_def) simp
    qed
  }
qed (simp_all add: segments.simps(1) rewrite.simps(1))

lemma kept_no_needle:
  assumes "\<And>r. prefix w r \<Longrightarrow> 0 < fst (f r)" and "w \<noteq> []"
  shows "Kept u \<in> set (segments f data) \<Longrightarrow> \<not> sublist w u"
  using assms
proof (induction f data arbitrary: u rule: segments.induct)
  case (2 f c s)
  show ?case
  proof (cases "fst (f (c # s)) = 0")
    case True
    note IH = 2(1) [OF refl True _ 2(4,5)]
    have no: "\<not> prefix w (c # s)" using 2(4) [of "c # s"] True by auto
    have src: "concat (map seg_source (segments f s)) = s" by (rule segments_rewrite(1))
    from 2(3) True consider "Kept u \<in> set (segments f s)" | v gs where "segments f s = Kept v # gs" "u = c # v"
      | "u = [c]"
      by (auto simp: segments.simps(2) Let_def split: list.splits segment.splits)
    then show ?thesis
    proof cases
      case 1
      then show ?thesis by (rule IH)
    next
      case 2
      then have "prefix u (c # s)" using src by (auto simp: prefix_def)
      then have "\<not> prefix w u" using no prefix_order.trans by blast
      with IH [of v] 2 show ?thesis by (simp add: sublist_Cons_right)
    next
      case 3
      then have "\<not> prefix w u" using no by (auto simp: prefix_Cons)
      with 3 assms(2) show ?thesis using \<open>w \<noteq> []\<close> by (simp add: sublist_Cons_right)
    qed
  next
    case False
    with 2(3) have "Kept u \<in> set (segments f (drop (fst (f (c # s))) (c # s)))"
      by (simp only: segments.simps(2) Let_def) simp
    with 2(2) [OF refl False _ 2(4,5)] show ?thesis by blast
  qed
qed (simp add: segments.simps(1))

lemma replaced_match:
  assumes "\<And>r. r \<noteq> [] \<Longrightarrow> fst (f r) \<le> length r" and "Replaced s i \<in> set (segments f data)"
  shows "\<exists>r. prefix s r \<and> r \<noteq> [] \<and> f r = (length s, i) \<and> 0 < length s"
  using assms
proof (induction f data rule: segments.induct)
  case (2 f c t)
  show ?case
  proof (cases "fst (f (c # t)) = 0")
    case True
    with 2 have "Replaced s i \<in> set (segments f t)"
      by (auto simp: segments.simps(2) Let_def split: list.splits segment.splits)
    then show ?thesis using 2(1) [OF refl True 2(3)] by blast
  next
    case False
    from 2(4) False have "Replaced s i = Replaced (take (fst (f (c # t))) (c # t)) (snd (f (c # t)))
      \<or> Replaced s i \<in> set (segments f (drop (fst (f (c # t))) (c # t)))"
      by (simp only: segments.simps(2) Let_def) simp
    then show ?thesis
    proof
      assume "Replaced s i = Replaced (take (fst (f (c # t))) (c # t)) (snd (f (c # t)))"
      then have s: "s = take (fst (f (c # t))) (c # t)" "i = snd (f (c # t))" by simp_all
      then have "length s = fst (f (c # t))" using 2(3) [of "c # t"] by simp
      with s False show ?thesis
        by (intro exI [of _ "c # t"]) (metis gr0I list.distinct(1) prod.collapse take_is_prefix)
    qed (use 2(2) [OF refl False 2(3)] in blast)
  qed
qed (simp add: segments.simps(1))

lemma segments_all_kept:
  assumes "\<And>s i. Replaced s i \<notin> set (segments f data)" and "data \<noteq> []"
  shows "segments f data = [Kept data]"
  using assms
proof (induction f data rule: segments.induct)
  case (2 f c s)
  have z: "fst (f (c # s)) = 0"
  proof (rule ccontr)
    assume "\<not> ?thesis"
    with 2(3) [of "take (fst (f (c # s))) (c # s)" "snd (f (c # s))"] show False
      by (simp add: segments.simps(2) Let_def)
  qed
  have "Replaced t i \<notin> set (segments f s)" for t i
    using 2(3) [of t i] z by (auto simp: segments.simps(2) Let_def split: list.splits segment.splits)
  with 2(1) [OF refl z] z show ?case
    by (cases "s = []") (auto simp: segments.simps Let_def)
qed simp

subsection \<open>The matches of Scrub and Sanitize\<close>

lemma map_fst_enumerate: "map fst (filter (\<lambda>(j, x). R x) (enumerate k xs)) = filter (\<lambda>j. R (xs ! (j - k))) [k..<k + length xs]"
proof (induction xs arbitrary: k)
  case (Cons x xs)
  have "filter (\<lambda>j. R (xs ! (j - Suc k))) [Suc k..<Suc k + length xs] =
      filter (\<lambda>j. R ((x # xs) ! (j - k))) [Suc k..<Suc k + length xs]"
    by (rule filter_cong [OF refl]) (auto simp: nth_Cons' Suc_diff_Suc)
  then show ?case using Cons.IH [of "Suc k"] by (simp add: upt_conv_Cons del: upt_Suc)
qed simp

lemma masked_of_filter: "masked_of 0 items p = filter (\<lambda>i. masked_prefix_length * 2 \<le> length (ns_value (items ! i))
    \<and> take masked_prefix_length (ns_value (items ! i)) = p) [0..<length items]"
  using map_fst_enumerate [of "\<lambda>x. masked_prefix_length * 2 \<le> length (ns_value x)
    \<and> take masked_prefix_length (ns_value x) = p" 0 items] by (simp add: masked_of_def)

lemma set_needles_of: "n \<in> set (needles_of k items) \<longleftrightarrow> (\<exists>j < length items. n \<in> set (secret_needles (k + j) (items ! j)))"
proof (induction items arbitrary: k)
  case (Cons x xs)
  show ?case
    by (simp only: needles_of_simps set_append Un_iff Cons.IH)
      (auto simp: less_Suc_eq_0_disj)
qed simp

lemma needle_in:
  "(w, r) \<in> set (needles_of 0 (map source_of ss)) \<longleftrightarrow> (\<exists>j < length ss.
     w \<in> set (s_representations (ss ! j)) \<and> r = \<lparr>nr_secret = j, nr_kind = kind_value\<rparr>
   \<or> w \<in> set (s_placeholder_representations (ss ! j)) \<and> r = \<lparr>nr_secret = j, nr_kind = kind_placeholder\<rparr>)"
  by (auto simp: set_needles_of secret_needles_def source_of_def image_iff)

text \<open>The reference of \<open>Scrub\<close>: the longest representation of a value in scope, else the first
  secret in scope with a masked rendering.\<close>

definition masked_reference :: "resolved list \<Rightarrow> bool list \<Rightarrow> string \<Rightarrow> nat option" where
  "masked_reference secrets scope data =
     find (\<lambda>i. scope ! i \<and> 0 < masked_secret_length data (s_value (secrets ! i))) [0..<length secrets]"

definition scrub_reference :: "broker \<Rightarrow> bool list \<Rightarrow> string \<Rightarrow> nat \<times> nat" where
  "scrub_reference b scope data =
    (case reference_match (accepted kind_value (Some scope)) (needles_of 0 (map source_of (b_secrets b))) data of
       Some (w, r) \<Rightarrow> (length w, nr_secret r)
     | None \<Rightarrow> (case masked_reference (b_secrets b) scope data of
         None \<Rightarrow> (0, 0) | Some i \<Rightarrow> (masked_secret_length data (s_value (b_secrets b ! i)), i)))"

lemma masked_at_loop_find:
  "masked_at_loop secrets data is (Some scope) =
    (case find (\<lambda>i. scope ! i \<and> 0 < masked_secret_length data (s_value (secrets ! i))) is of
       None \<Rightarrow> (0, 0) | Some i \<Rightarrow> (masked_secret_length data (s_value (secrets ! i)), i))"
  by (induction "is") (auto simp: Let_def)

lemma masked_at_reference:
  "masked_at_loop secrets data (masked_of 0 (map source_of secrets) (take masked_prefix_length data)) (Some scope) =
    (case masked_reference secrets scope data of
       None \<Rightarrow> (0, 0) | Some i \<Rightarrow> (masked_secret_length data (s_value (secrets ! i)), i))"
proof -
  have "find (\<lambda>i. scope ! i \<and> 0 < masked_secret_length data (s_value (secrets ! i)))
      (masked_of 0 (map source_of secrets) (take masked_prefix_length data)) = masked_reference secrets scope data"
    unfolding masked_of_filter find_filter masked_reference_def length_map
    by (rule find_cong_set) (auto simp: source_of_def masked_length_start)
  then show ?thesis by (simp add: masked_at_loop_find)
qed

lemma scrub_match_reference:
  assumes "b_trie b = new_needle_trie (map source_of (b_secrets b))" and "data \<noteq> []"
  shows "fst (scrub_match b scope data) = fst (scrub_reference b scope data)
    \<and> (0 < fst (scrub_reference b scope data) \<longrightarrow> snd (scrub_match b scope data) = snd (scrub_reference b scope data))"
proof -
  let ?items = "map source_of (b_secrets b)"
  obtain len sec ms where l: "longest (b_trie b) data kind_value (Some scope) = (len, sec, ms)" by (metis prod_cases3)
  have ms: "ms = masked_of 0 ?items (take masked_prefix_length data)"
    using longest_masked_of [OF assms(2), where secrets = ?items and kinds = kind_value and scope = "Some scope"] l assms(1) by simp
  show ?thesis
  proof (cases "reference_match (accepted kind_value (Some scope)) (needles_of 0 ?items) data")
    case None
    then have "len = 0"
      using longest_reference [OF assms(2), where secrets = ?items and kinds = kind_value and scope = "Some scope"] l assms(1) by simp
    with None show ?thesis by (simp add: scrub_match_def scrub_reference_def l ms masked_at_reference)
  next
    case (Some p)
    obtain w r where p: "p = (w, r)" by force
    have "w \<noteq> []" by (rule reference_match_Some(1) [OF Some [unfolded p]])
    moreover have "len = length w" "sec = nr_secret r"
      using longest_reference [OF assms(2), where secrets = ?items and kinds = kind_value and scope = "Some scope"] l assms(1) Some p by simp_all
    ultimately show ?thesis using Some p by (simp add: scrub_match_def scrub_reference_def l)
  qed
qed

lemma kinds [simp]: "kind_value \<noteq> 0" "kind_placeholder \<noteq> 0" "and kind_placeholder kind_value = 0"
  "and kind_value (or kind_value kind_placeholder) \<noteq> 0" "and kind_placeholder (or kind_value kind_placeholder) \<noteq> 0"
  by (simp_all add: kind_value_def kind_placeholder_def)

lemma reference_match_exists:
  assumes "(w, r) \<in> set ns" "ok r" "w \<noteq> []" "prefix w data"
  shows "\<exists>v q. reference_match ok ns data = Some (v, q) \<and> v \<noteq> []"
proof (cases "reference_match ok ns data")
  case None
  from reference_match_None [OF None assms(4,3)] assms(1,2) show ?thesis
    by (auto simp: find_None_iff image_iff)
next
  case (Some p)
  then show ?thesis using reference_match_Some(1) [of ok ns data "fst p" "snd p"] by (cases p) auto
qed

lemma find_SomeD: "find P xs = Some x \<Longrightarrow> x \<in> set xs \<and> P x"
  by (induction xs) (auto split: if_splits)

lemma reference_match_in:
  assumes "reference_match ok ns data = Some (w, r)"
  shows "(w, r) \<in> set ns" "ok r" "w \<noteq> []" "prefix w data"
  using find_SomeD [OF assms [unfolded reference_match_def]] by (auto simp: by_length_desc_def)

lemma scope_for_nth: "i < length (b_secrets b) \<Longrightarrow> scope_for b client host ! i = scoped (b_secrets b ! i) client host"
  by (simp add: scope_for_def)

definition in_scope :: "broker \<Rightarrow> string \<Rightarrow> string \<Rightarrow> nat \<Rightarrow> bool" where
  "in_scope b client host i \<longleftrightarrow> i < length (b_secrets b) \<and> scoped (b_secrets b ! i) client host"

lemma scrub_finds:
  assumes "b_trie b = new_needle_trie (map source_of (b_secrets b))" and "in_scope b client host i"
    and "w \<in> set (s_representations (b_secrets b ! i))" and "w \<noteq> []" and "prefix w data"
  shows "0 < fst (scrub_match b (scope_for b client host) data)"
proof -
  let ?scope = "scope_for b client host" and ?ns = "needles_of 0 (map source_of (b_secrets b))"
  have "(w, \<lparr>nr_secret = i, nr_kind = kind_value\<rparr>) \<in> set ?ns"
    using assms by (auto simp: needle_in in_scope_def)
  moreover have "accepted kind_value (Some ?scope) \<lparr>nr_secret = i, nr_kind = kind_value\<rparr>"
    using assms(2) by (simp add: accepted_def in_scope_def scope_for_nth)
  ultimately obtain v q where "reference_match (accepted kind_value (Some ?scope)) ?ns data = Some (v, q)" "v \<noteq> []"
    using reference_match_exists [OF _ _ assms(4,5)] by metis
  moreover have "data \<noteq> []" using assms(4,5) by auto
  ultimately show ?thesis using scrub_match_reference [OF assms(1)] by (simp add: scrub_reference_def)
qed

text \<open>What a match of \<open>Scrub\<close> is: a representation of a value in scope, or a masked rendering of
  one.\<close>

definition scrub_source :: "broker \<Rightarrow> nat \<Rightarrow> string \<Rightarrow> bool" where
  "scrub_source b i s \<longleftrightarrow> s \<in> set (s_representations (b_secrets b ! i))
     \<or> (\<exists>rest. masked_secret_length (s @ rest) (s_value (b_secrets b ! i)) = length s)"

lemma scrub_match_source:
  assumes "b_trie b = new_needle_trie (map source_of (b_secrets b))" and "data \<noteq> []"
    and "0 < fst (scrub_match b (scope_for b client host) data)"
  shows "in_scope b client host (snd (scrub_match b (scope_for b client host) data))"
    and "fst (scrub_match b (scope_for b client host) data) \<le> length data"
    and "scrub_source b (snd (scrub_match b (scope_for b client host) data))
          (take (fst (scrub_match b (scope_for b client host) data)) data)"
proof -
  let ?scope = "scope_for b client host" and ?ns = "needles_of 0 (map source_of (b_secrets b))"
  obtain n i where r: "scrub_reference b ?scope data = (n, i)" by force
  have m: "scrub_match b ?scope data = (n, i)" "0 < n"
    using scrub_match_reference [OF assms(1,2), of ?scope] assms(3) r by (auto simp: prod_eq_iff)
  have "in_scope b client host i \<and> n \<le> length data \<and> scrub_source b i (take n data)"
  proof (cases "reference_match (accepted kind_value (Some ?scope)) ?ns data")
    case (Some p)
    obtain w q where p: "p = (w, q)" by force
    note w = reference_match_in [OF Some [unfolded p]]
    from w(1,2) have "in_scope b client host (nr_secret q) \<and> w \<in> set (s_representations (b_secrets b ! nr_secret q))"
      by (auto simp: needle_in accepted_def in_scope_def scope_for_nth)
    moreover have "n = length w" "i = nr_secret q" using r Some p by (auto simp: scrub_reference_def)
    moreover have "take (length w) data = w" "length w \<le> length data" using w(4) by (auto simp: prefix_def)
    ultimately show ?thesis by (simp add: scrub_source_def)
  next
    case None
    with r m(2) have mr: "masked_reference (b_secrets b) ?scope data = Some i"
      and n: "n = masked_secret_length data (s_value (b_secrets b ! i))"
      by (auto simp: scrub_reference_def split: option.splits)
    from mr have "i < length (b_secrets b)" "?scope ! i"
      by (auto simp: masked_reference_def find_Some_iff)
    moreover have "n \<le> length data" using masked_length_start(3) m(2) n by simp
    moreover from this have "scrub_source b i (take n data)" unfolding scrub_source_def
      using n by (intro disjI2 exI [of _ "drop n data"]) simp
    ultimately show ?thesis by (simp add: in_scope_def scope_for_nth)
  qed
  with m show "in_scope b client host (snd (scrub_match b ?scope data))"
    "fst (scrub_match b ?scope data) \<le> length data"
    "scrub_source b (snd (scrub_match b ?scope data)) (take (fst (scrub_match b ?scope data)) data)"
    by simp_all
qed

lemma scrub_match_bound:
  assumes "b_trie b = new_needle_trie (map source_of (b_secrets b))" and "data \<noteq> []"
  shows "fst (scrub_match b (scope_for b client host) data) \<le> length data"
  using scrub_match_source(2) [OF assms] by (cases "fst (scrub_match b (scope_for b client host) data) = 0") auto

text \<open>\<open>Sanitize\<close>: values and placeholders of all secrets.\<close>

lemma sanitize_match_longest: "sanitize_match b data =
    (fst (longest (b_trie b) data (or kind_value kind_placeholder) None),
     fst (snd (longest (b_trie b) data (or kind_value kind_placeholder) None)))"
  by (simp add: sanitize_match_def split: prod.split)

lemma sanitize_finds:
  assumes "b_trie b = new_needle_trie (map source_of (b_secrets b))" and "i < length (b_secrets b)"
    and "w \<in> set (s_representations (b_secrets b ! i)) \<union> set (s_placeholder_representations (b_secrets b ! i))"
    and "w \<noteq> []" and "prefix w data"
  shows "0 < fst (sanitize_match b data)"
proof -
  let ?ns = "needles_of 0 (map source_of (b_secrets b))" and ?k = "or kind_value kind_placeholder"
  from assms(2,3) obtain k where "(w, \<lparr>nr_secret = i, nr_kind = k\<rparr>) \<in> set ?ns" "k = kind_value \<or> k = kind_placeholder"
    by (auto simp: needle_in)
  moreover from this(2) have "accepted ?k None \<lparr>nr_secret = i, nr_kind = k\<rparr>" by (auto simp: accepted_def)
  ultimately obtain v q where "reference_match (accepted ?k None) ?ns data = Some (v, q)" "v \<noteq> []"
    using reference_match_exists [OF _ _ assms(4,5)] by metis
  moreover have "data \<noteq> []" using assms(4,5) by auto
  ultimately show ?thesis
    using longest_reference [of data, where secrets = "map source_of (b_secrets b)" and kinds = ?k and scope = None] assms(1)
    by (simp add: sanitize_match_longest)
qed

lemma sanitize_match_source:
  assumes "b_trie b = new_needle_trie (map source_of (b_secrets b))" and "data \<noteq> []"
    and "0 < fst (sanitize_match b data)"
  shows "snd (sanitize_match b data) < length (b_secrets b) \<and> fst (sanitize_match b data) \<le> length data
    \<and> take (fst (sanitize_match b data)) data \<in> set (s_representations (b_secrets b ! snd (sanitize_match b data)))
         \<union> set (s_placeholder_representations (b_secrets b ! snd (sanitize_match b data)))"
proof -
  let ?ns = "needles_of 0 (map source_of (b_secrets b))" and ?k = "or kind_value kind_placeholder"
  note ref = longest_reference [OF assms(2), where secrets = "map source_of (b_secrets b)" and kinds = ?k and scope = None]
  obtain n i where m: "sanitize_match b data = (n, i)" by force
  have "reference_match (accepted ?k None) ?ns data \<noteq> None"
  proof
    assume "reference_match (accepted ?k None) ?ns data = None"
    with ref have "fst (longest (b_trie b) data ?k None) = 0" by (simp add: assms(1))
    with assms(3) show False by (simp add: sanitize_match_longest)
  qed
  then obtain w q where s: "reference_match (accepted ?k None) ?ns data = Some (w, q)" by auto
  note w = reference_match_in [OF s]
  have "fst (longest (b_trie b) data ?k None) = length w" "fst (snd (longest (b_trie b) data ?k None)) = nr_secret q"
    using ref by (simp_all add: s assms(1))
  then have "n = length w" "i = nr_secret q" using m by (simp_all add: sanitize_match_longest)
  moreover have "take (length w) data = w" "length w \<le> length data" using w(4) by (auto simp: prefix_def)
  ultimately show ?thesis using w(1) m by (auto simp: needle_in)
qed

lemma sanitize_match_bound:
  assumes "b_trie b = new_needle_trie (map source_of (b_secrets b))" and "data \<noteq> []"
  shows "fst (sanitize_match b data) \<le> length data"
  using sanitize_match_source [OF assms] by (cases "fst (sanitize_match b data) = 0") auto

subsection \<open>What Scrub and Sanitize return\<close>

lemma scrub_rewrite:
  assumes "b_trie b = new_needle_trie (map source_of (b_secrets b))"
  shows "scrub (Some b) data client host =
    (let r = rewrite (scrub_match b (scope_for b client host)) (\<lambda>i. d_placeholder (b_secrets b ! i))
         (\<lambda>i. d_name (b_secrets b ! i)) data in (fst r, sorted_names (snd r)))"
proof (cases "data = []")
  case True
  then show ?thesis by (simp add: scrub_def rewrite.simps sorted_names_def)
next
  case False
  then show ?thesis
    by (simp add: scrub_def scan_loop_from_start scrub_match_bound [OF assms] split: prod.split)
qed

lemma sanitize_rewrite:
  assumes "b_trie b = new_needle_trie (map source_of (b_secrets b))"
  shows "sanitize (Some b) data =
    fst (rewrite (sanitize_match b) (\<lambda>i. s_marker (b_secrets b ! i)) (\<lambda>i. []) data)"
  by (cases "data = []") (simp_all add: sanitize_def rewrite.simps scan_loop_from_start sanitize_match_bound [OF assms])

text \<open>C8. \<open>Scrub\<close> is the reference scan: at each offset the longest representation of a value in
  scope, then a masked rendering of the first secret in scope, is replaced by the placeholder; the
  names are those of the secrets replaced, sorted and once each.\<close>

theorem scrub_is_reference:
  assumes "broker_ok b"
  shows "scrub (Some b) data client host =
    (let r = rewrite (scrub_reference b (scope_for b client host)) (\<lambda>i. d_placeholder (b_secrets b ! i))
         (\<lambda>i. d_name (b_secrets b ! i)) data in (fst r, sorted_names (snd r)))"
proof -
  have t: "b_trie b = new_needle_trie (map source_of (b_secrets b))" using assms by (simp add: broker_ok_def)
  have "rewrite (scrub_match b scope) f n data = rewrite (scrub_reference b scope) f n data" for scope f n
    using scrub_match_reference [OF t] by (intro rewrite_cong) blast
  then show ?thesis by (simp add: scrub_rewrite [OF t])
qed


lemma seg_names_Nil: "seg_names n gs = [] \<Longrightarrow> Replaced s i \<notin> set gs"
  by (induction n gs rule: seg_names.induct) auto

text \<open>When \<open>Scrub\<close> reports no name, the data is unchanged and contains no representation of
  any value in scope.\<close>

theorem scrub_silent:
  assumes "broker_ok b" and "scrub (Some b) data client host = (out, [])"
  shows "out = data \<and> (\<forall>i w. in_scope b client host i \<longrightarrow> w \<in> set (s_representations (b_secrets b ! i))
    \<longrightarrow> w \<noteq> [] \<longrightarrow> \<not> contains data w)"
proof -
  have t: "b_trie b = new_needle_trie (map source_of (b_secrets b))" using assms by (simp add: broker_ok_def)
  let ?f = "scrub_match b (scope_for b client host)"
  have "seg_names (\<lambda>i. d_name (b_secrets b ! i)) (segments ?f data) = []"
    using assms(2) by (simp add: scrub_rewrite [OF t] segments_rewrite(2))
  then have r: "Replaced s i \<notin> set (segments ?f data)" for s i
    by (rule seg_names_Nil)
  show ?thesis
  proof (cases "data = []")
    case True
    with assms(2) show ?thesis by (auto simp: scrub_def)
  next
    case False
    from segments_all_kept [OF r False] have k: "segments ?f data = [Kept data]" .
    have "out = data" using assms(2) by (simp add: scrub_rewrite [OF t] segments_rewrite(2) k)
    moreover have "\<not> contains data w" if "in_scope b client host i" "w \<in> set (s_representations (b_secrets b ! i))" "w \<noteq> []" for i w
      using that k by (intro kept_no_needle [of w ?f data data]) (auto intro: scrub_finds [OF t])
    ultimately show ?thesis by blast
  qed
qed

text \<open>\<open>Sanitize\<close> leaves neither values nor placeholders: the data splits into segments such
  that the output is the same segments with each match replaced by the marker of its secret, and no
  kept segment contains a representation of any value or placeholder.\<close>

theorem sanitize_segments:
  assumes "broker_ok b"
  shows "\<exists>gs. concat (map seg_source gs) = data
    \<and> sanitize (Some b) data = concat (map (seg_target (\<lambda>i. s_marker (b_secrets b ! i))) gs)
    \<and> (\<forall>s i. Replaced s i \<in> set gs \<longrightarrow> i < length (b_secrets b)
         \<and> s \<in> set (s_representations (b_secrets b ! i)) \<union> set (s_placeholder_representations (b_secrets b ! i)))
    \<and> (\<forall>u i w. Kept u \<in> set gs \<longrightarrow> i < length (b_secrets b)
         \<longrightarrow> w \<in> set (s_representations (b_secrets b ! i)) \<union> set (s_placeholder_representations (b_secrets b ! i))
         \<longrightarrow> w \<noteq> [] \<longrightarrow> \<not> contains u w)"
proof (intro exI conjI allI impI)
  have t: "b_trie b = new_needle_trie (map source_of (b_secrets b))" using assms by (simp add: broker_ok_def)
  let ?f = "sanitize_match b"
  show "concat (map seg_source (segments ?f data)) = data" by (rule segments_rewrite(1))
  show "sanitize (Some b) data = concat (map (seg_target (\<lambda>i. s_marker (b_secrets b ! i))) (segments ?f data))"
    by (simp add: sanitize_rewrite [OF t] segments_rewrite(2))
  fix s i
  assume "Replaced s i \<in> set (segments ?f data)"
  from replaced_match [OF sanitize_match_bound [OF t] this] obtain r where
    r: "prefix s r" "r \<noteq> []" "?f r = (length s, i)" "0 < length s" by blast
  then have "take (length s) r = s" by (auto simp: prefix_def)
  with sanitize_match_source [OF t r(2)] r(3,4) show "i < length (b_secrets b)"
    "s \<in> set (s_representations (b_secrets b ! i)) \<union> set (s_placeholder_representations (b_secrets b ! i))" by simp_all
next
  have t: "b_trie b = new_needle_trie (map source_of (b_secrets b))" using assms by (simp add: broker_ok_def)
  fix u i w
  assume "Kept u \<in> set (segments (sanitize_match b) data)" "i < length (b_secrets b)"
    "w \<in> set (s_representations (b_secrets b ! i)) \<union> set (s_placeholder_representations (b_secrets b ! i))" "w \<noteq> []"
  then show "\<not> contains u w" by (intro kept_no_needle [of w]) (auto intro: sanitize_finds [OF t])
qed

text \<open>A masked rendering is recognized only with at least four leading and four trailing bytes
  of a value of at least eight bytes around at least three mask characters, and it lies within the
  data.\<close>

theorem masked_secret_bounds:
  assumes "0 < masked_secret_length data v"
  shows "8 \<le> length v \<and> (\<exists>q n k m. 4 \<le> q \<and> q \<le> 16 \<and> 3 \<le> k \<and> 4 \<le> m \<and> m \<le> 8 \<and> q + m \<le> length v
    \<and> prefix (take q v) data \<and> skip_masks (drop q data) = (n, k)
    \<and> has_prefix (drop (q + n) data) (drop (length v - m) v)
    \<and> masked_secret_length data v = q + n + m \<and> q + n + m \<le> length data)"
  using assms by (rule masked_length_pos)

lemmas [evaluate] = is_mask_def skip_masks.simps [of "_ # _"] skip_masks.simps [of "[]"]
  masked_suffix.simps [of _ _ "numeral _"] masked_suffix.simps [of _ _ 0] masked_loop.simps [of _ _ "numeral _"] masked_secret_length_def

lemma masked_example: "masked_secret_length ''topsxxx*cret!'' ''topsecret'' = 12"
  by (simp add: evaluate masked_loop.simps [of _ _ "Suc _"] masked_suffix.simps [of _ _ "Suc _"])

lemma masked_secret_bounds_witness: "8 \<le> length ''topsecret''"
  using masked_secret_bounds [of "''topsxxx*cret!''" "''topsecret''"] by (simp add: masked_example)

definition sample_body :: string where
  "sample_body = ''key=topsecret;''"

lemma scrub_is_reference_witness: "scrub (Some other_broker) sample_body ''agent'' ''a.example.com'' =
    (let r = rewrite (scrub_reference other_broker (scope_for other_broker ''agent'' ''a.example.com''))
         (\<lambda>i. d_placeholder (b_secrets other_broker ! i)) (\<lambda>i. d_name (b_secrets other_broker ! i)) sample_body in
     (fst r, sorted_names (snd r)))"
  by (rule scrub_is_reference [OF other_ok])


lemma sanitize_segments_witness:
  "\<exists>gs. concat (map seg_source gs) = sample_body
    \<and> sanitize (Some other_broker) sample_body = concat (map (seg_target (\<lambda>i. s_marker (b_secrets other_broker ! i))) gs)"
  using sanitize_segments [OF other_ok, of sample_body] by blast

lemma scrub_other_empty: "scrub (Some other_broker) [] ''agent'' ''a.example.com'' = ([], [])"
  by (simp add: scrub_def)

lemma topsecret_representations: "secret_representations ''topsecret'' = [''topsecret'', ''dG9wc2VjcmV0'']"
  by (simp add: evaluate)

lemma scrub_silent_witness: "\<not> contains [] (s_value (b_secrets other_broker ! 0))"
proof -
  have "in_scope other_broker ''agent'' ''a.example.com'' 0"
    by (simp add: other_broker_def secret_of_def in_scope_def evaluate del: secret_representations_def new_needle_trie_def)
  moreover have "s_value (b_secrets other_broker ! 0) \<in> set (s_representations (b_secrets other_broker ! 0))"
    "s_value (b_secrets other_broker ! 0) \<noteq> []"
    by (simp_all add: other_broker_def secret_of_def topsecret_representations)
  ultimately show ?thesis using scrub_silent [OF other_ok scrub_other_empty] by blast
qed

subsection \<open>What substitution in bodies and queries does\<close>

definition scoped_for :: "resolved list \<Rightarrow> string \<Rightarrow> string \<Rightarrow> string \<Rightarrow> resolved option" where
  "scoped_for items client host v = find (\<lambda>item. v = d_placeholder item \<and> scoped item client host) items"

definition body_subst :: "resolved list \<Rightarrow> string \<Rightarrow> string \<Rightarrow> string \<Rightarrow> string" where
  "body_subst items client host v = (case scoped_for items client host v of None \<Rightarrow> v | Some item \<Rightarrow> s_value item)"

lemma substitute_value_body:
  "substitute_value items v client host secure False =
    (case scoped_for items client host v of
       None \<Rightarrow> Inr (v, None)
     | Some item \<Rightarrow> if secure then Inr (s_value item, Some (d_name item)) else Inl (Value_Over_Plaintext (d_name item)))"
  by (induction items) (auto simp: scoped_for_def scoped_def)

lemma substitute_value_strict:
  assumes "substitute_value items v client host secure True = Inr (w, n)"
  shows "(case n of
      Some name \<Rightarrow> secure \<and> (\<exists>item \<in> set items. v = d_placeholder item \<and> name = d_name item
          \<and> scoped item client host \<and> w = s_value item)
    | None \<Rightarrow> w = v \<and> (\<forall>item \<in> set items. \<not> contains v (d_placeholder item)))"
  using assms by (induction items) (auto simp: scoped_def split: if_splits option.splits)

text \<open>The strings and the object names of a tree.\<close>

fun json_strings :: "json \<Rightarrow> string list" where
  "json_strings (J_Str s) = [s]"
| "json_strings (J_Arr vs) = concat (map json_strings vs)"
| "json_strings (J_Obj ms) = concat (map (\<lambda>(k, v). json_strings v) ms)"
| "json_strings v = []"

fun json_names :: "json \<Rightarrow> string list" where
  "json_names (J_Arr vs) = concat (map json_names vs)"
| "json_names (J_Obj ms) = concat (map (\<lambda>(k, v). k # json_names v) ms)"
| "json_names v = []"

fun json_map :: "(string \<Rightarrow> string) \<Rightarrow> json \<Rightarrow> json" where
  "json_map f (J_Str s) = J_Str (f s)"
| "json_map f (J_Arr vs) = J_Arr (map (json_map f) vs)"
| "json_map f (J_Obj ms) = J_Obj (map (\<lambda>(k, v). (k, json_map f v)) ms)"
| "json_map f v = v"

text \<open>What an accepted transformation has checked, for the strings and names it went over:
  \<open>g\<close> finds the secret of a string.\<close>

definition transform_ok :: "(string \<Rightarrow> (substitute_error, unit) result) \<Rightarrow> (string \<Rightarrow> resolved option) \<Rightarrow> bool
    \<Rightarrow> string set \<Rightarrow> string set \<Rightarrow> string list \<Rightarrow> bool" where
  "transform_ok check g secure strings names used \<longleftrightarrow> (\<forall>k \<in> names. check k = Inr ())
     \<and> set used = {d_name i | s i. s \<in> strings \<and> g s = Some i}
     \<and> (secure \<or> (\<forall>s \<in> strings. g s = None))"

lemma transform_ok_empty [simp]: "transform_ok check g secure {} {} []"
  by (simp add: transform_ok_def)

lemma transform_ok_union:
  "transform_ok check g secure ss ns us \<Longrightarrow> transform_ok check g secure ts ms vs
    \<Longrightarrow> transform_ok check g secure (ss \<union> ts) (ns \<union> ms) (us @ vs)"
  by (auto simp: transform_ok_def)

lemma transform_ok_name:
  "transform_ok check g secure ss ns us \<Longrightarrow> check k = Inr () \<Longrightarrow> transform_ok check g secure ss (insert k ns) us"
  by (auto simp: transform_ok_def)

lemma transform_json_spec:
  assumes f: "\<And>s. f s = (case g s of None \<Rightarrow> Inr (s, None)
      | Some item \<Rightarrow> if secure then Inr (s_value item, Some (d_name item)) else Inl (e item))"
    and h: "\<And>s. h s = (case g s of None \<Rightarrow> s | Some item \<Rightarrow> s_value item)"
  shows "transform_json check f v = Inr (t, used) \<Longrightarrow> t = json_map h v
      \<and> transform_ok check g secure (set (json_strings v)) (set (json_names v)) used"
proof (induction v arbitrary: t used)
  case (J_Str s)
  then show ?case
    by (cases "g s") (auto simp: f h transform_ok_def split: if_splits)
next
  case (J_Arr vs)
  have "transform_array check f ws = Inr (ts, used) \<Longrightarrow> set ws \<subseteq> set vs \<Longrightarrow> ts = map (json_map h) ws
      \<and> transform_ok check g secure (set (concat (map json_strings ws))) (set (concat (map json_names ws))) used" for ws ts used
  proof (induction ws arbitrary: ts used)
    case (Cons w ws)
    then obtain t1 u1 ts1 us1 where "transform_json check f w = Inr (t1, u1)" "transform_array check f ws = Inr (ts1, us1)"
      "ts = t1 # ts1" "used = u1 @ us1" by auto
    with Cons.IH [of ts1 us1] J_Arr.IH [of w t1 u1] Cons.prems(2) show ?case
      by (auto intro: transform_ok_union)
  qed auto
  with J_Arr.prems show ?case by auto
next
  case (J_Obj ms)
  have "transform_object check f ws = Inr (ts, used) \<Longrightarrow> set ws \<subseteq> set ms \<Longrightarrow> ts = map (\<lambda>(k, v). (k, json_map h v)) ws
      \<and> transform_ok check g secure (set (concat (map (\<lambda>(k, v). json_strings v) ws)))
           (set (concat (map (\<lambda>(k, v). k # json_names v) ws))) used" for ws ts used
  proof (induction ws arbitrary: ts used)
    case (Cons w ws)
    obtain k v where w: "w = (k, v)" by force
    from Cons.prems w obtain t1 u1 ts1 us1 where t: "transform_json check f v = Inr (t1, u1)"
      "transform_object check f ws = Inr (ts1, us1)" "ts = (k, t1) # ts1" "used = u1 @ us1" "check k = Inr ()" by auto
    have "t1 = json_map h v \<and> transform_ok check g secure (set (json_strings v)) (set (json_names v)) u1"
      using J_Obj.IH [of w v t1 u1] Cons.prems(2) w t(1) by auto
    with Cons.IH [of ts1 us1] Cons.prems(2) w t show ?case
      by (auto intro!: transform_ok_name transform_ok_union)
  qed auto
  with J_Obj.prems show ?case by auto
qed auto

lemma substitute_entries_spec:
  assumes "substitute_entries f vs = Inr (ws, used)"
    and f: "\<And>v w n. f v = Inr (w, n) \<Longrightarrow> w = h v \<and> P v \<and> (n = None \<longrightarrow> h v = v)"
  shows "ws = map h vs \<and> (\<forall>v \<in> set vs. P v) \<and> (used = [] \<longrightarrow> ws = vs)"
  using assms(1)
proof (induction vs arbitrary: ws used)
  case (Cons v vs)
  then obtain w n ws' us where "f v = Inr (w, n)" "substitute_entries f vs = Inr (ws', us)"
    "ws = w # ws'" "used = (case n of None \<Rightarrow> us | Some m \<Rightarrow> m # us)" by auto
  with Cons.IH [of ws' us] f [of v w n] show ?case by (auto split: option.splits)
qed simp

lemma substitute_values_spec:
  assumes "substitute_values check f m = Inr (m', used)"
    and f: "\<And>v w n. f v = Inr (w, n) \<Longrightarrow> w = h v \<and> P v \<and> (n = None \<longrightarrow> h v = v)"
  shows "m' = map (\<lambda>(k, vs). (k, map h vs)) m \<and> (\<forall>(k, vs) \<in> set m. check k = Inr () \<and> (\<forall>v \<in> set vs. P v))
    \<and> (used = [] \<longrightarrow> m' = m)"
  using assms(1)
proof (induction m arbitrary: m' used)
  case (Cons e m)
  obtain k vs where e: "e = (k, vs)" by force
  from Cons.prems e obtain ws us m1 us1 where "check k = Inr ()" "substitute_entries f vs = Inr (ws, us)"
    "substitute_values check f m = Inr (m1, us1)" "m' = (k, ws) # m1" "used = us @ us1" by auto
  with Cons.IH [of m1 us1] substitute_entries_spec [where f = f and vs = vs and ws = ws and used = us and h = h and P = P, OF _ f] e show ?case by auto
qed simp

text \<open>Parsed values have distinct keys, each with a value, and no more values than pieces.\<close>

lemma values_add_keys: "fst ` set (values_add k v m) = insert k (fst ` set m)"
proof (induction m)
  case (Cons e m)
  then show ?case by (cases e) (simp add: insert_commute)
qed simp

lemma values_add_props:
  "fst ` set (values_add k v m) = insert k (fst ` set m)"
  "distinct (map fst m) \<Longrightarrow> distinct (map fst (values_add k v m))"
  "\<forall>e \<in> set m. snd e \<noteq> [] \<Longrightarrow> \<forall>e \<in> set (values_add k v m). snd e \<noteq> []"
  "sum_list (map (length \<circ> snd) (values_add k v m)) = Suc (sum_list (map (length \<circ> snd) m))"
proof -
  show "fst ` set (values_add k v m) = insert k (fst ` set m)" by (rule values_add_keys)
  show "distinct (map fst m) \<Longrightarrow> distinct (map fst (values_add k v m))"
    by (induction m) (auto simp: values_add_keys)
  show "\<forall>e \<in> set m. snd e \<noteq> [] \<Longrightarrow> \<forall>e \<in> set (values_add k v m). snd e \<noteq> []"
  proof (induction m)
    case (Cons e m)
    then show ?case by (cases e) simp
  qed simp
  show "sum_list (map (length \<circ> snd) (values_add k v m)) = Suc (sum_list (map (length \<circ> snd) m))"
    by (induction m) auto
qed

lemma parse_pairs_props:
  assumes "parse_pairs ps m = Some m'" and "distinct (map fst m)" and "\<forall>e \<in> set m. snd e \<noteq> []"
  shows "distinct (map fst m') \<and> (\<forall>e \<in> set m'. snd e \<noteq> [])
    \<and> sum_list (map (length \<circ> snd) m') \<le> sum_list (map (length \<circ> snd) m) + length ps"
  using assms
proof (induction ps arbitrary: m)
  case (Cons p ps)
  then obtain kv where kv: "parse_pair p = Some kv" by (auto split: option.splits)
  show ?case
  proof (cases kv)
    case None
    with Cons.prems(1) kv have "parse_pairs ps m = Some m'" by simp
    from Cons.IH [OF this Cons.prems(2,3)] show ?thesis by simp
  next
    case (Some q)
    obtain k v where q: "q = (k, v)" by force
    have "parse_pairs ps (values_add k v m) = Some m'" using Cons.prems(1) kv Some q by simp
    from Cons.IH [OF this values_add_props(2,3) [of m k v]] Cons.prems(2,3) show ?thesis
      by (simp add: values_add_props(4) [unfolded comp_def])
  qed
qed simp

lemma parse_query_props:
  assumes "parse_query q = Some m"
  shows "distinct (map fst m)" "\<forall>e \<in> set m. snd e \<noteq> []" "sum_list (map (length \<circ> snd) m) \<le> 10000"
  using parse_pairs_props [of "split_on (CHR ''&'') q" "[]" m] assms
  by (auto simp: parse_query_def split: if_splits)

lemma length_values_pairs: "length (values_pairs m) = sum_list (map (length \<circ> snd) m)"
proof -
  have "length (values_pairs m) = sum_list (map (length \<circ> snd) (sort_key fst m))"
    by (simp add: values_pairs_def length_concat comp_def case_prod_beta)
  also have "\<dots> = sum_mset (image_mset (length \<circ> snd) (mset (sort_key fst m)))"
    by (metis mset_map sum_mset_sum_list)
  also have "\<dots> = sum_list (map (length \<circ> snd) m)"
    by (metis mset_map mset_sort sum_mset_sum_list)
  finally show ?thesis .
qed

definition strict_subst :: "resolved list \<Rightarrow> string \<Rightarrow> string" where
  "strict_subst items v = (case find (\<lambda>item. v = d_placeholder item) items of None \<Rightarrow> v | Some item \<Rightarrow> s_value item)"

lemma strict_subst_spec:
  assumes "substitute_value items v client host secure True = Inr (w, n)" and "distinct (map d_placeholder items)"
  shows "w = strict_subst items v \<and> (n = None \<longrightarrow> strict_subst items v = v) \<and>
    ((\<exists>item \<in> set items. v = d_placeholder item \<and> secure \<and> scoped item client host)
     \<or> (\<forall>item \<in> set items. \<not> contains v (d_placeholder item)))"
proof (cases n)
  case None
  with substitute_value_strict [OF assms(1)] have c: "w = v" "\<forall>item \<in> set items. \<not> contains v (d_placeholder item)" by simp_all
  then have "find (\<lambda>item. v = d_placeholder item) items = None" by (auto simp: find_None_iff)
  with c show ?thesis by (simp add: strict_subst_def)
next
  case (Some name)
  with substitute_value_strict [OF assms(1)] obtain item where
    i: "item \<in> set items" "v = d_placeholder item" "secure" "scoped item client host" "w = s_value item" by auto
  have "\<exists>j. find (\<lambda>item. v = d_placeholder item) items = Some j"
    using i(1,2) by (metis (mono_tags, lifting) find_None_iff option.exhaust)
  then obtain j where j: "find (\<lambda>item. v = d_placeholder item) items = Some j" by blast
  with find_SomeD have "j \<in> set items" "d_placeholder j = d_placeholder item" using i(2) by fastforce+
  then have "j = item" using assms(2) i(1) by (metis distinct_map inj_on_def)
  with j i Some show ?thesis by (auto simp: strict_subst_def)
qed

text \<open>\<open>SubstituteQuery\<close> round trip: when it accepts a query, no name contains a placeholder,
  every value is the placeholder of a secret in scope on a TLS request or contains none, and
  the query sent parses to the same names with exactly the placeholder values replaced, sorted by
  name; without a placeholder it is unchanged.\<close>

theorem substitute_query_roundtrip:
  assumes "broker_ok b" and "substitute_query (Some b) raw client host secure = Inr (out, names)" and "raw \<noteq> []"
  shows "\<exists>m. parse_query raw = Some m
    \<and> (\<forall>(k, vs) \<in> set m. \<not> contains_placeholder (Some b) k
        \<and> (\<forall>v \<in> set vs. (\<exists>item \<in> set (b_secrets b). v = d_placeholder item \<and> secure \<and> scoped item client host)
             \<or> (\<forall>item \<in> set (b_secrets b). \<not> contains v (d_placeholder item))))
    \<and> (if names = [] then out = raw
       else parse_query out = Some (sort_key fst (map (\<lambda>(k, vs). (k, map (strict_subst (b_secrets b)) vs)) m)))"
proof -
  let ?f = "\<lambda>v. substitute_value (b_secrets b) v client host secure True"
  from assms(2,3) obtain m m' used where m: "parse_query raw = Some m"
    "substitute_values (\<lambda>name. require (\<not> contains_placeholder (Some b) name) Query_Name) ?f m = Inr (m', used)"
    "names = sorted_names used" "out = (if names \<noteq> [] then values_encode m' else raw)"
    by (auto simp: substitute_query_def Let_def)
  have d: "distinct (map d_placeholder (b_secrets b))"
    using assms(1) by (simp add: broker_ok_def secrets_ok_def)
  let ?P = "\<lambda>v. (\<exists>item \<in> set (b_secrets b). v = d_placeholder item \<and> secure \<and> scoped item client host)
             \<or> (\<forall>item \<in> set (b_secrets b). \<not> contains v (d_placeholder item))"
  have f: "w = strict_subst (b_secrets b) v \<and> ?P v \<and> (n = None \<longrightarrow> strict_subst (b_secrets b) v = v)"
    if "?f v = Inr (w, n)" for v w n
    using strict_subst_spec [OF that d] by blast
  have s: "m' = map (\<lambda>(k, vs). (k, map (strict_subst (b_secrets b)) vs)) m"
    "\<forall>(k, vs) \<in> set m. \<not> contains_placeholder (Some b) k \<and> (\<forall>v \<in> set vs. ?P v)" "used = [] \<longrightarrow> m' = m"
    using substitute_values_spec [OF m(2) f] by (auto split: if_splits)
  have "parse_query out = Some (sort_key fst m')" if "names \<noteq> []"
  proof -
    have "used \<noteq> []" using m(3) that by simp
    then have "m \<noteq> []" using m(2) by auto
    moreover have "map fst m' = map fst m" "\<forall>e \<in> set m'. snd e \<noteq> []"
      "map (length \<circ> snd) m' = map (length \<circ> snd) m"
      using s(1) parse_query_props(2) [OF m(1)] by (auto simp: comp_def case_prod_beta)
    moreover have "m' \<noteq> []" using \<open>m \<noteq> []\<close> s(1) by simp
    ultimately have "distinct (map fst m')" "\<forall>e \<in> set m'. snd e \<noteq> []" "m' \<noteq> []"
      "length (values_pairs m') \<le> 10000"
      using parse_query_props(1,3) [OF m(1)] by (simp_all add: length_values_pairs)
    from values_roundtrip [OF this] m(4) that show ?thesis by simp
  qed
  with m s show ?thesis by (intro exI [of _ m]) auto
qed

lemma contains_scoped_iff:
  "contains_scoped_placeholder b data (scope_for b client host) \<longleftrightarrow>
     (\<exists>item \<in> set (b_secrets b). scoped item client host \<and> contains data (d_placeholder item))"
  by (auto simp: contains_scoped_placeholder_def scope_for_def zip_map2 zip_same_conv_map list_ex_iff)

lemma scope_nonempty: "list_ex id (scope_for b client host) \<longleftrightarrow> (\<exists>i. in_scope b client host i)"
  by (fastforce simp: scope_for_def list_ex_iff in_scope_def in_set_conv_nth)

text \<open>A JSON body is substituted in its string values only: when \<open>SubstituteBody\<close> accepts it,
  the body is one JSON value, no object name contains a placeholder in scope, and either no string
  value is such a placeholder and the body is returned byte for byte, or the connection is secure
  and the result is the encoding of the tree with exactly these strings replaced by their values;
  the names are those of the secrets used.\<close>

theorem substitute_body_json:
  assumes "substitute_body b ct body client host secure = Inr (out, names, supported)"
    and "json_media (parse_media_type ct)" and "in_scope b client host i" and "body \<noteq> []"
  shows "supported \<and> (\<exists>v rest. json_decode body = Some (v, rest) \<and> json_at_end rest
    \<and> (\<forall>k \<in> set (json_names v). \<forall>item \<in> set (b_secrets b). scoped item client host \<longrightarrow> \<not> contains k (d_placeholder item))
    \<and> set names = {d_name item | s item. s \<in> set (json_strings v) \<and> scoped_for (b_secrets b) client host s = Some item}
    \<and> (if names = [] then out = body
       else secure \<and> out = json_marshal (json_map (body_subst (b_secrets b) client host) v)))"
proof -
  let ?g = "scoped_for (b_secrets b) client host"
  let ?check = "\<lambda>name. require (\<not> contains_scoped_placeholder b name (scope_for b client host)) Json_Name"
  have scope: "list_ex id (scope_for b client host)" using assms(3) scope_nonempty by blast
  from assms(1,2,4) scope obtain v rest t used where v: "json_decode body = Some (v, rest)" "json_at_end rest"
    "transform_json ?check (\<lambda>v. substitute_value (b_secrets b) v client host secure False) v = Inr (t, used)"
    "names = sorted_names used" "out = (if names = [] then body else json_marshal t)" supported
    by (auto simp: substitute_body_def Let_def)
  have t: "t = json_map (body_subst (b_secrets b) client host) v"
    "transform_ok ?check ?g secure (set (json_strings v)) (set (json_names v)) used"
    using transform_json_spec [where g = ?g and secure = secure and h = "body_subst (b_secrets b) client host"
        and e = "\<lambda>item. Value_Over_Plaintext (d_name item)", OF substitute_value_body body_subst_def v(3)] by blast+
  have "secure" if "names \<noteq> []"
  proof -
    have "used \<noteq> []" using v(4) that by simp
    then have "hd used \<in> set used" by simp
    then show ?thesis using t(2) by (auto simp: transform_ok_def)
  qed
  with v t show ?thesis by (auto simp: transform_ok_def contains_scoped_iff)
qed

text \<open>Out of scope a body is inert: when no secret is scoped to the client and the host,
  \<open>SubstituteBody\<close> returns every body unchanged and without names.\<close>

theorem substitute_body_out_of_scope:
  assumes "\<forall>i. \<not> in_scope b client host i"
  shows "substitute_body b ct body client host secure = Inr (body, [], supported_media_type ct)"
  using assms scope_nonempty [of b client host] by (auto simp: substitute_body_def Let_def)

lemmas [evaluate] = parse_media_type_def json_media_def supported_media_type_def contains_placeholder_def
  contains_scoped_placeholder_def scope_for_def substitute_query_def substitute_body_def in_scope_def

lemma sample_query: "substitute_query (Some other_broker) ''k=VEILGATED_SECRET_a'' ''agent'' ''a.example.com'' True
    = Inr (''k=topsecret'', [''a''])"
  by (simp add: other_broker_def secret_of_def evaluate sorted_names_def sublist_code
      del: secret_representations_def new_needle_trie_def)

lemma substitute_query_roundtrip_witness: "\<exists>m. parse_query ''k=VEILGATED_SECRET_a'' = Some m \<and>
    parse_query ''k=topsecret'' = Some (sort_key fst (map (\<lambda>(k, vs). (k, map (strict_subst (b_secrets other_broker)) vs)) m))"
  using substitute_query_roundtrip [OF other_ok sample_query] by auto

lemma other_scope: "in_scope other_broker ''agent'' ''a.example.com'' 0"
  "\<forall>i. \<not> in_scope other_broker ''intruder'' ''a.example.com'' i"
proof -
  show "in_scope other_broker ''agent'' ''a.example.com'' 0"
    by (simp add: other_broker_def secret_of_def evaluate del: secret_representations_def new_needle_trie_def)
  have "\<not> list_ex id (scope_for other_broker ''intruder'' ''a.example.com'')"
    by (simp add: other_broker_def secret_of_def evaluate del: secret_representations_def new_needle_trie_def)
  then show "\<forall>i. \<not> in_scope other_broker ''intruder'' ''a.example.com'' i" by (simp add: scope_nonempty)
qed

definition sample_json :: string where
  "sample_json = [CHR 0x22] @ ''VEILGATED_SECRET_a'' @ [CHR 0x22]"

lemma sample_json_decode: "json_decode sample_json = Some (J_Str ''VEILGATED_SECRET_a'', [])" "json_at_end []"
  by (simp_all add: sample_json_def evaluate)

lemma sample_media: "json_media (parse_media_type ''application/json'')"
  by (simp add: evaluate)

lemma sample_subst: "substitute_value (b_secrets other_broker) ''VEILGATED_SECRET_a'' ''agent'' ''a.example.com'' True False
    = Inr (''topsecret'', Some ''a'')"
  by (simp add: other_broker_def secret_of_def evaluate del: secret_representations_def new_needle_trie_def)

lemma sample_json_body:
  "substitute_body other_broker ''application/json'' sample_json ''agent'' ''a.example.com'' True
    = Inr ([CHR 0x22] @ ''topsecret'' @ [CHR 0x22], [''a''], True)"
proof -
  have "list_ex id (scope_for other_broker ''agent'' ''a.example.com'')" "sample_json \<noteq> []"
    using other_scope(1) scope_nonempty by (blast, simp add: sample_json_def)
  moreover have "json_quote ''topsecret'' = [CHR 0x22] @ ''topsecret'' @ [CHR 0x22]" by (simp add: evaluate)
  ultimately show ?thesis
    by (simp add: substitute_body_def Let_def sample_media sample_json_decode sample_subst sorted_names_def)
qed

lemma substitute_body_json_witness: "\<exists>v rest. json_decode sample_json = Some (v, rest) \<and> json_at_end rest
    \<and> [CHR 0x22] @ ''topsecret'' @ [CHR 0x22]
      = json_marshal (json_map (body_subst (b_secrets other_broker) ''agent'' ''a.example.com'') v)"
proof -
  have "sample_json \<noteq> []" by (simp add: sample_json_def)
  from substitute_body_json [OF sample_json_body sample_media other_scope(1) this] show ?thesis by auto
qed

lemma substitute_body_out_of_scope_witness:
  "substitute_body other_broker ''application/json'' sample_json ''intruder'' ''a.example.com'' True
    = Inr (sample_json, [], supported_media_type ''application/json'')"
  by (rule substitute_body_out_of_scope [OF other_scope(2)])

end
