(* ===== verification/Go_Glob.thy ===== *)
theory Go_Glob
  imports Go_Strings
begin

text \<open>
  \<open>filepath.Match\<close> on Unix: shell patterns with \<open>*\<close>, \<open>?\<close>, character classes and
  backslash escapes, in which neither \<open>*\<close> nor \<open>?\<close> matches a slash. The functions follow
  the package's own scan: a pattern is a sequence of chunks, each behind an optional star;
  \<open>None\<close> is \<open>ErrBadPattern\<close>.
\<close>

text \<open>\<open>scanChunk\<close>: the length of the chunk that starts here.\<close>

fun chunk_length :: "bool \<Rightarrow> string \<Rightarrow> nat" where
  "chunk_length inrange [] = 0"
| "chunk_length inrange (c # s) =
    (if code c = 92 then (case s of [] \<Rightarrow> 1 | _ # t \<Rightarrow> 2 + chunk_length inrange t)
     else if c = CHR ''['' then 1 + chunk_length True s
     else if c = CHR '']'' then 1 + chunk_length False s
     else if c = CHR ''*'' \<and> \<not> inrange then 0
     else 1 + chunk_length inrange s)"

definition scan_chunk :: "string \<Rightarrow> bool \<times> string \<times> string" where
  "scan_chunk p = (let q = dropWhile (\<lambda>c. c = CHR ''*'') p; n = chunk_length False q in
     (q \<noteq> p, take n q, drop n q))"

text \<open>\<open>getEsc\<close>: one character of a class.\<close>

definition get_esc :: "string \<Rightarrow> (rune \<times> string) option" where
  "get_esc chunk =
    (if chunk = [] \<or> hd chunk = CHR ''-'' \<or> hd chunk = CHR '']'' then None
     else
       let chunk = (if code (hd chunk) = 92 then tl chunk else chunk) in
       if chunk = [] then None
       else
         let (r, n) = decode_rune chunk; rest = drop n chunk in
         if r = 65533 \<and> n = 1 \<or> rest = [] then None else Some (r, rest))"

lemma get_esc_shorter: "get_esc c = Some (r, c') \<Longrightarrow> length c' < length c"
  using decode_rune_width(1) [of c] decode_rune_width(1) [of "tl c"]
  by (auto simp: get_esc_def Let_def split: if_splits prod.splits)

text \<open>The ranges of a class up to its closing bracket: whether one of them holds \<open>r\<close>, and the
  rest of the chunk.\<close>

function class_ranges :: "rune \<Rightarrow> nat \<Rightarrow> bool \<Rightarrow> string \<Rightarrow> (bool \<times> string) option" where
  "class_ranges r nrange found chunk =
    (if chunk \<noteq> [] \<and> hd chunk = CHR '']'' \<and> 0 < nrange then Some (found, tl chunk)
     else
       (case get_esc chunk of
          None \<Rightarrow> None
        | Some (lo, chunk1) \<Rightarrow>
            (case (if hd chunk1 = CHR ''-'' then get_esc (tl chunk1) else Some (lo, chunk1)) of
               None \<Rightarrow> None
             | Some (hi, chunk2) \<Rightarrow>
                 class_ranges r (Suc nrange) (found \<or> lo \<le> r \<and> r \<le> hi) chunk2)))"
  by pat_completeness auto
termination
  by (relation "measure (\<lambda>(r, n, f, c). length c)")
    (auto dest!: get_esc_shorter split: if_splits)

declare class_ranges.simps [simp del]

lemma class_ranges_shorter: "class_ranges r n f c = Some (f', c') \<Longrightarrow> length c' < length c"
proof (induction r n f c rule: class_ranges.induct)
  case (1 r n f c)
  note step = "1.prems" [unfolded class_ranges.simps [of r n f c]]
  show ?case
  proof (cases "c \<noteq> [] \<and> hd c = CHR '']'' \<and> 0 < n")
    case True
    with step show ?thesis by auto
  next
    case False
    with step obtain lo c1 where g: "get_esc c = Some (lo, c1)" by (auto split: option.splits)
    with False step obtain hi c2 where
      h: "(if hd c1 = CHR ''-'' then get_esc (tl c1) else Some (lo, c1)) = Some (hi, c2)"
      and r: "class_ranges r (Suc n) (f \<or> lo \<le> r \<and> r \<le> hi) c2 = Some (f', c')"
      by (auto split: option.splits)
    have "length c' < length c2" by (rule "1.IH" [OF False g refl h refl r])
    moreover have "length c2 \<le> length c1"
      using h by (auto split: if_splits dest!: get_esc_shorter)
    ultimately show ?thesis using get_esc_shorter [OF g] by simp
  qed
qed

text \<open>\<open>matchChunk\<close>: \<open>None\<close> is a malformed pattern, \<open>Some None\<close> no match, and
  \<open>Some (Some t)\<close> a match that leaves \<open>t\<close>. After a failure only the pattern is read.\<close>

function match_chunk_from :: "bool \<Rightarrow> string \<Rightarrow> string \<Rightarrow> string option option" where
  "match_chunk_from failed chunk s =
    (if chunk = [] then Some (if failed then None else Some s)
     else
       let failed = (failed \<or> s = []); c = hd chunk in
       if c = CHR ''['' then
         (let (r, n) = (if failed then (0, 0) else decode_rune s);
              s = drop n s;
              negated = (tl chunk \<noteq> [] \<and> hd (tl chunk) = CHR ''^'');
              body = (if negated then tl (tl chunk) else tl chunk) in
          case class_ranges r 0 False body of
            None \<Rightarrow> None
          | Some (found, rest) \<Rightarrow> match_chunk_from (failed \<or> found = negated) rest s)
       else if c = CHR ''?'' then
         match_chunk_from (failed \<or> hd s = CHR ''/'') (tl chunk)
           (if failed then s else drop (snd (decode_rune s)) s)
       else if code c = 92 \<and> tl chunk = [] then None
       else
         let lit = (if code c = 92 then hd (tl chunk) else c);
             rest = (if code c = 92 then tl (tl chunk) else tl chunk) in
         match_chunk_from (failed \<or> lit \<noteq> hd s) rest (if failed then s else tl s))"
  by pat_completeness auto
termination
  apply (relation "measure (\<lambda>(f, c, s). length c)")
     apply (auto dest!: class_ranges_shorter split: if_splits)
  done

declare match_chunk_from.simps [simp del]

abbreviation match_chunk :: "string \<Rightarrow> string \<Rightarrow> string option option" where
  "match_chunk \<equiv> match_chunk_from False"

lemma chunk_length_pos: "s \<noteq> [] \<Longrightarrow> hd s \<noteq> CHR ''*'' \<Longrightarrow> 0 < chunk_length False s"
  by (cases s) (auto split: list.splits)

lemma scan_chunk_shorter:
  assumes "scan_chunk p = (star, chunk, rest)" and "p \<noteq> []"
  shows "length rest < length p"
proof (cases "hd p = CHR ''*''")
  case True
  define q where "q = dropWhile (\<lambda>c. c = CHR ''*'') (tl p)"
  have "dropWhile (\<lambda>c. c = CHR ''*'') p = q" using True assms(2) by (cases p) (simp_all add: q_def)
  moreover have "length q \<le> length (tl p)" unfolding q_def by (rule length_dropWhile_le)
  ultimately have "length (dropWhile (\<lambda>c. c = CHR ''*'') p) < length p"
    using assms(2) by (cases p) simp_all
  then show ?thesis using assms(1) by (auto simp: scan_chunk_def Let_def)
next
  case False
  then have "dropWhile (\<lambda>c. c = CHR ''*'') p = p" using assms(2) by (cases p) simp_all
  with False show ?thesis
    using assms chunk_length_pos [of p] by (auto simp: scan_chunk_def Let_def)
qed

text \<open>The star's skips: the first position at which the chunk matches, provided the last chunk of a
  pattern exhausts the name.\<close>

fun skip_match :: "bool \<Rightarrow> string \<Rightarrow> string \<Rightarrow> string option option" where
  "skip_match last_chunk chunk [] = Some None"
| "skip_match last_chunk chunk (c # s) =
    (if c = CHR ''/'' then Some None else
     case match_chunk chunk s of
       None \<Rightarrow> None
     | Some None \<Rightarrow> skip_match last_chunk chunk s
     | Some (Some t) \<Rightarrow>
         if last_chunk \<and> t \<noteq> [] then skip_match last_chunk chunk s else Some (Some t))"

text \<open>The remainder of a pattern that did not match is still checked for its syntax.\<close>

function well_formed_pattern :: "string \<Rightarrow> bool" where
  "well_formed_pattern p =
    (if p = [] then True
     else let (star, chunk, rest) = scan_chunk p in
       match_chunk chunk [] \<noteq> None \<and> well_formed_pattern rest)"
  by pat_completeness auto
termination
  by (relation "measure length") (simp_all, metis scan_chunk_shorter)

declare well_formed_pattern.simps [simp del]

text \<open>One chunk at the front of the name: what is left after its match, if it matches.\<close>

definition chunk_step :: "bool \<Rightarrow> bool \<Rightarrow> string \<Rightarrow> string \<Rightarrow> string option option" where
  "chunk_step last_chunk star chunk name = (case match_chunk chunk name of
     None \<Rightarrow> None
   | Some m \<Rightarrow>
       if m \<noteq> None \<and> (m = Some [] \<or> \<not> last_chunk) then Some m
       else if star then skip_match last_chunk chunk name else Some None)"

function glob_match :: "string \<Rightarrow> string \<Rightarrow> bool option" where
  "glob_match p name =
    (if p = [] then Some (name = [])
     else
       let (star, chunk, rest) = scan_chunk p in
       if star \<and> chunk = [] then Some (CHR ''/'' \<notin> set name)
       else
         (case chunk_step (rest = []) star chunk name of
            None \<Rightarrow> None
          | Some (Some t) \<Rightarrow> glob_match rest t
          | Some None \<Rightarrow> if well_formed_pattern rest then Some False else None))"
  by pat_completeness auto
termination
  by (relation "measure (length \<circ> fst)") (simp_all, metis scan_chunk_shorter)

declare glob_match.simps [simp del]

lemmas [evaluate] = glob_match.simps [of "_ # _"] glob_match.simps [of "[]"]
  well_formed_pattern.simps [of "_ # _"] well_formed_pattern.simps [of "[]"]
  match_chunk_from.simps [of _ "_ # _"] match_chunk_from.simps [of _ "[]"] class_ranges.simps
  chunk_step_def scan_chunk_def get_esc_def

end
