(* ===== verification/Flow.thy ===== *)
theory Flow
  imports Go_Glob
begin

text \<open>
  The records of the package \<open>flow\<close> (\<open>internal/flow/store.go\<close>): a flow is the sanitized
  account of one proxied request or tunnel. A \<open>time.Time\<close> is its reading in nanoseconds; an
  identifier keeps its 64 bits because the code compares and increments it; sizes, ports and
  statuses are only stored here and are integers. Cloning and the filter of the list operations
  follow.
\<close>

record policy_step =
  ps_check :: string
  ps_outcome :: string
  ps_detail :: string

record payload_capture =
  pc_content_type :: string
  pc_text :: string
  pc_omitted :: bool
  pc_truncated :: bool

record header_capture =
  hc_name :: string
  hc_values :: "string list"

record ws_message =
  wm_direction :: string
  wm_kind :: string
  wm_text :: string
  wm_size :: int
  wm_sha256 :: string

record traffic_capture =
  tc_query :: string
  tc_request_headers :: "header_capture list"
  tc_response_headers :: "header_capture list"
  tc_request_body :: "payload_capture option"
  tc_response_body :: "payload_capture option"
  tc_messages :: "ws_message list"
  tc_truncated :: bool

record flow =
  fl_id :: "64 word"
  fl_session :: string
  fl_started_at :: int
  fl_duration :: int
  fl_client :: string
  fl_method :: string
  fl_scheme :: string
  fl_host :: string
  fl_port :: int
  fl_path :: string
  fl_mode :: string
  fl_downstream :: string
  fl_upstream :: string
  fl_destination :: string
  fl_decision :: string
  fl_reason :: string
  fl_status :: int
  fl_sent :: int
  fl_received :: int
  fl_decoded :: int
  fl_secrets :: "string list"
  fl_response_secrets :: "string list"
  fl_trace :: "policy_step list"
  fl_capture :: traffic_capture

text \<open>The zero values of Go.\<close>

definition empty_payload :: payload_capture where
  "empty_payload = \<lparr>pc_content_type = [], pc_text = [], pc_omitted = False, pc_truncated = False\<rparr>"

definition empty_capture :: traffic_capture where
  "empty_capture = \<lparr>tc_query = [], tc_request_headers = [], tc_response_headers = [],
     tc_request_body = None, tc_response_body = None, tc_messages = [], tc_truncated = False\<rparr>"

definition empty_flow :: flow where
  "empty_flow = \<lparr>fl_id = 0, fl_session = [], fl_started_at = 0, fl_duration = 0, fl_client = [],
     fl_method = [], fl_scheme = [], fl_host = [], fl_port = 0, fl_path = [], fl_mode = [],
     fl_downstream = [], fl_upstream = [], fl_destination = [], fl_decision = [], fl_reason = [],
     fl_status = 0, fl_sent = 0, fl_received = 0, fl_decoded = 0, fl_secrets = [],
     fl_response_secrets = [], fl_trace = [], fl_capture = empty_capture\<rparr>"

definition trace_step :: "string \<Rightarrow> string \<Rightarrow> string \<Rightarrow> flow \<Rightarrow> flow" where
  "trace_step check outcome detail f =
     f\<lparr>fl_trace := fl_trace f @ [\<lparr>ps_check = check, ps_outcome = outcome, ps_detail = detail\<rparr>]\<rparr>"

text \<open>Copies. \<open>clone_flow\<close> copies every slice and payload that the record refers to, which makes
  the copy equal to the original; the summary drops the large fields.\<close>

definition clone_headers :: "header_capture list \<Rightarrow> header_capture list" where
  "clone_headers hs = map (\<lambda>h. \<lparr>hc_name = hc_name h, hc_values = [] @ hc_values h\<rparr>) hs"

definition clone_flow :: "flow \<Rightarrow> flow" where
  "clone_flow item =
     (let c = fl_capture item in
      item\<lparr>fl_secrets := [] @ fl_secrets item,
           fl_response_secrets := [] @ fl_response_secrets item,
           fl_trace := [] @ fl_trace item,
           fl_capture := c\<lparr>tc_request_headers := clone_headers (tc_request_headers c),
             tc_response_headers := clone_headers (tc_response_headers c),
             tc_messages := [] @ tc_messages c,
             tc_request_body := map_option (\<lambda>p. p) (tc_request_body c),
             tc_response_body := map_option (\<lambda>p. p) (tc_response_body c)\<rparr>\<rparr>)"

definition clone_flow_summary :: "flow \<Rightarrow> flow" where
  "clone_flow_summary item =
     item\<lparr>fl_secrets := [], fl_response_secrets := [], fl_trace := [], fl_capture := empty_capture\<rparr>"

lemma clone_headers_id [simp]: "clone_headers hs = hs"
  by (induction hs) (simp_all add: clone_headers_def)

lemma clone_flow_id [simp]: "clone_flow item = item"
  by (simp add: clone_flow_def Let_def option.map_ident)

subsection \<open>Filters\<close>

record flow_filter =
  ff_client :: string
  ff_host :: string
  ff_decision :: string
  ff_mode :: string
  ff_method :: string
  ff_sessions :: "string list"
  ff_before :: "64 word"
  ff_limit :: int

definition session_match :: "flow \<Rightarrow> string list \<Rightarrow> bool" where
  "session_match item sessions \<longleftrightarrow> sessions = [] \<or> fl_session item \<in> set sessions"

definition match_host_pattern :: "string \<Rightarrow> string \<Rightarrow> bool" where
  "match_host_pattern pattern host =
    (let pattern = to_lower (trim_space pattern); host = to_lower (trim_space host) in
     if pattern = [] \<or> pattern = host then True
     else if (case cut_prefix pattern ''*.'' of
                Some suf \<Rightarrow> host = suf \<or> has_suffix host (''.'' @ suf)
              | None \<Rightarrow> False) then True
     else contains_any pattern ''*?'' \<and> glob_match pattern host = Some True)"

definition matches_filter :: "flow \<Rightarrow> flow_filter \<Rightarrow> bool" where
  "matches_filter item f \<longleftrightarrow>
     (ff_client f = [] \<or> fl_client item = ff_client f) \<and>
     (ff_host f = [] \<or> match_host_pattern (ff_host f) (fl_host item)) \<and>
     (ff_decision f = [] \<or> fl_decision item = ff_decision f) \<and>
     (ff_mode f = [] \<or> fl_mode item = ff_mode f) \<and>
     (ff_method f = [] \<or> fl_method item = ff_method f) \<and>
     (ff_before f = 0 \<or> fl_id item < ff_before f) \<and>
     session_match item (ff_sessions f)"

text \<open>What the cursor and the sessions do to a filter.\<close>

lemma matches_before_zero:
  "matches_filter item (f\<lparr>ff_before := b\<rparr>) \<longleftrightarrow>
     (b = 0 \<or> fl_id item < b) \<and> matches_filter item (f\<lparr>ff_before := 0\<rparr>)"
  by (auto simp: matches_filter_def)

lemma matches_limit [simp]: "matches_filter item (f\<lparr>ff_limit := n\<rparr>) = matches_filter item f"
  by (simp add: matches_filter_def)

text \<open>The host of a filter is a pattern, compared without case.\<close>

lemma filter_host_pattern:
  "matches_filter (empty_flow\<lparr>fl_host := ''a.example.com''\<rparr>)
     \<lparr>ff_client = [], ff_host = ''*.Example.com'', ff_decision = [], ff_mode = [], ff_method = [],
      ff_sessions = [], ff_before = 0, ff_limit = 1\<rparr>"
proof -
  have lower: "to_lower ''*.Example.com'' = ''*.example.com''" "to_lower ''a.example.com'' = ''a.example.com''"
    by (simp_all add: evaluate)
  have trim: "trim_space ''*.Example.com'' = ''*.Example.com''" "trim_space ''a.example.com'' = ''a.example.com''"
    by (simp_all add: trim_space_graphic evaluate graphic_def)
  show ?thesis
    by (simp add: matches_filter_def match_host_pattern_def lower trim cut_prefix_def session_match_def
      empty_flow_def suffix_to_prefix)
qed

end
