(* ===== verification/Flow_Store.thy ===== *)
theory Flow_Store
  imports Flow
begin

text \<open>
  The flow store (\<open>internal/flow/store.go\<close>): the interface of its backends, the in-memory
  ring buffer, listing by pages, and the live subscribers.

  The Go interface \<open>backend\<close> is a record of functions over the backend's state. The locale
  \<open>flow_backend\<close> states what the store relies on: a backend holds a newest-first list of
  flows with strictly descending identifiers, lists its matching flows in that order, and an
  addition puts the flow in front and may drop the oldest. The pages and the live stream are
  proved against it, and the ring buffer is shown to be an instance.
\<close>

datatype store_error = Capacity_Not_Positive | Bad_Database_Url | Backend_Error string

record 's backend =
  bk_add :: "'s \<Rightarrow> flow \<Rightarrow> nat \<Rightarrow> (store_error, flow \<times> 's) result"
  bk_list :: "'s \<Rightarrow> flow_filter \<Rightarrow> nat \<Rightarrow> (store_error, flow list) result"
  bk_list_summary :: "'s \<Rightarrow> flow_filter \<Rightarrow> nat \<Rightarrow> (store_error, flow list) result"
  bk_get :: "'s \<Rightarrow> 64 word \<Rightarrow> (store_error, flow option) result"

subsection \<open>The ring buffer\<close>

record mem_backend =
  mb_next :: "64 word"
  mb_start :: nat
  mb_count :: nat
  mb_flows :: "flow list"

definition empty_backend :: mem_backend where
  "empty_backend = \<lparr>mb_next = 0, mb_start = 0, mb_count = 0, mb_flows = []\<rparr>"

definition mem_add :: "mem_backend \<Rightarrow> flow \<Rightarrow> nat \<Rightarrow> (store_error, flow \<times> mem_backend) result" where
  "mem_add b item capacity =
    (let b = (if mb_flows b = [] then b\<lparr>mb_flows := replicate capacity empty_flow\<rparr> else b);
         b = b\<lparr>mb_next := mb_next b + 1\<rparr>;
         item = item\<lparr>fl_id := mb_next b\<rparr>;
         n = length (mb_flows b);
         index = (mb_start b + mb_count b) mod n in
     Inr (item,
       if mb_count b = n then
         b\<lparr>mb_flows := (mb_flows b)[mb_start b := item], mb_start := (mb_start b + 1) mod n\<rparr>
       else b\<lparr>mb_flows := (mb_flows b)[index := item], mb_count := mb_count b + 1\<rparr>))"

text \<open>The flow at distance \<open>d\<close> from the newest one.\<close>

definition mem_at :: "mem_backend \<Rightarrow> nat \<Rightarrow> flow" where
  "mem_at b d = mb_flows b ! ((mb_start b + mb_count b - 1 - d) mod length (mb_flows b))"

function mem_list_from :: "mem_backend \<Rightarrow> flow_filter \<Rightarrow> bool \<Rightarrow> nat \<Rightarrow> flow list \<Rightarrow> flow list" where
  "mem_list_from b f summary offset out =
    (if offset < mb_count b \<and> int (length out) < ff_limit f then
       let item = mem_at b offset in
       mem_list_from b f summary (offset + 1)
         (if \<not> matches_filter item f then out
          else if summary then out @ [clone_flow_summary item] else out @ [clone_flow item])
     else out)"
  by pat_completeness auto
termination
  by (relation "measure (\<lambda>(b, f, s, offset, out). mb_count b - offset)") auto

declare mem_list_from.simps [simp del]

definition mem_list :: "bool \<Rightarrow> mem_backend \<Rightarrow> flow_filter \<Rightarrow> nat \<Rightarrow> (store_error, flow list) result" where
  "mem_list summary b f capacity = Inr (mem_list_from b f summary 0 [])"

function mem_get_from :: "mem_backend \<Rightarrow> 64 word \<Rightarrow> nat \<Rightarrow> flow option" where
  "mem_get_from b i offset =
    (if offset < mb_count b then
       let item = mb_flows b ! ((mb_start b + offset) mod length (mb_flows b)) in
       if fl_id item = i then Some (clone_flow item) else mem_get_from b i (offset + 1)
     else None)"
  by pat_completeness auto
termination
  by (relation "measure (\<lambda>(b, i, offset). mb_count b - offset)") auto

declare mem_get_from.simps [simp del]

definition mem_get :: "mem_backend \<Rightarrow> 64 word \<Rightarrow> (store_error, flow option) result" where
  "mem_get b i = Inr (mem_get_from b i 0)"

definition mem_ops :: "mem_backend backend" where
  "mem_ops = \<lparr>bk_add = mem_add, bk_list = mem_list False, bk_list_summary = mem_list True,
     bk_get = mem_get\<rparr>"

subsection \<open>The store\<close>

text \<open>A subscriber is a channel with its buffered flows. \<open>st_next\<close> is the identity of the next
  channel that \<open>make\<close> returns.\<close>

record 's store =
  st_backend :: 's
  st_capacity :: nat
  st_subscribers :: "(nat \<times> flow list) list"
  st_next :: nat

abbreviation channel_capacity :: nat where
  "channel_capacity \<equiv> 16"

definition open_memory :: "int \<Rightarrow> (store_error, mem_backend store) result" where
  "open_memory capacity =
    (if capacity < 1 then Inl Capacity_Not_Positive
     else Inr \<lparr>st_backend = empty_backend, st_capacity = nat capacity, st_subscribers = [],
       st_next = 0\<rparr>)"

text \<open>The non-blocking send of \<open>Add\<close>.\<close>

definition offer :: "flow \<Rightarrow> nat \<times> flow list \<Rightarrow> nat \<times> flow list" where
  "offer item ch = (fst ch, if length (snd ch) < channel_capacity then snd ch @ [item] else snd ch)"

definition notify :: "flow \<Rightarrow> 's store \<Rightarrow> 's store" where
  "notify item s = s\<lparr>st_subscribers := map (offer item) (st_subscribers s)\<rparr>"

definition store_add :: "'s backend \<Rightarrow> 's store \<Rightarrow> flow \<Rightarrow> (store_error, flow \<times> 's store) result" where
  "store_add ops s item =
    rbind (bk_add ops (st_backend s) item (st_capacity s)) (\<lambda>(item, b).
      Inr (item, notify item (s\<lparr>st_backend := b\<rparr>)))"

definition bounded_limit :: "nat \<Rightarrow> flow_filter \<Rightarrow> flow_filter" where
  "bounded_limit capacity f =
    (if ff_limit f \<le> 0 \<or> int capacity < ff_limit f then f\<lparr>ff_limit := int capacity\<rparr> else f)"

definition store_list :: "'s backend \<Rightarrow> 's store \<Rightarrow> flow_filter \<Rightarrow> (store_error, flow list) result" where
  "store_list ops s f = bk_list ops (st_backend s) (bounded_limit (st_capacity s) f) (st_capacity s)"

definition store_get :: "'s backend \<Rightarrow> 's store \<Rightarrow> 64 word \<Rightarrow> (store_error, flow option) result" where
  "store_get ops s i = bk_get ops (st_backend s) i"

definition subscribe :: "'s store \<Rightarrow> nat \<times> 's store" where
  "subscribe s = (st_next s,
     s\<lparr>st_subscribers := (st_next s, []) # st_subscribers s, st_next := st_next s + 1\<rparr>)"

text \<open>Cancelling deletes the channel; the \<open>sync.Once\<close> makes a second call do nothing, as
  deleting an absent channel does here.\<close>

definition cancel :: "nat \<Rightarrow> 's store \<Rightarrow> 's store" where
  "cancel ch s = s\<lparr>st_subscribers := filter (\<lambda>c. fst c \<noteq> ch) (st_subscribers s)\<rparr>"

definition drain_one :: "nat \<Rightarrow> 's store \<Rightarrow> 's store" where
  "drain_one ch s = s\<lparr>st_subscribers :=
     map (\<lambda>c. if fst c = ch then (ch, tl (snd c)) else c) (st_subscribers s)\<rparr>"

subsection \<open>Pages\<close>

record page =
  pg_flows :: "flow list"
  pg_parents :: "flow list"
  pg_next :: "64 word"
  pg_more :: bool

fun min_id :: "64 word \<Rightarrow> flow list \<Rightarrow> 64 word" where
  "min_id m [] = m"
| "min_id m (i # is) = min_id (if fl_id i < m then fl_id i else m) is"

definition present_sessions :: "flow list \<Rightarrow> string list" where
  "present_sessions items =
     map fl_session (filter (\<lambda>i. fl_method i = ''CONNECT'' \<and> fl_session i \<noteq> []) items)"

fun missing_sessions :: "string list \<Rightarrow> string list \<Rightarrow> flow list \<Rightarrow> string list" where
  "missing_sessions present seen [] = []"
| "missing_sessions present seen (i # is) =
    (if fl_session i = [] \<or> fl_session i \<in> set present \<or> fl_session i \<in> set seen
     then missing_sessions present seen is
     else fl_session i # missing_sessions present (fl_session i # seen) is)"

definition parent_filter :: "flow_filter \<Rightarrow> string list \<Rightarrow> 64 word \<Rightarrow> flow_filter" where
  "parent_filter f missing m = f\<lparr>ff_mode := [], ff_method := ''CONNECT'', ff_sessions := missing,
     ff_before := m, ff_limit := int (length missing)\<rparr>"

definition list_page :: "'s backend \<Rightarrow> bool \<Rightarrow> 's store \<Rightarrow> flow_filter \<Rightarrow> (store_error, page) result" where
  "list_page ops summary s f =
    (let f = bounded_limit (st_capacity s) f;
         list = (if summary then bk_list_summary ops else bk_list ops) in
     rbind (list (st_backend s) f (st_capacity s)) (\<lambda>items.
       let pg = \<lparr>pg_flows = items, pg_parents = [], pg_next = 0,
                 pg_more = (int (length items) = ff_limit f)\<rparr> in
       if items = [] then Inr pg
       else
         let m = min_id (fl_id (hd items)) items;
             pg = pg\<lparr>pg_next := m\<rparr>;
             missing = missing_sessions (present_sessions items) [] items in
         if missing = [] then Inr pg
         else
           rbind (list (st_backend s) (parent_filter f missing m) (st_capacity s)) (\<lambda>parents.
             Inr (pg\<lparr>pg_parents := parents\<rparr>))))"

subsection \<open>The contract of a backend\<close>

locale flow_backend =
  fixes ops :: "'s backend"
    and ok :: "nat \<Rightarrow> 's \<Rightarrow> bool"
    and contents :: "'s \<Rightarrow> flow list"
    and selects :: "flow_filter \<Rightarrow> flow \<Rightarrow> bool"
    and newest :: "'s \<Rightarrow> nat"
  assumes list_law: "ok cap b \<Longrightarrow> 0 \<le> ff_limit f \<Longrightarrow>
      bk_list ops b f cap = Inr (take (nat (ff_limit f)) (filter (selects f) (contents b)))"
    and summary_law: "ok cap b \<Longrightarrow> 0 \<le> ff_limit f \<Longrightarrow> bk_list_summary ops b f cap =
      Inr (map clone_flow_summary (take (nat (ff_limit f)) (filter (selects f) (contents b))))"
    and get_law: "ok cap b \<Longrightarrow> bk_get ops b i = Inr (find (\<lambda>x. fl_id x = i) (contents b))"
    and add_law: "ok cap b \<Longrightarrow> newest b + 1 < 2 ^ 64 \<Longrightarrow> \<exists>i b' n. bk_add ops b item cap =
      Inr (item\<lparr>fl_id := i\<rparr>, b') \<and> ok cap b' \<and> newest b < unat i \<and> newest b' = unat i \<and>
      cap \<le> n \<and> contents b' = take n (item\<lparr>fl_id := i\<rparr> # contents b)"
    and order_law: "ok cap b \<Longrightarrow> sorted_wrt (\<lambda>x y. fl_id y < fl_id x) (contents b)"
    and id_law: "ok cap b \<Longrightarrow> x \<in> set (contents b) \<Longrightarrow> 0 < fl_id x \<and> unat (fl_id x) \<le> newest b"
    and before_law: "selects (f\<lparr>ff_before := m\<rparr>) x \<longleftrightarrow>
      (m = 0 \<or> fl_id x < m) \<and> selects (f\<lparr>ff_before := 0\<rparr>) x"
    and limit_law: "selects (f\<lparr>ff_limit := n\<rparr>) = selects f"

text \<open>Facts about strictly descending lists.\<close>

lemma descending_filter_below:
  assumes "sorted_wrt (\<lambda>x y. fl_id y < fl_id x) xs" and "0 < n" and "xs \<noteq> []"
  shows "filter (\<lambda>i. fl_id i < fl_id (last (take n xs))) xs = drop n xs"
  using assms
proof (induction xs arbitrary: n)
  case Nil
  then show ?case by simp
next
  case (Cons x xs)
  obtain m where n: "n = Suc m" using Cons.prems(2) by (cases n) auto
  show ?case
  proof (cases "take m xs = []")
    case True
    then show ?thesis using Cons.prems n by (auto simp: filter_id_conv)
  next
    case False
    then have "last (take m xs) \<in> set xs" by (metis in_set_takeD last_in_set)
    then have "\<not> fl_id x < fl_id (last (take m xs))" using Cons.prems(1) by (auto dest: less_asym)
    then show ?thesis using False Cons n by (cases m) auto
  qed
qed

lemma descending_distinct: "sorted_wrt (\<lambda>x y. fl_id y < fl_id x) xs \<Longrightarrow> distinct xs"
  by (induction xs) auto

lemma min_id_descending:
  "sorted_wrt (\<lambda>x y. fl_id y < fl_id x) xs \<Longrightarrow> xs \<noteq> [] \<Longrightarrow> \<forall>x \<in> set xs. fl_id x \<le> m \<Longrightarrow>
   min_id m xs = (if fl_id (last xs) < m then fl_id (last xs) else m)"
proof (induction xs arbitrary: m)
  case (Cons x xs)
  show ?case
  proof (cases xs)
    case Nil
    then show ?thesis by simp
  next
    case (Cons y ys)
    then have "fl_id (last xs) < fl_id x" using Cons.prems(1) by auto
    moreover have "min_id (if fl_id x < m then fl_id x else m) xs =
        (if fl_id (last xs) < (if fl_id x < m then fl_id x else m) then fl_id (last xs)
         else (if fl_id x < m then fl_id x else m))"
      using Cons.prems Cons by (intro Cons.IH) (auto dest: less_imp_le less_trans)
    ultimately show ?thesis using Cons by (auto dest: less_trans)
  qed
qed simp

lemma min_id_last:
  assumes "sorted_wrt (\<lambda>x y. fl_id y < fl_id x) xs" and "xs \<noteq> []"
  shows "min_id (fl_id (hd xs)) xs = fl_id (last xs)"
proof -
  obtain x ys where xs: "xs = x # ys" using assms(2) by (cases xs) auto
  have "\<forall>y \<in> set xs. fl_id y \<le> fl_id (hd xs)" using assms(1) xs by (auto intro: less_imp_le)
  moreover have "fl_id (last xs) \<le> fl_id (hd xs)" using calculation assms(2) by auto
  ultimately show ?thesis using min_id_descending [OF assms, of "fl_id (hd xs)"] by auto
qed

lemma summary_fields [simp]:
  "fl_id (clone_flow_summary x) = fl_id x" "fl_method (clone_flow_summary x) = fl_method x"
  "fl_session (clone_flow_summary x) = fl_session x"
  by (simp_all add: clone_flow_summary_def)

lemma min_id_map [simp]: "min_id m (map clone_flow_summary xs) = min_id m xs"
  by (induction xs arbitrary: m) simp_all

lemma present_map [simp]: "present_sessions (map clone_flow_summary xs) = present_sessions xs"
  by (induction xs) (simp_all add: present_sessions_def)

lemma missing_map [simp]:
  "missing_sessions p seen (map clone_flow_summary xs) = missing_sessions p seen xs"
  by (induction p seen xs rule: missing_sessions.induct) simp_all

lemma set_missing:
  "set (missing_sessions p seen is) =
     {s \<in> fl_session ` set is. s \<noteq> [] \<and> s \<notin> set p \<and> s \<notin> set seen}"
  by (induction p seen "is" rule: missing_sessions.induct) auto

lemma distinct_missing: "distinct (missing_sessions p seen is)"
  by (induction p seen "is" rule: missing_sessions.induct) (auto simp: set_missing)

lemma set_present: "set (present_sessions is) =
  {fl_session i | i. i \<in> set is \<and> fl_method i = ''CONNECT'' \<and> fl_session i \<noteq> []}"
  by (auto simp: present_sessions_def)

text \<open>Reading all pages with the cursor that each page returns.\<close>

fun walk_pages :: "'s backend \<Rightarrow> bool \<Rightarrow> 's store \<Rightarrow> nat \<Rightarrow> flow_filter \<Rightarrow> flow list" where
  "walk_pages ops summary s 0 f = []"
| "walk_pages ops summary s (Suc n) f = (case list_page ops summary s f of
     Inl e \<Rightarrow> []
   | Inr pg \<Rightarrow> if pg_more pg then pg_flows pg @ walk_pages ops summary s n (f\<lparr>ff_before := pg_next pg\<rparr>)
       else pg_flows pg)"

definition view :: "bool \<Rightarrow> flow \<Rightarrow> flow" where
  "view summary = (if summary then clone_flow_summary else (\<lambda>x. x))"

lemma view_fields [simp]:
  "fl_id (view b x) = fl_id x" "fl_method (view b x) = fl_method x"
  "fl_session (view b x) = fl_session x"
  by (simp_all add: view_def)

lemma view_maps [simp]:
  "min_id m (map (view b) xs) = min_id m xs" "present_sessions (map (view b) xs) = present_sessions xs"
  "missing_sessions p seen (map (view b) xs) = missing_sessions p seen xs"
  by (simp_all add: view_def)

lemma bounded_limit_range: "0 < cap \<Longrightarrow> 0 < ff_limit (bounded_limit cap f)"
  by (simp add: bounded_limit_def)

lemma bounded_limit_before [simp]:
  "bounded_limit cap (f\<lparr>ff_before := m\<rparr>) = (bounded_limit cap f)\<lparr>ff_before := m\<rparr>"
  by (simp add: bounded_limit_def)

definition page_size :: "'s store \<Rightarrow> flow_filter \<Rightarrow> nat" where
  "page_size s f = nat (ff_limit (bounded_limit (st_capacity s) f))"

lemma page_size_pos: "0 < st_capacity s \<Longrightarrow> 0 < page_size s f"
  using bounded_limit_range [of "st_capacity s" f] by (simp add: page_size_def)

lemma page_size_before [simp]: "page_size s (f\<lparr>ff_before := m\<rparr>) = page_size s f"
  by (simp add: page_size_def)

context flow_backend
begin

lemma selects_bounded [simp]: "selects (bounded_limit cap f) = selects f"
  by (simp add: bounded_limit_def limit_law)

lemma list_either:
  assumes "ok cap b" and "0 \<le> ff_limit f"
  shows "(if summary then bk_list_summary ops else bk_list ops) b f cap =
     Inr (map (view summary) (take (nat (ff_limit f)) (filter (selects f) (contents b))))"
  using list_law [OF assms] summary_law [OF assms] by (simp add: view_def)

lemma list_page_eq:
  fixes s :: "'s store" and f :: flow_filter
  assumes "ok (st_capacity s) (st_backend s)" and "0 < st_capacity s"
  defines "items \<equiv> take (page_size s f) (filter (selects f) (contents (st_backend s)))"
  defines "missing \<equiv> missing_sessions (present_sessions items) [] items"
  defines "older \<equiv> parent_filter (bounded_limit (st_capacity s) f) missing (fl_id (last items))"
  shows "list_page ops summary s f = Inr \<lparr>pg_flows = map (view summary) items,
    pg_parents = map (view summary) (take (length missing) (filter (selects older) (contents (st_backend s)))),
    pg_next = (if items = [] then 0 else fl_id (last items)),
    pg_more = (length items = page_size s f)\<rparr>"
proof -
  let ?f = "bounded_limit (st_capacity s) f" and ?cap = "st_capacity s" and ?b = "st_backend s"
  have pos: "0 < ff_limit ?f" using bounded_limit_range [OF assms(2)] by simp
  then have l: "(if summary then bk_list_summary ops else bk_list ops) ?b ?f ?cap =
      Inr (map (view summary) items)"
    using list_either [OF assms(1), of ?f summary] by (simp add: items_def page_size_def)
  have p: "(if summary then bk_list_summary ops else bk_list ops) ?b older ?cap =
      Inr (map (view summary) (take (length missing) (filter (selects older) (contents ?b))))"
    using list_either [OF assms(1), of older summary] by (simp add: older_def parent_filter_def)
  have sorted: "sorted_wrt (\<lambda>x y. fl_id y < fl_id x) items"
    using order_law [OF assms(1)] unfolding items_def
    by (intro sorted_wrt_take sorted_wrt_filter)
  have m: "min_id (fl_id (hd items)) items = fl_id (last items)" if "items \<noteq> []"
    using min_id_last [OF sorted that] .
  have more: "(int (length items) = ff_limit ?f) = (length items = page_size s f)"
    using pos by (auto simp: page_size_def)
  show ?thesis
  proof (cases "items = []")
    case True
    then have "missing = []" by (simp add: missing_def)
    with True show ?thesis using more by (simp add: list_page_def Let_def l)
  next
    case False
    then show ?thesis
      using m more p
      by (cases "missing = []")
        (simp_all add: list_page_def Let_def l hd_map missing_def [symmetric] older_def [symmetric])
  qed
qed

lemma selects_next:
  fixes f :: flow_filter
  assumes "ok cap b" and "0 < n" and "filter (selects f) (contents b) \<noteq> []"
  defines "m \<equiv> fl_id (last (take n (filter (selects f) (contents b))))"
  shows "filter (selects (f\<lparr>ff_before := m\<rparr>)) (contents b) = drop n (filter (selects f) (contents b))"
proof -
  let ?xs = "filter (selects f) (contents b)"
  have "take n ?xs \<noteq> []" using assms(2,3) by (cases ?xs; cases n) auto
  then have last: "last (take n ?xs) \<in> set ?xs" by (metis in_set_takeD last_in_set)
  then have pos: "m \<noteq> 0" using id_law [OF assms(1), of "last (take n ?xs)"] by (auto simp: m_def)
  have old: "selects f x \<longleftrightarrow> (ff_before f = 0 \<or> fl_id x < ff_before f) \<and> selects (f\<lparr>ff_before := 0\<rparr>) x" for x
    using before_law [of "ff_before f" f x] by simp
  have "selects (f\<lparr>ff_before := m\<rparr>) x \<longleftrightarrow> fl_id x < m \<and> selects f x" for x
    using before_law [of m f x] pos old [of x] old [of "last (take n ?xs)"] last
    by (auto simp: m_def dest: less_trans)
  then have "selects (f\<lparr>ff_before := m\<rparr>) = (\<lambda>x. fl_id x < m \<and> selects f x)"
    by (intro ext)
  then have "filter (selects (f\<lparr>ff_before := m\<rparr>)) (contents b) = filter (\<lambda>x. fl_id x < m) ?xs"
    by (simp add: conj_commute)
  also have "\<dots> = drop n ?xs" unfolding m_def
    using order_law [OF assms(1)] assms(2,3) by (intro descending_filter_below sorted_wrt_filter)
  finally show ?thesis .
qed

lemma walk_pages_all:
  assumes "ok (st_capacity s) (st_backend s)" and "0 < st_capacity s"
  shows "length (filter (selects f) (contents (st_backend s))) < fuel \<Longrightarrow>
    walk_pages ops summary s fuel f = map (view summary) (filter (selects f) (contents (st_backend s)))"
proof (induction fuel arbitrary: f)
  case (Suc n)
  let ?xs = "filter (selects f) (contents (st_backend s))" and ?k = "page_size s f"
  have k: "0 < ?k" using page_size_pos [OF assms(2)] .
  show ?case
  proof (cases "length ?xs < ?k")
    case True
    then show ?thesis using list_page_eq [OF assms, of summary f] by simp
  next
    case False
    then have ne: "?xs \<noteq> []" "take ?k ?xs \<noteq> []" using k by auto
    let ?f = "f\<lparr>ff_before := fl_id (last (take ?k ?xs))\<rparr>"
    have next_xs: "filter (selects ?f) (contents (st_backend s)) = drop ?k ?xs"
      using selects_next [OF assms(1) k ne(1)] .
    then have "walk_pages ops summary s n ?f = map (view summary) (drop ?k ?xs)"
      using Suc.IH [of ?f] Suc.prems k False by simp
    moreover have "walk_pages ops summary s (Suc n) f =
        map (view summary) (take ?k ?xs) @ walk_pages ops summary s n ?f"
      using list_page_eq [OF assms, of summary f] False ne by simp
    ultimately show ?thesis by (metis append_take_drop_id map_append)
  qed
qed simp

end

subsection \<open>The ring buffer keeps the newest flows\<close>

definition mem_contents :: "mem_backend \<Rightarrow> flow list" where
  "mem_contents b = map (mem_at b) [0..<mb_count b]"

definition mem_ok :: "nat \<Rightarrow> mem_backend \<Rightarrow> bool" where
  "mem_ok cap b \<longleftrightarrow> 0 < cap \<and>
     (mb_flows b = [] \<and> mb_count b = 0 \<and> mb_start b = 0 \<or>
      length (mb_flows b) = cap \<and> mb_start b < cap \<and> mb_count b \<le> cap \<and>
      (mb_count b < cap \<longrightarrow> mb_start b = 0)) \<and>
     mb_count b \<le> unat (mb_next b) \<and>
     (\<forall>d < mb_count b. unat (fl_id (mem_at b d)) = unat (mb_next b) - d)"

definition mem_newest :: "mem_backend \<Rightarrow> nat" where
  "mem_newest b = unat (mb_next b)"

lemma mem_list_from_spec:
  "mem_list_from b f summary d out =
     out @ take (nat (ff_limit f) - length out)
       (map (view summary) (filter (\<lambda>i. matches_filter i f) (map (mem_at b) [d..<mb_count b])))"
proof (induction b f summary d out rule: mem_list_from.induct)
  case (1 b f summary d out)
  show ?case
  proof (cases "d < mb_count b \<and> int (length out) < ff_limit f")
    case True
    define rest where "rest = map (view summary)
      (filter (\<lambda>i. matches_filter i f) (map (mem_at b) [Suc d..<mb_count b]))"
    have ds: "[d..<mb_count b] = d # [Suc d..<mb_count b]" using True by (simp add: upt_conv_Cons)
    have room: "nat (ff_limit f) - length out = Suc (nat (ff_limit f) - Suc (length out))"
      using True by linarith
    have "mem_list_from b f summary d out =
        (if matches_filter (mem_at b d) f
         then out @ view summary (mem_at b d) # take (nat (ff_limit f) - Suc (length out)) rest
         else out @ take (nat (ff_limit f) - length out) rest)"
      using True "1.IH" [OF True refl]
      by (subst mem_list_from.simps) (simp add: Let_def view_def rest_def split: if_splits)
    then show ?thesis by (simp add: ds room rest_def)
  next
    case False
    then show ?thesis by (subst mem_list_from.simps) auto
  qed
qed

lemma mem_get_from_spec:
  "mem_get_from b i d = find (\<lambda>x. fl_id x = i)
     (map (\<lambda>k. mb_flows b ! ((mb_start b + k) mod length (mb_flows b))) [d..<mb_count b])"
proof (induction b i d rule: mem_get_from.induct)
  case (1 b i d)
  show ?case
  proof (cases "d < mb_count b")
    case True
    then have "[d..<mb_count b] = d # [Suc d..<mb_count b]" by (simp add: upt_conv_Cons)
    then show ?thesis using True 1 [OF True refl]
      by (subst mem_get_from.simps) (simp add: Let_def)
  next
    case False
    then show ?thesis by (subst mem_get_from.simps) simp
  qed
qed

lemma find_distinct_perm:
  assumes "set xs = set ys" and "inj_on g (set xs)"
  shows "find (\<lambda>x. g x = i) xs = find (\<lambda>x. g x = i) ys"
proof (cases "find (\<lambda>x. g x = i) xs")
  case None
  then have "find (\<lambda>x. g x = i) ys = None" using assms(1) unfolding find_None_iff by blast
  with None show ?thesis by simp
next
  case (Some x)
  then have x: "x \<in> set xs" "g x = i" by (auto simp: find_Some_iff)
  then obtain y where y: "find (\<lambda>x. g x = i) ys = Some y" using assms(1)
    by (metis (mono_tags, lifting) find_None_iff not_None_eq)
  then have "y \<in> set xs" "g y = i" using assms(1) by (auto simp: find_Some_iff)
  with x have "x = y" using assms(2) by (metis inj_onD)
  with Some y show ?thesis by simp
qed

lemma mem_contents_rev:
  assumes "mem_ok cap b"
  shows "set (map (\<lambda>k. mb_flows b ! ((mb_start b + k) mod length (mb_flows b))) [0..<mb_count b]) =
    set (mem_contents b)"
proof -
  have "mem_contents b =
      rev (map (\<lambda>k. mb_flows b ! ((mb_start b + k) mod length (mb_flows b))) [0..<mb_count b])"
    by (rule nth_equalityI) (simp_all add: mem_contents_def mem_at_def rev_nth)
  then show ?thesis by simp
qed

lemma mem_order:
  assumes "mem_ok cap b"
  shows "sorted_wrt (\<lambda>x y. fl_id y < fl_id x) (mem_contents b)"
  using assms by (auto simp: mem_contents_def mem_ok_def sorted_wrt_map sorted_wrt_iff_nth_less word_less_nat_alt)

lemma mem_ids:
  assumes "mem_ok cap b" and "x \<in> set (mem_contents b)"
  shows "0 < fl_id x \<and> unat (fl_id x) \<le> mem_newest b"
proof -
  obtain k where "k < mb_count b" "x = mem_at b k" using assms(2) by (auto simp: mem_contents_def)
  with assms(1) have "unat (fl_id x) = unat (mb_next b) - k" "k < unat (mb_next b)"
    by (auto simp: mem_ok_def)
  then show ?thesis by (simp add: mem_newest_def word_less_nat_alt)
qed

lemma descending_inj: "sorted_wrt (\<lambda>x y. fl_id y < fl_id x) xs \<Longrightarrow> inj_on fl_id (set xs)"
  by (induction xs) (auto dest: less_imp_neq)

lemma mem_get_spec:
  assumes "mem_ok cap b"
  shows "mem_get b i = Inr (find (\<lambda>x. fl_id x = i) (mem_contents b))"
proof -
  have "inj_on fl_id (set (mem_contents b))" by (rule descending_inj [OF mem_order [OF assms]])
  then show ?thesis
    using find_distinct_perm [OF mem_contents_rev [OF assms]] mem_contents_rev [OF assms]
    by (simp add: mem_get_def mem_get_from_spec)
qed

lemma mem_add_first:
  assumes "mem_ok cap b" and "mb_flows b = []" and "mem_newest b + 1 < 2 ^ 64"
  defines "i \<equiv> mb_next b + 1"
  obtains b' where "mem_add b item cap = Inr (item\<lparr>fl_id := i\<rparr>, b')"
    and "mem_ok cap b'" and "mb_next b' = i"
    and "mem_contents b' = take cap (item\<lparr>fl_id := i\<rparr> # mem_contents b)"
proof -
  let ?x = "item\<lparr>fl_id := i\<rparr>"
  let ?b = "\<lparr>mb_next = i, mb_start = 0, mb_count = 1, mb_flows = (replicate cap empty_flow)[0 := ?x]\<rparr>"
  have cap: "0 < cap" "mb_count b = 0" "mb_start b = 0" using assms(1,2) by (auto simp: mem_ok_def)
  have i: "unat i = Suc (mem_newest b)"
    using assms(3) by (simp add: i_def mem_newest_def unat_word_ariths)
  have "mem_add b item cap = Inr (?x, ?b)"
    using cap assms(2) by (simp add: mem_add_def Let_def i_def)
  moreover have at: "mem_at ?b 0 = ?x" using cap by (simp add: mem_at_def)
  moreover have "mem_ok cap ?b" using cap i at by (auto simp: mem_ok_def)
  moreover have "mem_contents ?b = take cap (?x # mem_contents b)"
    using cap at by (cases cap) (simp_all add: mem_contents_def)
  ultimately show ?thesis using that by simp
qed

lemma mem_add_grow:
  assumes "mem_ok cap b" and "mb_flows b \<noteq> []" and "mb_count b < cap" and "mem_newest b + 1 < 2 ^ 64"
  defines "i \<equiv> mb_next b + 1"
  obtains b' where "mem_add b item cap = Inr (item\<lparr>fl_id := i\<rparr>, b')"
    and "mem_ok cap b'" and "mb_next b' = i"
    and "mem_contents b' = take cap (item\<lparr>fl_id := i\<rparr> # mem_contents b)"
proof -
  let ?x = "item\<lparr>fl_id := i\<rparr>" and ?n = "mb_count b"
  let ?b = "b\<lparr>mb_next := i, mb_flows := (mb_flows b)[?n := ?x], mb_count := ?n + 1\<rparr>"
  have len: "length (mb_flows b) = cap" "mb_start b = 0" using assms(1-3) by (auto simp: mem_ok_def)
  have i: "unat i = Suc (mem_newest b)"
    using assms(4) by (simp add: i_def mem_newest_def unat_word_ariths)
  have "mem_add b item cap = Inr (?x, ?b)"
    using len assms(2,3) by (simp add: mem_add_def Let_def i_def)
  moreover have at: "mem_at ?b 0 = ?x" "\<And>d. d < ?n \<Longrightarrow> mem_at ?b (Suc d) = mem_at b d"
    using len assms(3) by (auto simp: mem_at_def)
  moreover have "mem_ok cap ?b" using len assms(1,3) i at
    by (auto simp: mem_ok_def mem_newest_def less_Suc_eq_0_disj)
  moreover have "mem_contents ?b = take cap (?x # mem_contents b)"
    using at assms(3) by (simp add: mem_contents_def upt_conv_Cons map_Suc_upt [symmetric] o_def
      del: upt_Suc)
  ultimately show ?thesis using that by simp
qed

lemma ring_index:
  assumes "s < n" and "d < n"
  shows "(s + n - d) mod n = (if d \<le> s then s - d else s + n - (d::nat))"
proof (cases "d \<le> s")
  case True
  then have "s + n - d = (s - d) + n" by simp
  then show ?thesis using assms True by (simp only: mod_add_self2) simp
qed (use assms in simp)

lemma ring_previous:
  assumes "s < n" and "d < n"
  shows "((s + 1) mod n + n - 1 - d) mod n = (s + n - (d::nat)) mod n"
  using assms by (cases "s + 1 = n") (auto simp: ring_index)

lemma mem_add_full:
  assumes "mem_ok cap b" and "mb_flows b \<noteq> []" and "mb_count b = cap" and "mem_newest b + 1 < 2 ^ 64"
  defines "i \<equiv> mb_next b + 1"
  obtains b' where "mem_add b item cap = Inr (item\<lparr>fl_id := i\<rparr>, b')"
    and "mem_ok cap b'" and "mb_next b' = i"
    and "mem_contents b' = take cap (item\<lparr>fl_id := i\<rparr> # mem_contents b)"
proof -
  let ?x = "item\<lparr>fl_id := i\<rparr>" and ?s = "mb_start b"
  let ?b = "b\<lparr>mb_next := i, mb_flows := (mb_flows b)[?s := ?x], mb_start := (?s + 1) mod cap\<rparr>"
  have len: "length (mb_flows b) = cap" "?s < cap" using assms(1-3) by (auto simp: mem_ok_def)
  have i: "unat i = Suc (mem_newest b)"
    using assms(4) by (simp add: i_def mem_newest_def unat_word_ariths)
  have add: "mem_add b item cap = Inr (?x, ?b)"
    using len assms(2,3) by (simp add: mem_add_def Let_def i_def)
  have at: "mem_at ?b 0 = ?x" "\<And>d. Suc d < cap \<Longrightarrow> mem_at ?b (Suc d) = mem_at b d"
    using len assms(3) ring_previous [OF len(2), of 0] ring_previous [OF len(2)]
    by (auto simp: mem_at_def ring_index)
  have "unat (fl_id (mem_at ?b d)) = unat i - d" if "d < cap" for d
    using at that i assms(1,3) by (cases d) (simp_all add: mem_ok_def mem_newest_def)
  then have "mem_ok cap ?b" using len assms(1,3) i
    by (auto simp: mem_ok_def mem_newest_def)
  moreover have "mem_contents ?b = take cap (?x # mem_contents b)"
    using at len assms(3)
    by (intro nth_equalityI) (auto simp: mem_contents_def nth_Cons split: nat.splits)
  ultimately show ?thesis using that add by simp
qed

lemma mem_add_ok:
  assumes "mem_ok cap b" and "mem_newest b + 1 < 2 ^ 64"
  obtains b' where "mem_add b item cap = Inr (item\<lparr>fl_id := mb_next b + 1\<rparr>, b')"
    and "mem_ok cap b'" and "mb_next b' = mb_next b + 1"
    and "mem_contents b' = take cap (item\<lparr>fl_id := mb_next b + 1\<rparr> # mem_contents b)"
proof (cases "mb_flows b = []")
  case True
  then show ?thesis using mem_add_first [OF assms(1) True assms(2)] that by metis
next
  case False
  then have "mb_count b < cap \<or> mb_count b = cap" using assms(1) by (auto simp: mem_ok_def)
  then show ?thesis
    using mem_add_grow [OF assms(1) False _ assms(2)] mem_add_full [OF assms(1) False _ assms(2)] that
    by metis
qed

lemma mem_empty_ok:
  "0 < cap \<Longrightarrow> mem_ok cap empty_backend" "mem_newest empty_backend = 0"
  "mem_contents empty_backend = []"
  by (simp_all add: mem_ok_def empty_backend_def mem_newest_def mem_contents_def)

lemma newest_next:
  "mem_newest b + 1 < 2 ^ 64 \<Longrightarrow> unat (mb_next b + 1) = Suc (mem_newest b)"
  by (simp add: mem_newest_def unat_word_ariths)

interpretation ring: flow_backend mem_ops mem_ok mem_contents "\<lambda>f i. matches_filter i f" mem_newest
proof
  fix cap :: nat and b :: mem_backend and f :: flow_filter and i m :: "64 word" and n :: int
    and item x :: flow
  show "bk_list mem_ops b f cap =
      Inr (take (nat (ff_limit f)) (filter (\<lambda>i. matches_filter i f) (mem_contents b)))"
    by (simp add: mem_ops_def mem_list_def mem_list_from_spec mem_contents_def view_def)
  show "bk_list_summary mem_ops b f cap = Inr (map clone_flow_summary
      (take (nat (ff_limit f)) (filter (\<lambda>i. matches_filter i f) (mem_contents b))))"
    by (simp add: mem_ops_def mem_list_def mem_list_from_spec mem_contents_def view_def take_map)
  show "matches_filter x (f\<lparr>ff_before := m\<rparr>) \<longleftrightarrow>
      (m = 0 \<or> fl_id x < m) \<and> matches_filter x (f\<lparr>ff_before := 0\<rparr>)"
    by (rule matches_before_zero)
  show "(\<lambda>i. matches_filter i (f\<lparr>ff_limit := n\<rparr>)) = (\<lambda>i. matches_filter i f)" by simp
  assume ok: "mem_ok cap b"
  show "bk_get mem_ops b i = Inr (find (\<lambda>x. fl_id x = i) (mem_contents b))"
    using mem_get_spec [OF ok] by (simp add: mem_ops_def)
  show "sorted_wrt (\<lambda>x y. fl_id y < fl_id x) (mem_contents b)" by (rule mem_order [OF ok])
  show "x \<in> set (mem_contents b) \<Longrightarrow> 0 < fl_id x \<and> unat (fl_id x) \<le> mem_newest b"
    by (rule mem_ids [OF ok])
  assume room: "mem_newest b + 1 < 2 ^ 64"
  obtain b' where "mem_add b item cap = Inr (item\<lparr>fl_id := mb_next b + 1\<rparr>, b')"
    "mem_ok cap b'" "mb_next b' = mb_next b + 1"
    "mem_contents b' = take cap (item\<lparr>fl_id := mb_next b + 1\<rparr> # mem_contents b)"
    using mem_add_ok [OF ok room] by blast
  then show "\<exists>i b' n. bk_add mem_ops b item cap = Inr (item\<lparr>fl_id := i\<rparr>, b') \<and> mem_ok cap b' \<and>
      mem_newest b < unat i \<and> mem_newest b' = unat i \<and> cap \<le> n \<and>
      mem_contents b' = take n (item\<lparr>fl_id := i\<rparr> # mem_contents b)"
    using newest_next [OF room] by (auto simp: mem_ops_def mem_newest_def)
qed

subsection \<open>The live stream\<close>

text \<open>Additions run concurrently: the backend assigns the identifier under its own lock, the
  subscribers are notified later under the lock of the store. A state holds the flows that were
  added and not yet published; \<open>lv_history\<close> collects all flows that the backend accepted.
  Steps that would exhaust the 64-bit identifiers are left out.\<close>

record 's live =
  lv_store :: "'s store"
  lv_pending :: "flow list"
  lv_history :: "flow list"

inductive live_step :: "'s backend \<Rightarrow> ('s \<Rightarrow> nat) \<Rightarrow> 's live \<Rightarrow> 's live \<Rightarrow> bool"
  for ops :: "'s backend" and newest :: "'s \<Rightarrow> nat" where
  accepted: "bk_add ops (st_backend (lv_store l)) item (st_capacity (lv_store l)) = Inr (item', b') \<Longrightarrow>
    newest (st_backend (lv_store l)) + 1 < 2 ^ 64 \<Longrightarrow>
    live_step ops newest l (l\<lparr>lv_store := (lv_store l)\<lparr>st_backend := b'\<rparr>,
      lv_pending := item' # lv_pending l, lv_history := item' # lv_history l\<rparr>)"
| published: "item \<in> set (lv_pending l) \<Longrightarrow>
    live_step ops newest l (l\<lparr>lv_store := notify item (lv_store l), lv_pending := remove1 item (lv_pending l)\<rparr>)"
| subscribed: "live_step ops newest l (l\<lparr>lv_store := snd (subscribe (lv_store l))\<rparr>)"
| cancelled: "live_step ops newest l (l\<lparr>lv_store := cancel ch (lv_store l)\<rparr>)"
| received: "live_step ops newest l (l\<lparr>lv_store := drain_one ch (lv_store l)\<rparr>)"

inductive_cases live_stepE: "live_step ops newest l l'"

text \<open>A sequential \<open>Add\<close> is an acceptance followed by its publication.\<close>

definition buffers_ok :: "flow list \<Rightarrow> 's store \<Rightarrow> bool" where
  "buffers_ok published s \<longleftrightarrow> distinct (map fst (st_subscribers s)) \<and>
     (\<forall>ch \<in> set (st_subscribers s). fst ch < st_next s \<and> length (snd ch) \<le> channel_capacity \<and>
        distinct (map fl_id (snd ch)) \<and> set (snd ch) \<subseteq> set published)"

lemma buffers_ok_backend [simp]: "buffers_ok p (s\<lparr>st_backend := b\<rparr>) = buffers_ok p s"
  by (simp add: buffers_ok_def)

lemma buffers_ok_mono: "buffers_ok p s \<Longrightarrow> set p \<subseteq> set q \<Longrightarrow> buffers_ok q s"
  by (fastforce simp: buffers_ok_def)

lemma fst_offer [simp]: "fst (offer item c) = fst c" "fst \<circ> offer item = fst"
  by (auto simp: offer_def)

lemma buffers_ok_notify:
  assumes "buffers_ok p s" and "fl_id item \<notin> fl_id ` set p"
  shows "buffers_ok (item # p) (notify item s)"
proof -
  have "length (snd (offer item ch)) \<le> channel_capacity \<and> distinct (map fl_id (snd (offer item ch))) \<and>
      set (snd (offer item ch)) \<subseteq> set (item # p)" if "ch \<in> set (st_subscribers s)" for ch
    using assms that by (auto simp: buffers_ok_def offer_def)
  with assms(1) show ?thesis by (simp add: buffers_ok_def notify_def)
qed

lemma buffers_ok_subscribe: "buffers_ok p s \<Longrightarrow> buffers_ok p (snd (subscribe s))"
  by (force simp: buffers_ok_def subscribe_def)

lemma buffers_ok_cancel: "buffers_ok p s \<Longrightarrow> buffers_ok p (cancel ch s)"
  by (auto simp: buffers_ok_def cancel_def distinct_map inj_on_def)

definition drop_first :: "nat \<Rightarrow> nat \<times> flow list \<Rightarrow> nat \<times> flow list" where
  "drop_first ch c = (if fst c = ch then (ch, tl (snd c)) else c)"

lemma drop_first_simps [simp]: "fst (drop_first ch c) = fst c" "fst \<circ> drop_first ch = fst"
  by (auto simp: drop_first_def)

lemma buffers_ok_drain:
  assumes "buffers_ok p s" shows "buffers_ok p (drain_one ch s)"
proof -
  have "length (snd (drop_first ch c)) \<le> channel_capacity \<and>
      distinct (map fl_id (snd (drop_first ch c))) \<and> set (snd (drop_first ch c)) \<subseteq> set p"
    if "c \<in> set (st_subscribers s)" for c
  proof -
    have "length (snd c) \<le> channel_capacity" "distinct (map fl_id (snd c))" "set (snd c) \<subseteq> set p"
      using assms that by (auto simp: buffers_ok_def)
    then show ?thesis by (cases "snd c") (simp_all add: drop_first_def)
  qed
  with assms show ?thesis by (simp add: buffers_ok_def drain_one_def drop_first_def [symmetric])
qed

context flow_backend
begin

definition live_ok :: "'s live \<Rightarrow> bool" where
  "live_ok l \<longleftrightarrow> ok (st_capacity (lv_store l)) (st_backend (lv_store l)) \<and>
     distinct (map fl_id (lv_history l)) \<and> distinct (lv_pending l) \<and>
     set (lv_pending l) \<subseteq> set (lv_history l) \<and>
     (\<forall>x \<in> set (lv_history l). unat (fl_id x) \<le> newest (st_backend (lv_store l))) \<and>
     buffers_ok (filter (\<lambda>x. x \<notin> set (lv_pending l)) (lv_history l)) (lv_store l)"

lemma live_ok_step:
  assumes "live_step ops newest l l'" and "live_ok l"
  shows "live_ok l'"
  using assms
proof (cases rule: live_step.cases)
  case (accepted item item' b')
  have ok: "ok (st_capacity (lv_store l)) (st_backend (lv_store l))" using assms(2) by (simp add: live_ok_def)
  obtain i b n where "bk_add ops (st_backend (lv_store l)) item (st_capacity (lv_store l)) =
      Inr (item\<lparr>fl_id := i\<rparr>, b)" "ok (st_capacity (lv_store l)) b"
    "newest (st_backend (lv_store l)) < unat i" "newest b = unat i"
    using add_law [OF ok accepted(3), of item] by blast
  with accepted(2) have new: "ok (st_capacity (lv_store l)) b'"
    "newest (st_backend (lv_store l)) < unat (fl_id item')" "newest b' = unat (fl_id item')" by auto
  then have fresh: "\<forall>x \<in> set (lv_history l). fl_id x \<noteq> fl_id item' \<and> unat (fl_id x) \<le> newest b'"
    using assms(2) by (fastforce simp: live_ok_def)
  then have unseen: "item' \<notin> set (lv_history l)" by auto
  let ?p = "filter (\<lambda>x. x \<notin> set (lv_pending l)) (lv_history l)"
  have "set ?p \<subseteq> set (filter (\<lambda>x. x \<notin> set (item' # lv_pending l)) (item' # lv_history l))"
    using unseen by auto
  moreover have "buffers_ok ?p (lv_store l)" using assms(2) by (simp add: live_ok_def)
  ultimately have bufs: "buffers_ok (filter (\<lambda>x. x \<notin> set (item' # lv_pending l)) (item' # lv_history l))
      (lv_store l)" by (rule buffers_ok_mono [rotated])
  have "fl_id item' \<notin> fl_id ` set (lv_history l)" using fresh by auto
  then have "distinct (map fl_id (item' # lv_history l))" "distinct (item' # lv_pending l)"
    "set (item' # lv_pending l) \<subseteq> set (item' # lv_history l)"
    using assms(2) unseen by (auto simp: live_ok_def)
  then show ?thesis unfolding accepted(1) live_ok_def using bufs new fresh by simp
next
  case (published item)
  let ?p = "filter (\<lambda>x. x \<notin> set (lv_pending l)) (lv_history l)"
  have hist: "item \<in> set (lv_history l)" "distinct (map fl_id (lv_history l))"
    using published(2) assms(2) by (auto simp: live_ok_def)
  then have "fl_id item \<notin> fl_id ` set ?p"
    using published(2) by (auto simp: distinct_map inj_on_def)
  then have "buffers_ok (item # ?p) (notify item (lv_store l))"
    using assms(2) by (intro buffers_ok_notify) (auto simp: live_ok_def)
  then have "buffers_ok (filter (\<lambda>x. x \<notin> set (remove1 item (lv_pending l))) (lv_history l))
      (notify item (lv_store l))"
    using hist assms(2) by (auto simp: live_ok_def elim!: buffers_ok_mono)
  then show ?thesis using published assms(2)
    by (auto simp: live_ok_def notify_def dest: notin_set_remove1)
next
  case subscribed
  then show ?thesis using assms(2) buffers_ok_subscribe by (auto simp: live_ok_def subscribe_def)
next
  case (cancelled ch)
  then show ?thesis using assms(2) buffers_ok_cancel by (auto simp: live_ok_def cancel_def)
next
  case (received ch)
  then show ?thesis using assms(2) buffers_ok_drain by (auto simp: live_ok_def drain_one_def)
qed

lemma live_ok_reachable:
  assumes "(live_step ops newest)\<^sup>*\<^sup>* l l'" and "live_ok l"
  shows "live_ok l'"
  using assms by (induction rule: rtranclp_induct) (auto intro: live_ok_step)

end

subsection \<open>Properties of the store\<close>

definition store_ok :: "mem_backend store \<Rightarrow> bool" where
  "store_ok s \<longleftrightarrow> mem_ok (st_capacity s) (st_backend s)"

definition store_room :: "mem_backend store \<Rightarrow> bool" where
  "store_room s \<longleftrightarrow> mem_newest (st_backend s) + 1 < 2 ^ 64"

abbreviation retained :: "mem_backend store \<Rightarrow> flow list" where
  "retained s \<equiv> mem_contents (st_backend s)"

lemma store_ok_pos: "store_ok s \<Longrightarrow> 0 < st_capacity s"
  by (simp add: store_ok_def mem_ok_def)

lemma open_memory_ok: "open_memory capacity = Inr s \<Longrightarrow> store_ok s \<and> store_room s \<and> retained s = []"
  by (auto simp: open_memory_def store_ok_def store_room_def mem_empty_ok split: if_splits)

text \<open>A concrete store of capacity two that has seen three flows.\<close>

definition sample_flow :: "string \<Rightarrow> string \<Rightarrow> string \<Rightarrow> flow" where
  "sample_flow meth session host = empty_flow\<lparr>fl_method := meth, fl_session := session, fl_host := host\<rparr>"

definition sample_filter :: flow_filter where
  "sample_filter = \<lparr>ff_client = [], ff_host = [], ff_decision = [], ff_mode = [], ff_method = [],
     ff_sessions = [], ff_before = 0, ff_limit = 1\<rparr>"

definition sample_flows :: "flow list" where
  "sample_flows = [(sample_flow ''GET'' ''a'' ''x'')\<lparr>fl_id := 3\<rparr>, (sample_flow ''CONNECT'' ''a'' ''x'')\<lparr>fl_id := 2\<rparr>]"

definition sample_store :: "mem_backend store" where
  "sample_store = \<lparr>st_backend = \<lparr>mb_next = 3, mb_start = 1, mb_count = 2, mb_flows = sample_flows\<rparr>,
     st_capacity = 2, st_subscribers = [], st_next = 0\<rparr>"

lemma sample_retained: "retained sample_store = sample_flows"
  by (simp add: sample_store_def sample_flows_def mem_contents_def mem_at_def upt_rec)

lemma sample_store_ok: "store_ok sample_store" "store_room sample_store"
  by (auto simp: store_ok_def store_room_def mem_ok_def mem_newest_def sample_store_def sample_flows_def
    mem_at_def dest!: less_2_cases)

text \<open>C19. The in-memory store refines a list: \<open>Add\<close> always succeeds, assigns the next
  identifier, and the retained flows become the new flow in front of the previous ones, cut to
  the capacity; \<open>Get\<close> finds a retained flow by its identifier and \<open>List\<close> returns the
  newest matching ones, in order. (The 64-bit counter has not been exhausted.)\<close>

theorem ring_refines_list:
  assumes "store_ok s" and "store_room s"
  shows "\<exists>s' item'. store_add mem_ops s item = Inr (item', s') \<and> store_ok s' \<and>
      item' = item\<lparr>fl_id := mb_next (st_backend s) + 1\<rparr> \<and>
      retained s' = take (st_capacity s) (item' # retained s) \<and>
      store_get mem_ops s' i = Inr (find (\<lambda>x. fl_id x = i) (retained s')) \<and>
      store_list mem_ops s' f =
        Inr (take (page_size s' f) (filter (\<lambda>x. matches_filter x f) (retained s')))"
proof -
  let ?item = "item\<lparr>fl_id := mb_next (st_backend s) + 1\<rparr>"
  obtain b' where add: "mem_add (st_backend s) item (st_capacity s) = Inr (?item, b')"
    and ok: "mem_ok (st_capacity s) b'"
    and contents: "mem_contents b' = take (st_capacity s) (?item # retained s)"
    using mem_add_ok assms unfolding store_ok_def store_room_def by metis
  let ?s = "notify ?item (s\<lparr>st_backend := b'\<rparr>)"
  have "0 \<le> ff_limit (bounded_limit (st_capacity s) f)"
    using bounded_limit_range store_ok_pos [OF assms(1)] by (simp add: less_imp_le)
  then have "store_list mem_ops ?s f = Inr (take (page_size ?s f) (filter (\<lambda>x. matches_filter x f) (retained ?s)))"
    using ring.list_law [OF ok] ring.selects_bounded
    by (simp add: store_list_def notify_def page_size_def fun_eq_iff)
  moreover have "store_add mem_ops s item = Inr (?item, ?s)"
    using add by (simp add: store_add_def mem_ops_def)
  ultimately show ?thesis using ok contents ring.get_law [OF ok]
    by (auto simp: store_ok_def store_get_def notify_def)
qed

theorem ring_refines_list_witness:
  "\<exists>s'. store_add mem_ops sample_store (sample_flow ''PUT'' ''b'' ''y'') =
      Inr ((sample_flow ''PUT'' ''b'' ''y'')\<lparr>fl_id := 4\<rparr>, s') \<and>
     retained s' = [(sample_flow ''PUT'' ''b'' ''y'')\<lparr>fl_id := 4\<rparr>, (sample_flow ''GET'' ''a'' ''x'')\<lparr>fl_id := 3\<rparr>]"
proof -
  have next_id: "mb_next (st_backend sample_store) + 1 = 4" "st_capacity sample_store = 2"
    by (simp_all add: sample_store_def)
  show ?thesis
    using ring_refines_list [OF sample_store_ok, of "sample_flow ''PUT'' ''b'' ''y''" 0 sample_filter]
    by (auto simp: next_id sample_retained sample_flows_def)
qed

text \<open>The cursor of \<open>ListPage\<close> is complete: reading page after page, each time with the
  returned \<open>NextBeforeID\<close> while \<open>HasMore\<close> holds, ends and yields every retained flow that
  matches the filter exactly once, newest first; summaries differ only in the fields they drop.\<close>

theorem walk_pages_complete:
  assumes "store_ok s"
  shows "walk_pages mem_ops summary s (Suc (length (retained s))) f =
    map (view summary) (filter (\<lambda>x. matches_filter x f) (retained s))"
  using assms store_ok_pos [OF assms] le_imp_less_Suc [OF length_filter_le]
  by (intro ring.walk_pages_all) (simp_all add: store_ok_def)

theorem walk_pages_complete_witness:
  "walk_pages mem_ops False sample_store 3 sample_filter = sample_flows"
  using walk_pages_complete [OF sample_store_ok(1), of False sample_filter]
  by (simp add: sample_retained sample_flows_def view_def matches_filter_def sample_filter_def
    session_match_def eval_nat_numeral del: walk_pages.simps)

text \<open>A page completes its groups: for every flow of the page that belongs to a session,
  the retained \<open>CONNECT\<close> flow of the session that is older than the page and satisfies the
  client, host and decision filters is among the page's session parents.\<close>

theorem page_completes_sessions:
  assumes "store_ok s" and "list_page mem_ops summary s f = Inr pg"
    and "x \<in> set (pg_flows pg)" and "fl_session x \<noteq> []"
    and "p \<in> set (retained s)" and "fl_method p = ''CONNECT''" and "fl_session p = fl_session x"
    and "fl_id p < pg_next pg"
    and "matches_filter p (f\<lparr>ff_mode := [], ff_method := [], ff_sessions := [], ff_before := 0\<rparr>)"
    and "\<forall>q \<in> set (retained s). \<forall>r \<in> set (retained s). fl_method q = ''CONNECT'' \<longrightarrow>
      fl_method r = ''CONNECT'' \<longrightarrow> fl_session q = fl_session r \<longrightarrow> q = r"
  shows "view summary p \<in> set (pg_parents pg)"
proof -
  define items where "items = take (page_size s f) (filter (\<lambda>x. matches_filter x f) (retained s))"
  define missing where "missing = missing_sessions (present_sessions items) [] items"
  define older where "older = parent_filter (bounded_limit (st_capacity s) f) missing (fl_id (last items))"
  define ps where "ps = filter (\<lambda>x. matches_filter x older) (retained s)"
  have page: "pg = \<lparr>pg_flows = map (view summary) items,
      pg_parents = map (view summary) (take (length missing) ps),
      pg_next = (if items = [] then 0 else fl_id (last items)), pg_more = (length items = page_size s f)\<rparr>"
    using ring.list_page_eq [of s summary f] assms(1,2) store_ok_pos [OF assms(1)]
    by (simp add: store_ok_def items_def missing_def older_def ps_def)
  have items: "set items \<subseteq> set (retained s)" by (auto simp: items_def dest: in_set_takeD)
  obtain y where y: "y \<in> set items" "fl_session y = fl_session x" using assms(3) page by auto
  have "sorted_wrt (\<lambda>x y. fl_id y < fl_id x) items"
    using mem_order assms(1) unfolding items_def store_ok_def
    by (intro sorted_wrt_take sorted_wrt_filter) blast
  then have last: "\<forall>z \<in> set items. fl_id (last items) \<le> fl_id z"
    by (induction items rule: rev_induct) (auto simp: sorted_wrt_append intro: less_imp_le)
  have "fl_session p \<notin> set (present_sessions items)"
  proof
    assume "fl_session p \<in> set (present_sessions items)"
    then obtain q where "q \<in> set items" "fl_method q = ''CONNECT''" "fl_session q = fl_session p"
      by (auto simp: set_present)
    then have "p \<in> set items" using assms(5,6,10) items by (metis subsetD)
    then show False using last page assms(8) y by (fastforce simp: not_less [symmetric] split: if_splits)
  qed
  then have miss: "fl_session p \<in> set missing"
    using y assms(4,7) by (auto simp: missing_def set_missing intro: rev_image_eqI)
  have "matches_filter p older"
    using assms(6,8,9) miss page y by (auto simp: older_def parent_filter_def matches_filter_def
      bounded_limit_def session_match_def split: if_splits)
  then have "p \<in> set ps" using assms(5) by (simp add: ps_def)
  moreover have "length ps \<le> length missing"
  proof -
    have parents: "\<forall>q \<in> set ps. q \<in> set (retained s) \<and> fl_method q = ''CONNECT'' \<and> fl_session q \<in> set missing"
      using miss by (auto simp: ps_def older_def parent_filter_def matches_filter_def session_match_def)
    have "inj_on fl_session (set ps)" using parents assms(10) by (meson inj_onI)
    moreover have "fl_session ` set ps \<subseteq> set missing" using parents by auto
    ultimately have "card (set ps) \<le> card (set missing)" by (meson List.finite_set card_inj_on_le)
    moreover have "distinct ps"
    proof -
      have "distinct (retained s)"
        using mem_order [of "st_capacity s" "st_backend s"] assms(1) unfolding store_ok_def
        by (metis descending_distinct)
      then show ?thesis by (simp add: ps_def)
    qed
    ultimately show ?thesis by (simp add: distinct_card missing_def distinct_missing)
  qed
  ultimately show ?thesis using page by simp
qed

theorem page_completes_sessions_witness:
  "view False ((sample_flow ''CONNECT'' ''a'' ''x'')\<lparr>fl_id := 2\<rparr>) \<in>
     set (pg_parents (the (case list_page mem_ops False sample_store sample_filter of
       Inl e \<Rightarrow> None | Inr pg \<Rightarrow> Some pg)))"
proof -
  let ?p = "(sample_flow ''CONNECT'' ''a'' ''x'')\<lparr>fl_id := 2\<rparr>"
  let ?x = "(sample_flow ''GET'' ''a'' ''x'')\<lparr>fl_id := 3\<rparr>"
  have cap: "st_capacity sample_store = 2" by (simp add: sample_store_def)
  have size: "page_size sample_store sample_filter = 1"
    by (simp add: page_size_def bounded_limit_def cap sample_filter_def)
  have all: "filter (\<lambda>x. matches_filter x sample_filter) (retained sample_store) = [?x, ?p]"
    by (simp add: sample_retained sample_flows_def matches_filter_def sample_filter_def session_match_def)
  obtain pg where pg: "list_page mem_ops False sample_store sample_filter = Inr pg"
    "pg_flows pg = [?x]" "pg_next pg = 3"
    using ring.list_page_eq [of sample_store False sample_filter] sample_store_ok(1) cap
    by (simp add: store_ok_def all size view_def)
  have "view False ?p \<in> set (pg_parents pg)"
    by (rule page_completes_sessions [OF sample_store_ok(1) pg(1), of ?x])
      (auto simp: pg sample_retained sample_flows_def sample_flow_def matches_filter_def
        sample_filter_def session_match_def empty_flow_def)
  then show ?thesis by (simp add: pg(1))
qed

text \<open>Whatever the interleaving of additions, publications, subscriptions, cancellations and
  reads, no subscriber's buffer grows beyond its sixteen places, no flow is delivered to it twice,
  and every delivered flow is one that the store accepted and has published.\<close>

theorem live_stream_invariant:
  assumes "(live_step mem_ops mem_newest)\<^sup>*\<^sup>* l l'"
    and "lv_store l = s" and "store_ok s" and "st_subscribers s = []"
    and "lv_pending l = []" and "lv_history l = []"
    and "(ch, buffer) \<in> set (st_subscribers (lv_store l'))"
  shows "length buffer \<le> channel_capacity \<and> distinct (map fl_id buffer) \<and>
    set buffer \<subseteq> set (lv_history l') - set (lv_pending l')"
proof -
  have "ring.live_ok l" using assms(2-6) by (simp add: ring.live_ok_def store_ok_def buffers_ok_def)
  then have "ring.live_ok l'" by (rule ring.live_ok_reachable [OF assms(1)])
  then show ?thesis using assms(7) by (fastforce simp: ring.live_ok_def buffers_ok_def)
qed

text \<open>A subscriber that sees two concurrent additions in the order of their publication, which is
  not the order of their identifiers.\<close>

definition idle :: "mem_backend live" where
  "idle = \<lparr>lv_store = \<lparr>st_backend = empty_backend, st_capacity = 2, st_subscribers = [], st_next = 0\<rparr>,
     lv_pending = [], lv_history = []\<rparr>"

definition racing :: "mem_backend live" where
  "racing = (let a = empty_flow\<lparr>fl_id := 1\<rparr>; b = empty_flow\<lparr>fl_id := 2\<rparr> in
     \<lparr>lv_store = \<lparr>st_backend = \<lparr>mb_next = 2, mb_start = 0, mb_count = 2, mb_flows = [a, b]\<rparr>,
        st_capacity = 2, st_subscribers = [(0, [b, a])], st_next = 1\<rparr>,
      lv_pending = [], lv_history = [b, a]\<rparr>)"

lemma racing_reachable: "(live_step mem_ops mem_newest)\<^sup>*\<^sup>* idle racing"
proof -
  let ?step = "live_step mem_ops mem_newest"
  let ?a = "empty_flow\<lparr>fl_id := 1\<rparr>" and ?b = "empty_flow\<lparr>fl_id := 2\<rparr>"
  let ?s1 = "snd (subscribe (lv_store idle))"
  let ?l1 = "idle\<lparr>lv_store := ?s1\<rparr>"
  let ?b1 = "\<lparr>mb_next = 1, mb_start = 0, mb_count = 1, mb_flows = [?a, empty_flow]\<rparr>"
  let ?l2 = "?l1\<lparr>lv_store := ?s1\<lparr>st_backend := ?b1\<rparr>, lv_pending := [?a], lv_history := [?a]\<rparr>"
  let ?b2 = "\<lparr>mb_next = 2, mb_start = 0, mb_count = 2, mb_flows = [?a, ?b]\<rparr>"
  let ?l3 = "?l2\<lparr>lv_store := ?s1\<lparr>st_backend := ?b2\<rparr>, lv_pending := [?b, ?a], lv_history := [?b, ?a]\<rparr>"
  let ?l4 = "?l3\<lparr>lv_store := notify ?b (lv_store ?l3), lv_pending := [?a]\<rparr>"
  let ?l5 = "?l4\<lparr>lv_store := notify ?a (lv_store ?l4), lv_pending := []\<rparr>"
  have add: "mem_add empty_backend empty_flow 2 = Inr (?a, ?b1)" "mem_add ?b1 empty_flow 2 = Inr (?b, ?b2)"
    by (simp_all add: mem_add_def empty_backend_def Let_def numeral_2_eq_2)
  have room: "mem_newest empty_backend + 1 < 2 ^ 64" "mem_newest ?b1 + 1 < 2 ^ 64"
    by (simp_all add: mem_newest_def empty_backend_def)
  have s1: "?step idle ?l1" by (rule subscribed)
  have s2: "?step ?l1 ?l2"
    using accepted [of mem_ops ?l1 empty_flow ?a ?b1 mem_newest] add(1) room(1)
    by (simp add: idle_def mem_ops_def subscribe_def)
  have s3: "?step ?l2 ?l3"
    using accepted [of mem_ops ?l2 empty_flow ?b ?b2 mem_newest] add(2) room(2)
    by (simp add: idle_def mem_ops_def subscribe_def)
  have s4: "?step ?l3 ?l4"
    using published [of ?b ?l3 mem_ops mem_newest] by simp
  have s5: "?step ?l4 ?l5"
    using published [of ?a ?l4 mem_ops mem_newest] by simp
  have "?l5 = racing"
    by (simp add: racing_def idle_def subscribe_def notify_def offer_def Let_def)
  with s5 have "?step ?l4 racing" by (simp only:)
  with s1 s2 s3 s4 show ?thesis
    by (meson converse_rtranclp_into_rtranclp rtranclp.rtrancl_refl)
qed

theorem live_stream_invariant_witness:
  "length [empty_flow\<lparr>fl_id := 2\<rparr>, empty_flow\<lparr>fl_id := 1\<rparr>] \<le> channel_capacity \<and>
   set [empty_flow\<lparr>fl_id := 2\<rparr>, empty_flow\<lparr>fl_id := 1\<rparr>] \<subseteq> set (lv_history racing) - set (lv_pending racing)"
  using live_stream_invariant [OF racing_reachable refl, of 0 "[empty_flow\<lparr>fl_id := 2\<rparr>, empty_flow\<lparr>fl_id := 1\<rparr>]"]
  by (simp add: idle_def racing_def store_ok_def mem_empty_ok Let_def)

end
