(* ===== verification/Flow_Sqlite.thy ===== *)
theory Flow_Sqlite
  imports Flow_Store Go_Json
begin

text \<open>
  The SQLite backend of the flow store (\<open>internal/flow/store.go\<close>): the selection of the
  backend, the encoding of a flow as a row, the construction of the list query, and the insertion
  with its batched retention. The database engine is a parameter: \<open>sql\<close> collects the
  statements of one transaction, and \<open>sql_contract\<close> states what the retention relies on.
\<close>

subsection \<open>Selecting a backend\<close>

text \<open>\<open>Open\<close> up to the call that opens the database: the memory store or the path.\<close>

definition select_backend :: "string \<Rightarrow> int \<Rightarrow> (store_error, string option) result" where
  "select_backend url capacity =
    (if capacity < 1 then Inl Capacity_Not_Positive
     else if url = [] then Inr None
     else (case cut_prefix url ''sqlite:'' of
         None \<Rightarrow> Inl Bad_Database_Url
       | Some path \<Rightarrow> if path = [] then Inl Bad_Database_Url else Inr (Some path)))"

definition sqlite_dsn :: "string \<Rightarrow> string" where
  "sqlite_dsn path =
    (let dsn = (if has_prefix path ''file:'' then path else ''file:'' @ path) in
     if contains dsn ''?''
     then dsn @ ''&_pragma=busy_timeout(5000)&_pragma=journal_mode(WAL)&_txlock=immediate''
     else dsn @ ''?_pragma=busy_timeout(5000)&_pragma=journal_mode(WAL)&_txlock=immediate'')"

subsection \<open>Rows\<close>

text \<open>JSON texts of the structured columns: the struct tags of the records, with
  \<open>omitempty\<close>. A nil slice is \<open>null\<close>.\<close>

definition json_object :: "(string \<times> string) list \<Rightarrow> string" where
  "json_object fs = ''{'' @ join_with '','' (map (\<lambda>(n, t). json_quote n @ '':'' @ t) fs) @ ''}''"

definition json_array :: "string list \<Rightarrow> string" where
  "json_array ts = (if ts = [] then ''null'' else ''['' @ join_with '','' ts @ '']'')"

definition opt_text :: "string \<Rightarrow> string \<Rightarrow> (string \<times> string) list" where
  "opt_text n s = (if s = [] then [] else [(n, json_quote s)])"

definition opt_flag :: "string \<Rightarrow> bool \<Rightarrow> (string \<times> string) list" where
  "opt_flag n b = (if b then [(n, ''true'')] else [])"

definition opt_list :: "string \<Rightarrow> string list \<Rightarrow> (string \<times> string) list" where
  "opt_list n ts = (if ts = [] then [] else [(n, json_array ts)])"

definition int_text :: "int \<Rightarrow> string" where
  "int_text i = (if i < 0 then ''-'' @ nat_digits (nat (- i)) else nat_digits (nat i))"

definition policy_step_json :: "policy_step \<Rightarrow> string" where
  "policy_step_json p = json_object ([(''check'', json_quote (ps_check p)),
     (''outcome'', json_quote (ps_outcome p))] @ opt_text ''detail'' (ps_detail p))"

definition payload_json :: "payload_capture \<Rightarrow> string" where
  "payload_json p = json_object (opt_text ''content_type'' (pc_content_type p) @
     opt_text ''text'' (pc_text p) @ opt_flag ''omitted'' (pc_omitted p) @
     opt_flag ''truncated'' (pc_truncated p))"

definition header_json :: "header_capture \<Rightarrow> string" where
  "header_json h = json_object [(''name'', json_quote (hc_name h)),
     (''values'', json_array (map json_quote (hc_values h)))]"

definition message_json :: "ws_message \<Rightarrow> string" where
  "message_json m = json_object ([(''direction'', json_quote (wm_direction m))] @
     opt_text ''kind'' (wm_kind m) @ opt_text ''text'' (wm_text m) @
     (if wm_size m = 0 then [] else [(''size'', int_text (wm_size m))]) @
     opt_text ''sha256'' (wm_sha256 m))"

definition opt_payload :: "string \<Rightarrow> payload_capture option \<Rightarrow> (string \<times> string) list" where
  "opt_payload n p = (case p of None \<Rightarrow> [] | Some p \<Rightarrow> [(n, payload_json p)])"

definition capture_json :: "traffic_capture \<Rightarrow> string" where
  "capture_json c = json_object (opt_text ''query'' (tc_query c) @
     opt_list ''request_headers'' (map header_json (tc_request_headers c)) @
     opt_list ''response_headers'' (map header_json (tc_response_headers c)) @
     opt_payload ''request_body'' (tc_request_body c) @
     opt_payload ''response_body'' (tc_response_body c) @
     opt_list ''websocket_messages'' (map message_json (tc_messages c)) @
     opt_flag ''truncated'' (tc_truncated c))"

datatype sql_arg = A_Text string | A_Int int

definition row_args :: "flow \<Rightarrow> sql_arg list" where
  "row_args item = [A_Int (fl_started_at item), A_Int (fl_duration item), A_Text (fl_client item),
     A_Text (fl_method item), A_Text (fl_scheme item), A_Text (fl_host item), A_Int (fl_port item),
     A_Text (fl_path item), A_Text (fl_mode item), A_Text (fl_destination item),
     A_Text (fl_decision item), A_Text (fl_reason item), A_Int (fl_status item),
     A_Int (fl_sent item), A_Int (fl_received item), A_Int (fl_decoded item),
     A_Text (json_array (map json_quote (fl_secrets item))),
     A_Text (json_array (map policy_step_json (fl_trace item))),
     A_Text (json_array (map json_quote (fl_response_secrets item))),
     A_Text (capture_json (fl_capture item)), A_Text (fl_session item),
     A_Text (fl_downstream item), A_Text (fl_upstream item)]"

definition insert_sql :: string where
  "insert_sql = ''INSERT INTO flows (started_at_ns, duration_ns, client, method, scheme, host, port, path, mode, destination_ip, decision, reason, status, bytes_sent, bytes_received, bytes_received_decoded, secret_names, policy_trace, response_secret_names, capture, session_id, downstream_protocol, upstream_protocol) VALUES (?, ?, ?, ?, ?, ?, ?, ?, ?, ?, ?, ?, ?, ?, ?, ?, ?, ?, ?, ?, ?, ?, ?)''"

subsection \<open>Inserting with retention\<close>

record 'd sql =
  tx_begin :: "'d \<Rightarrow> (string, 'd) result"
  tx_insert :: "'d \<Rightarrow> sql_arg list \<Rightarrow> (string, 'd) result"
  tx_last_id :: "'d \<Rightarrow> (string, int) result"
  tx_delete_oldest :: "'d \<Rightarrow> nat \<Rightarrow> (string, 'd) result"
  tx_commit :: "'d \<Rightarrow> (string, 'd) result"

record 'd sqlite_store =
  sq_db :: 'd
  sq_retained :: nat

abbreviation retention_batch :: nat where
  "retention_batch \<equiv> 100"

text \<open>On an error the transaction is rolled back and the store keeps its state.\<close>

definition sqlite_add :: "'d sql \<Rightarrow> 'd sqlite_store \<Rightarrow> flow \<Rightarrow> nat \<Rightarrow> (string, flow \<times> 'd sqlite_store) result" where
  "sqlite_add sql s item capacity =
    rbind (wrap_error (\<lambda>e. ''begin flow insert: '' @ e) (tx_begin sql (sq_db s))) (\<lambda>tx.
    rbind (wrap_error (\<lambda>e. ''insert flow: '' @ e) (tx_insert sql tx (row_args item))) (\<lambda>tx.
    rbind (wrap_error (\<lambda>e. ''read flow id: '' @ e) (tx_last_id sql tx)) (\<lambda>i.
    let retained = sq_retained s + 1; batch = min retention_batch capacity in
    rbind (if capacity + batch \<le> retained
           then rbind (wrap_error (\<lambda>e. ''apply flow retention: '' @ e)
                  (tx_delete_oldest sql tx (retained - capacity))) (\<lambda>tx. Inr (tx, capacity))
           else Inr (tx, retained)) (\<lambda>(tx, retained).
    rbind (wrap_error (\<lambda>e. ''commit flow: '' @ e) (tx_commit sql tx)) (\<lambda>db.
      Inr (item\<lparr>fl_id := word_of_int i\<rparr>, \<lparr>sq_db = db, sq_retained = retained\<rparr>))))))"

subsection \<open>The list query\<close>

definition add_equal :: "string \<Rightarrow> string \<Rightarrow> string \<times> sql_arg list \<Rightarrow> string \<times> sql_arg list" where
  "add_equal column v q =
    (if v \<noteq> [] then (fst q @ '' AND '' @ column @ '' = ?'', snd q @ [A_Text v]) else q)"

definition add_host :: "string \<Rightarrow> string \<times> sql_arg list \<Rightarrow> string \<times> sql_arg list" where
  "add_host host q =
    (if host = [] then q else
     let pattern = to_lower (trim_space host) in
     case cut_prefix pattern ''*.'' of
       Some suf \<Rightarrow> (fst q @ '' AND (host = ? OR host LIKE ?)'', snd q @ [A_Text suf, A_Text (''%.'' @ suf)])
     | None \<Rightarrow>
         if contains_any pattern ''*?'' then (fst q @ '' AND host GLOB ?'', snd q @ [A_Text pattern])
         else (fst q @ '' AND host = ?'', snd q @ [A_Text pattern]))"

definition add_sessions :: "string list \<Rightarrow> string \<times> sql_arg list \<Rightarrow> string \<times> sql_arg list" where
  "add_sessions sessions q =
    (if sessions = [] then q
     else (fst q @ '' AND session_id IN ('' @ join_with '', '' (map (\<lambda>_. ''?'') sessions) @ '')'',
           snd q @ map A_Text sessions))"

definition build_flow_query :: "string \<Rightarrow> flow_filter \<Rightarrow> string \<times> sql_arg list" where
  "build_flow_query columns f =
    (let q = (''SELECT '' @ columns @ '' FROM flows WHERE 1=1'', []);
         q = add_equal ''client'' (ff_client f) q;
         q = add_equal ''decision'' (ff_decision f) q;
         q = add_equal ''mode'' (ff_mode f) q;
         q = add_equal ''method'' (ff_method f) q;
         q = add_host (ff_host f) q;
         q = (if ff_before f \<noteq> 0 then (fst q @ '' AND id < ?'', snd q @ [A_Int (sint (ff_before f))]) else q);
         q = add_sessions (ff_sessions f) q in
     (fst q @ '' ORDER BY id DESC LIMIT ?'', snd q @ [A_Int (ff_limit f)]))"

subsection \<open>Properties\<close>

lemma count_join: "count_list (join_with sep ws) c =
    sum_list (map (\<lambda>w. count_list w c) ws) + (length ws - 1) * count_list sep c"
proof (induction ws)
  case (Cons w ws)
  then show ?case by (cases ws) simp_all
qed simp

abbreviation parameters :: "string \<Rightarrow> nat" where
  "parameters q \<equiv> count_list q (CHR ''?'')"

definition balanced :: "nat \<Rightarrow> string \<times> sql_arg list \<Rightarrow> bool" where
  "balanced n q \<longleftrightarrow> parameters (fst q) = n + length (snd q)"

lemma balanced_equal: "balanced n q \<Longrightarrow> parameters column = 0 \<Longrightarrow> balanced n (add_equal column v q)"
  by (simp add: balanced_def add_equal_def)

lemma balanced_host: "balanced n q \<Longrightarrow> balanced n (add_host host q)"
  by (simp add: balanced_def add_host_def Let_def split: option.split)

lemma balanced_sessions: "balanced n q \<Longrightarrow> balanced n (add_sessions sessions q)"
  by (simp add: balanced_def add_sessions_def count_join o_def sum_list_triv)

lemma balanced_before:
  "balanced n q \<Longrightarrow> balanced n (if c then (fst q @ '' AND id < ?'', snd q @ [x]) else q)"
  by (simp add: balanced_def)

lemma balanced_limit:
  "balanced n q \<Longrightarrow> balanced n (fst q @ '' ORDER BY id DESC LIMIT ?'', snd q @ [x])"
  by (simp add: balanced_def)

text \<open>Every question mark of the list query has its argument: whatever the filter, the query
  has exactly as many parameters as arguments are bound (the column list has none).\<close>

theorem query_parameters:
  "parameters (fst (build_flow_query columns f)) =
     parameters columns + length (snd (build_flow_query columns f))"
proof -
  have "balanced (parameters columns) (build_flow_query columns f)"
    unfolding build_flow_query_def Let_def
    by (intro balanced_limit balanced_sessions balanced_before balanced_host balanced_equal)
      (simp_all add: balanced_def)
  then show ?thesis by (simp add: balanced_def)
qed

text \<open>What the retention relies on: the identifiers in the table, oldest first. A statement that
  succeeds does what SQLite documents; the counter of an \<open>AUTOINCREMENT\<close> key only grows.\<close>

definition sql_contract :: "'d sql \<Rightarrow> ('d \<Rightarrow> int list) \<Rightarrow> bool" where
  "sql_contract sql ids \<longleftrightarrow>
     (\<forall>d t. tx_begin sql d = Inr t \<longrightarrow> ids t = ids d) \<and>
     (\<forall>t args t'. tx_insert sql t args = Inr t' \<longrightarrow>
        (\<exists>i. ids t' = ids t @ [i] \<and> (\<forall>x \<in> set (ids t). x < i) \<and>
             (\<forall>j. tx_last_id sql t' = Inr j \<longrightarrow> j = i))) \<and>
     (\<forall>t n t'. tx_delete_oldest sql t n = Inr t' \<longrightarrow> ids t' = drop n (ids t)) \<and>
     (\<forall>t d. tx_commit sql t = Inr d \<longrightarrow> ids d = ids t)"

lemma sql_contractD:
  assumes "sql_contract sql ids"
  shows "tx_begin sql d = Inr t \<Longrightarrow> ids t = ids d"
    and "tx_insert sql t args = Inr t' \<Longrightarrow> tx_last_id sql t' = Inr i \<Longrightarrow>
      ids t' = ids t @ [i] \<and> (\<forall>x \<in> set (ids t). x < i)"
    and "tx_delete_oldest sql t n = Inr t' \<Longrightarrow> ids t' = drop n (ids t)"
    and "tx_commit sql t = Inr d \<Longrightarrow> ids d = ids t"
  using assms unfolding sql_contract_def by (blast, metis, blast, blast)

definition sqlite_ok :: "('d \<Rightarrow> int list) \<Rightarrow> nat \<Rightarrow> 'd sqlite_store \<Rightarrow> bool" where
  "sqlite_ok ids capacity s \<longleftrightarrow> 0 < capacity \<and> sq_retained s = length (ids (sq_db s)) \<and>
     length (ids (sq_db s)) < capacity + min retention_batch capacity \<and>
     sorted_wrt (<) (ids (sq_db s))"

text \<open>C20. Retention of the SQLite backend. A successful \<open>Add\<close> keeps the counter of retained
  flows equal to the number of rows and that number below the capacity plus one batch; it removes
  flows only from the oldest end, never the new one, and never below the capacity.\<close>

theorem sqlite_add_retention:
  assumes "sql_contract sql ids" and "sqlite_ok ids capacity s"
    and "sqlite_add sql s item capacity = Inr (item', s')"
  shows "sqlite_ok ids capacity s' \<and>
    (\<exists>i n. item' = item\<lparr>fl_id := word_of_int i\<rparr> \<and>
      ids (sq_db s') = drop n (ids (sq_db s) @ [i]) \<and>
      (n = 0 \<or> length (ids (sq_db s')) = capacity))"
proof -
  obtain t1 t2 i t3 r d where steps: "tx_begin sql (sq_db s) = Inr t1"
    "tx_insert sql t1 (row_args item) = Inr t2" "tx_last_id sql t2 = Inr i"
    "(if capacity + min retention_batch capacity \<le> sq_retained s + 1
      then tx_delete_oldest sql t2 (sq_retained s + 1 - capacity) = Inr t3 \<and> r = capacity
      else t3 = t2 \<and> r = sq_retained s + 1)"
    "tx_commit sql t3 = Inr d"
    "item' = item\<lparr>fl_id := word_of_int i\<rparr>" "s' = \<lparr>sq_db = d, sq_retained = r\<rparr>"
    using assms(3) by (auto simp: sqlite_add_def Let_def split: if_splits)
  note laws = sql_contractD [OF assms(1)]
  have t1: "ids t1 = ids (sq_db s)" using laws(1) [OF steps(1)] .
  then have t2: "ids t2 = ids (sq_db s) @ [i]" "\<forall>x \<in> set (ids (sq_db s)). x < i"
    using laws(2) [OF steps(2,3)] by simp_all
  have d: "ids d = ids t3" using laws(4) [OF steps(5)] .
  have sorted: "sorted_wrt (<) (ids t2)"
    using assms(2) t2 by (auto simp: sqlite_ok_def sorted_wrt_append)
  show ?thesis
  proof (cases "capacity + min retention_batch capacity \<le> sq_retained s + 1")
    case True
    then have t3: "ids t3 = drop (sq_retained s + 1 - capacity) (ids t2)" "r = capacity"
      using laws(3) steps(4) by auto
    have "length (ids t3) = capacity" using t2 t3 assms(2) True by (simp add: sqlite_ok_def)
    moreover have "sorted_wrt (<) (ids t3)" using sorted t3 by (simp add: sorted_wrt_drop)
    ultimately have "sqlite_ok ids capacity s'" "length (ids (sq_db s')) = capacity"
      "ids (sq_db s') = drop (sq_retained s + 1 - capacity) (ids (sq_db s) @ [i])"
      using assms(2) steps(7) d t2(1) t3 by (simp_all add: sqlite_ok_def)
    then show ?thesis using steps(6) by blast
  next
    case False
    then have t3: "t3 = t2" "r = sq_retained s + 1" using steps(4) by auto
    then have "ids (sq_db s') = drop 0 (ids (sq_db s) @ [i])" "sqlite_ok ids capacity s'"
      using assms(2) steps(7) d t2 sorted False by (auto simp: sqlite_ok_def)
    then show ?thesis using steps(6) by blast
  qed
qed

text \<open>A table that keeps only the identifiers: the first one and how many there are.\<close>

definition run_sql :: "(int \<times> nat) sql" where
  "run_sql = \<lparr>tx_begin = Inr, tx_insert = (\<lambda>(a, k) args. Inr (a, k + 1)),
     tx_last_id = (\<lambda>(a, k). Inr (a + int k - 1)),
     tx_delete_oldest = (\<lambda>(a, k) n. Inr (a + int n, k - n)), tx_commit = Inr\<rparr>"

definition run_ids :: "int \<times> nat \<Rightarrow> int list" where
  "run_ids d = map (\<lambda>j. fst d + int j) [0..<snd d]"

lemma run_sql_contract: "sql_contract run_sql run_ids"
  by (auto simp: sql_contract_def run_sql_def run_ids_def intro: nth_equalityI)

theorem sqlite_add_retention_witness:
  "\<exists>item' s'. sqlite_add run_sql \<lparr>sq_db = (5, 3), sq_retained = 3\<rparr> empty_flow 2 = Inr (item', s') \<and>
     run_ids (sq_db s') = [7, 8] \<and> sq_retained s' = 2"
proof -
  let ?s = "\<lparr>sq_db = (5, 3), sq_retained = 3\<rparr>"
  have ok: "sqlite_ok run_ids 2 ?s"
    by (simp add: sqlite_ok_def run_ids_def upt_rec)
  obtain item' s' where add: "sqlite_add run_sql ?s empty_flow 2 = Inr (item', s')"
    by (simp add: sqlite_add_def run_sql_def Let_def)
  have "sq_retained s' = length (run_ids (sq_db s'))"
    using sqlite_add_retention [OF run_sql_contract ok add] by (simp add: sqlite_ok_def)
  moreover have "run_ids (sq_db s') = [7, 8]"
    using add by (auto simp: sqlite_add_def run_sql_def run_ids_def upt_rec)
  ultimately show ?thesis using add by simp
qed

end
