(* ===== verification/Go_Http.thy ===== *)
theory Go_Http
  imports Secret_Transform
begin

text \<open>
  Go's package \<open>net/http\<close> as far as the proxy uses it: canonical header names, the operations
  on headers, and the records of requests, responses and their bodies. A header is the list of its
  names and values in the order of one iteration over the map. A body is a stream: the bytes that
  reading it yields, and the error it ends with if it does not end with EOF. Of a URL the record
  keeps the parts the program reads; \<open>u_escaped\<close> is what \<open>EscapedPath\<close> returns.
\<close>

definition header_byte :: "char \<Rightarrow> bool" where
  "header_byte c \<longleftrightarrow> c \<in> set ''!#$%&*+-.^_`|~'' \<or> code c = 39 \<or> digit_char c \<or>
     CHR ''a'' \<le> lower_char c \<and> lower_char c \<le> CHR ''z''"

fun canonical_from :: "bool \<Rightarrow> string \<Rightarrow> string" where
  "canonical_from upper [] = []"
| "canonical_from upper (c # s) =
     (if upper then upper_char c else lower_char c) # canonical_from (c = CHR ''-'') s"

text \<open>\<open>http.CanonicalHeaderKey\<close>: a name with a byte that no header name has is unchanged.\<close>

definition canonical_key :: "string \<Rightarrow> string" where
  "canonical_key s = (if list_all header_byte s then canonical_from True s else s)"

definition header_values :: "headers \<Rightarrow> string \<Rightarrow> string list" where
  "header_values h name = (case map_of h (canonical_key name) of None \<Rightarrow> [] | Some vs \<Rightarrow> vs)"

definition header_get :: "headers \<Rightarrow> string \<Rightarrow> string" where
  "header_get h name = (case header_values h name of [] \<Rightarrow> [] | v # _ \<Rightarrow> v)"

definition header_del :: "string \<Rightarrow> headers \<Rightarrow> headers" where
  "header_del name h = filter (\<lambda>e. fst e \<noteq> canonical_key name) h"

definition header_set :: "string \<Rightarrow> string \<Rightarrow> headers \<Rightarrow> headers" where
  "header_set name v h = obj_set (canonical_key name) [v] h"

definition header_add :: "string \<Rightarrow> string \<Rightarrow> headers \<Rightarrow> headers" where
  "header_add name v h = obj_set (canonical_key name) (header_values h name @ [v]) h"

definition headers_del :: "string list \<Rightarrow> headers \<Rightarrow> headers" where
  "headers_del names h = fold header_del names h"

lemma map_of_obj_set [simp]: "map_of (obj_set k v m) = (map_of m)(k \<mapsto> v)"
  by (induction m) (auto simp: fun_eq_iff)

lemma header_get_set [simp]: "header_get (header_set name v h) name = v"
  by (simp add: header_get_def header_values_def header_set_def)

lemma header_values_add [simp]:
  "header_values (header_add name v h) name = header_values h name @ [v]"
  by (simp add: header_values_def header_add_def)

lemma map_of_header_del [simp]:
  "map_of (header_del name h) k = (if k = canonical_key name then None else map_of h k)"
  by (induction h) (auto simp: header_del_def)

lemma header_get_del [simp]: "header_get (header_del name h) name = []"
  by (simp add: header_get_def header_values_def)

lemma headers_del_sublist: "set (headers_del names h) \<subseteq> set h"
proof (induction names arbitrary: h)
  case (Cons n ns)
  have "set (header_del n h) \<subseteq> set h" by (auto simp: header_del_def)
  with Cons.IH [of "header_del n h"] show ?case by (simp add: headers_del_def)
qed (simp add: headers_del_def)

lemma headers_del_removed: "n \<in> set names \<Longrightarrow> map_of (headers_del names h) (canonical_key n) = None"
proof (induction names arbitrary: h)
  case (Cons m ms)
  have keep: "map_of (headers_del ms g) k = None" if "map_of g k = None" for g k
    using that by (induction ms arbitrary: g) (simp_all add: headers_del_def)
  show ?case
    using Cons keep [of "header_del m h" "canonical_key n"] by (cases "n = m") (auto simp: headers_del_def)
qed simp

lemmas [evaluate] = header_byte_def canonical_key_def header_values_def header_get_def header_del_def
  header_set_def header_add_def headers_del_def

text \<open>The verb \<open>%q\<close>: a quoted string. A rune beyond ASCII is taken to be printable.\<close>

definition quote_rune :: "rune \<Rightarrow> nat \<Rightarrow> string" where
  "quote_rune r w =
    (if r = 34 \<or> r = 92 then [CHR 0x5C, char_of r]
     else if r = 7 then [CHR 0x5C, CHR ''a''] else if r = 8 then [CHR 0x5C, CHR ''b'']
     else if r = 9 then [CHR 0x5C, CHR ''t''] else if r = 10 then [CHR 0x5C, CHR ''n'']
     else if r = 11 then [CHR 0x5C, CHR ''v''] else if r = 12 then [CHR 0x5C, CHR ''f'']
     else if r = 13 then [CHR 0x5C, CHR ''r'']
     else if r < 32 \<or> r = 127 then CHR 0x5C # ''x'' @ [hex_lower (r div 16), hex_lower (r mod 16)]
     else encode_rune r)"

function quote_bytes :: "string \<Rightarrow> string" where
  "quote_bytes s = (if s = [] then []
     else (let (r, w) = decode_rune s in
       (if r = 65533 \<and> w = 1 then CHR 0x5C # ''x'' @ [hex_lower (code (hd s) div 16), hex_lower (code (hd s) mod 16)]
        else quote_rune r w) @ quote_bytes (drop w s)))"
  by pat_completeness auto
termination
proof (relation "measure length", goal_cases)
  case (2 s p r w)
  then have "w = snd (decode_rune s)" by (metis snd_conv)
  with 2 show ?case using decode_rune_width(1) [of s] by (cases s) (auto simp: Suc_le_eq)
qed simp

declare quote_bytes.simps [simp del]

definition quote_text :: "string \<Rightarrow> string" where
  "quote_text s = [CHR 0x22] @ quote_bytes s @ [CHR 0x22]"

record url =
  u_scheme :: string
  u_user :: bool
  u_host :: string
  u_path :: string
  u_escaped :: string
  u_query :: string

record stream =
  sm_data :: string
  sm_error :: "string option"

record request =
  rq_method :: string
  rq_host :: string
  rq_url :: "url option"
  rq_header :: headers
  rq_trailer :: headers
  rq_body :: "stream option"
  rq_length :: int
  rq_transfer :: "string list"
  rq_major :: int
  rq_minor :: int
  rq_close :: bool

record response =
  rs_code :: int
  rs_status :: string
  rs_header :: headers
  rs_trailer :: headers
  rs_body :: stream
  rs_length :: int
  rs_transfer :: "string list"
  rs_major :: int
  rs_minor :: int
  rs_close :: bool
  rs_request :: "request option"

definition url_is_abs :: "url \<Rightarrow> bool" where
  "url_is_abs u \<longleftrightarrow> u_scheme u \<noteq> []"

definition bytes_stream :: "string \<Rightarrow> stream" where
  "bytes_stream s = \<lparr>sm_data = s, sm_error = None\<rparr>"

end
