(* ===== verification/Broker_Chain.thy ===== *)
theory Broker_Chain
  imports Go_Http
begin

text \<open>
  The interface \<open>SecretBroker\<close> of the proxy and the chain that \<open>CombineBrokers\<close> builds
  (\<open>internal/proxy/proxy.go\<close>). An interface value is a record of functions over the state that
  the broker has when it is called; errors are their texts. \<open>sb_scopes\<close> is absent when the
  broker does not implement \<open>hostScoper\<close>. The static broker of the theories on secrets is one
  instance.
\<close>

subsection \<open>Names\<close>

fun merge_into :: "string list \<Rightarrow> string list \<Rightarrow> string list" where
  "merge_into names [] = names"
| "merge_into names (n # ns) = merge_into (if n \<in> set names then names else names @ [n]) ns"

definition merge_names :: "string list list \<Rightarrow> string list" where
  "merge_names groups = sort (foldl merge_into [] groups)"

lemma set_merge_into [simp]: "set (merge_into names ns) = set names \<union> set ns"
  by (induction names ns rule: merge_into.induct) auto

lemma distinct_merge_into: "distinct names \<Longrightarrow> distinct (merge_into names ns)"
  by (induction names ns rule: merge_into.induct) auto

lemma merge_groups:
  "set (foldl merge_into names groups) = set names \<union> (\<Union>g \<in> set groups. set g)"
  "distinct names \<Longrightarrow> distinct (foldl merge_into names groups)"
  by (induction groups arbitrary: names) (auto simp: distinct_merge_into)

lemma merge_names_sorted_names: "merge_names groups = sorted_names (concat groups)"
proof -
  have "set (merge_names groups) = set (sorted_names (concat groups))"
    by (simp add: merge_names_def merge_groups)
  moreover have "distinct (merge_names groups)" "sorted (merge_names groups)"
    by (simp_all add: merge_names_def merge_groups)
  ultimately show ?thesis by (simp add: sorted_distinct_set_unique)
qed

lemma set_merge_names [simp]: "set (merge_names groups) = (\<Union>g \<in> set groups. set g)"
  by (simp add: merge_names_sorted_names)

subsection \<open>The interface\<close>

record secret_broker =
  sb_apply :: "headers \<Rightarrow> string \<Rightarrow> string \<Rightarrow> bool \<Rightarrow> (string, headers \<times> string list) result"
  sb_query :: "string \<Rightarrow> string \<Rightarrow> string \<Rightarrow> bool \<Rightarrow> (string, string \<times> string list) result"
  sb_body :: "string \<Rightarrow> string \<Rightarrow> string \<Rightarrow> string \<Rightarrow> bool
    \<Rightarrow> (string \<times> bool, string \<times> string list \<times> bool) result"
  sb_json :: "string \<Rightarrow> string \<Rightarrow> string \<Rightarrow> (string, string \<times> string list) result"
  sb_scrub :: "string \<Rightarrow> string \<Rightarrow> string \<Rightarrow> string \<times> string list"
  sb_sanitize :: "string \<Rightarrow> string"
  sb_contains :: "string \<Rightarrow> bool"
  sb_names_for :: "string \<Rightarrow> string \<Rightarrow> string \<Rightarrow> string list"
  sb_scopes :: "(string \<Rightarrow> string \<Rightarrow> bool) option"

subsection \<open>The chain\<close>

fun chain_apply :: "secret_broker list \<Rightarrow> headers \<Rightarrow> string \<Rightarrow> string \<Rightarrow> bool \<Rightarrow> string list
    \<Rightarrow> (string, headers \<times> string list) result" where
  "chain_apply [] h client host secure names = Inr (h, names)"
| "chain_apply (b # bs) h client host secure names =
     rbind (sb_apply b h client host secure) (\<lambda>(h, current).
       chain_apply bs h client host secure (merge_names [names, current]))"

fun chain_query :: "secret_broker list \<Rightarrow> string \<Rightarrow> string \<Rightarrow> string \<Rightarrow> bool \<Rightarrow> string list
    \<Rightarrow> (string, string \<times> string list) result" where
  "chain_query [] raw client host secure names = Inr (raw, names)"
| "chain_query (b # bs) raw client host secure names =
     rbind (sb_query b raw client host secure) (\<lambda>(raw, current).
       chain_query bs raw client host secure (merge_names [names, current]))"

fun chain_body :: "secret_broker list \<Rightarrow> string \<Rightarrow> string \<Rightarrow> string \<Rightarrow> string \<Rightarrow> bool
    \<Rightarrow> string list \<Rightarrow> bool \<Rightarrow> (string \<times> bool, string \<times> string list \<times> bool) result" where
  "chain_body [] ct body client host secure names supported = Inr (body, names, supported)"
| "chain_body (b # bs) ct body client host secure names supported =
     rbind (sb_body b ct body client host secure) (\<lambda>(transformed, current, s).
       chain_body bs ct transformed client host secure (merge_names [names, current]) (supported \<or> s))"

fun chain_json :: "secret_broker list \<Rightarrow> string \<Rightarrow> string \<Rightarrow> string \<Rightarrow> string list
    \<Rightarrow> (string, string \<times> string list) result" where
  "chain_json [] body client host names = Inr (body, names)"
| "chain_json (b # bs) body client host names =
     rbind (sb_json b body client host) (\<lambda>(transformed, current).
       chain_json bs transformed client host (merge_names [names, current]))"

fun chain_scrub :: "secret_broker list \<Rightarrow> string \<Rightarrow> string \<Rightarrow> string \<Rightarrow> string list \<Rightarrow> string \<times> string list" where
  "chain_scrub [] data client host names = (data, names)"
| "chain_scrub (b # bs) data client host names =
     (let (data, current) = sb_scrub b data client host in
      chain_scrub bs data client host (merge_names [names, current]))"

definition chain_scopes :: "secret_broker list \<Rightarrow> string \<Rightarrow> string \<Rightarrow> bool" where
  "chain_scopes bs client host = list_ex (\<lambda>b. case sb_scopes b of
     None \<Rightarrow> False | Some scopes \<Rightarrow> scopes client host) bs"

definition broker_chain :: "secret_broker list \<Rightarrow> secret_broker" where
  "broker_chain bs = \<lparr>
     sb_apply = (\<lambda>h client host secure. chain_apply bs h client host secure []),
     sb_query = (\<lambda>raw client host secure. chain_query bs raw client host secure []),
     sb_body = (\<lambda>ct body client host secure. chain_body bs ct body client host secure [] False),
     sb_json = (\<lambda>body client host. chain_json bs body client host []),
     sb_scrub = (\<lambda>data client host. chain_scrub bs data client host []),
     sb_sanitize = (\<lambda>data. foldl (\<lambda>d b. sb_sanitize b d) data bs),
     sb_contains = (\<lambda>data. list_ex (\<lambda>b. sb_contains b data) bs),
     sb_names_for = (\<lambda>data client host.
       foldl (\<lambda>names b. merge_names [names, sb_names_for b data client host]) [] bs),
     sb_scopes = Some (chain_scopes bs)\<rparr>"

text \<open>\<open>CombineBrokers\<close>: nil brokers are left out, and a single one is used as it is.\<close>

definition combine_brokers :: "secret_broker option list \<Rightarrow> secret_broker option" where
  "combine_brokers brokers = (case concat (map (\<lambda>b. case b of None \<Rightarrow> [] | Some b \<Rightarrow> [b]) brokers) of
     [] \<Rightarrow> None
   | [b] \<Rightarrow> Some b
   | bs \<Rightarrow> Some (broker_chain bs))"

subsection \<open>The static broker\<close>

text \<open>The texts of its errors, which quote names, are arguments.\<close>

definition static_broker :: "(apply_error \<Rightarrow> string) \<Rightarrow> (substitute_error \<Rightarrow> string) \<Rightarrow> broker \<Rightarrow> secret_broker" where
  "static_broker apply_text subst_text b = \<lparr>
     sb_apply = (\<lambda>h client host secure. wrap_error apply_text (apply_headers (Some b) h client host secure)),
     sb_query = (\<lambda>raw client host secure. wrap_error subst_text (substitute_query (Some b) raw client host secure)),
     sb_body = (\<lambda>ct body client host secure.
       wrap_error (\<lambda>(e, s). (subst_text e, s)) (substitute_body b ct body client host secure)),
     sb_json = (\<lambda>body client host. wrap_error subst_text (substitute_json_message b body client host)),
     sb_scrub = scrub (Some b), sb_sanitize = sanitize (Some b),
     sb_contains = contains_placeholder (Some b),
     sb_names_for = placeholder_names_for (Some b),
     sb_scopes = Some (scopes_host (Some b))\<rparr>"

subsection \<open>What the proxy relies on\<close>

locale mediating_broker =
  fixes b :: secret_broker
  assumes apply_plain: "sb_apply b h client host False = Inr (h', names) \<Longrightarrow> names = []"
    and apply_silent: "sb_apply b h client host secure = Inr (h', []) \<Longrightarrow> h' = h"
    and query_plain: "sb_query b raw client host False = Inr (raw', names) \<Longrightarrow> names = []"
    and body_plain: "sb_body b ct body client host False = Inr (body', names, s) \<Longrightarrow> names = []"
    and body_silent: "sb_body b ct body client host secure = Inr (body', [], s) \<Longrightarrow> body' = body"
    and scrub_quiet: "sb_scrub b data client host = (data', []) \<Longrightarrow> data' = data"

lemma merge_names_Nil_iff [simp]: "merge_names groups = [] \<longleftrightarrow> (\<forall>g \<in> set groups. g = [])"
  by (metis (no_types, lifting) Union_iff set_merge_names set_empty2 UN_iff all_not_in_conv list.set_intros(1) neq_Nil_conv empty_iff)

text \<open>The names accumulate, so a chain that reports none ran brokers that reported none.\<close>

lemma chain_apply_silent:
  assumes "chain_apply bs h client host secure names = Inr (h', [])" and "\<forall>b \<in> set bs. mediating_broker b"
  shows "names = [] \<and> h' = h"
  using assms
proof (induction bs arbitrary: h names)
  case (Cons b bs)
  then obtain h1 current where step: "sb_apply b h client host secure = Inr (h1, current)"
    and rest: "chain_apply bs h1 client host secure (merge_names [names, current]) = Inr (h', [])" by auto
  have "merge_names [names, current] = []" "h' = h1" using Cons.IH [OF rest] Cons.prems(2) by auto
  then show ?case using mediating_broker.apply_silent [of b] step Cons.prems(2) by simp
qed simp

lemma chain_apply_plain:
  assumes "chain_apply bs h client host False [] = Inr (h', names)" and "\<forall>b \<in> set bs. mediating_broker b"
  shows "names = []"
  using assms
proof (induction bs arbitrary: h)
  case (Cons b bs)
  then obtain h1 current where step: "sb_apply b h client host False = Inr (h1, current)"
    and rest: "chain_apply bs h1 client host False (merge_names [[], current]) = Inr (h', names)" by auto
  have "current = []" using mediating_broker.apply_plain [OF _ step] Cons.prems(2) by simp
  then have "merge_names [[], current] = []" by simp
  with rest show ?case using Cons.IH [of h1] Cons.prems(2) by simp
qed simp

lemma chain_query_plain:
  assumes "chain_query bs raw client host False [] = Inr (raw', names)" and "\<forall>b \<in> set bs. mediating_broker b"
  shows "names = []"
  using assms
proof (induction bs arbitrary: raw)
  case (Cons b bs)
  then obtain raw1 current where step: "sb_query b raw client host False = Inr (raw1, current)"
    and rest: "chain_query bs raw1 client host False (merge_names [[], current]) = Inr (raw', names)" by auto
  have "current = []" using mediating_broker.query_plain [OF _ step] Cons.prems(2) by simp
  then have "merge_names [[], current] = []" by simp
  with rest show ?case using Cons.IH [of raw1] Cons.prems(2) by simp
qed simp

lemma chain_body_plain:
  assumes "chain_body bs ct body client host False [] s = Inr (body', names, s')"
    and "\<forall>b \<in> set bs. mediating_broker b"
  shows "names = []"
  using assms
proof (induction bs arbitrary: body s)
  case (Cons b bs)
  then obtain body1 current s1 where step: "sb_body b ct body client host False = Inr (body1, current, s1)"
    and rest: "chain_body bs ct body1 client host False (merge_names [[], current]) (s \<or> s1) =
      Inr (body', names, s')" by auto
  have "current = []" using mediating_broker.body_plain [OF _ step] Cons.prems(2) by simp
  then have "merge_names [[], current] = []" by simp
  with rest show ?case using Cons.IH [of body1 "s \<or> s1"] Cons.prems(2) by simp
qed simp

lemma chain_body_silent:
  assumes "chain_body bs ct body client host secure names s = Inr (body', [], s')"
    and "\<forall>b \<in> set bs. mediating_broker b"
  shows "names = [] \<and> body' = body"
  using assms
proof (induction bs arbitrary: body names s)
  case (Cons b bs)
  then obtain body1 current s1 where step: "sb_body b ct body client host secure = Inr (body1, current, s1)"
    and rest: "chain_body bs ct body1 client host secure (merge_names [names, current]) (s \<or> s1) =
      Inr (body', [], s')" by auto
  have "merge_names [names, current] = []" "body' = body1" using Cons.IH [OF rest] Cons.prems(2) by auto
  then show ?case using mediating_broker.body_silent [of b] step Cons.prems(2) by simp
qed simp

lemma chain_scrub_quiet:
  assumes "chain_scrub bs data client host names = (data', [])" and "\<forall>b \<in> set bs. mediating_broker b"
  shows "names = [] \<and> data' = data"
  using assms
proof (induction bs arbitrary: data names)
  case (Cons b bs)
  obtain data1 current where step: "sb_scrub b data client host = (data1, current)" by (cases "sb_scrub b data client host")
  with Cons.prems(1) have rest: "chain_scrub bs data1 client host (merge_names [names, current]) = (data', [])" by simp
  have "merge_names [names, current] = []" "data' = data1" using Cons.IH [OF rest] Cons.prems(2) by auto
  then show ?case using mediating_broker.scrub_quiet [of b] step Cons.prems(2) by simp
qed simp

lemma chain_mediates:
  assumes "\<forall>b \<in> set bs. mediating_broker b"
  shows "mediating_broker (broker_chain bs)"
  by unfold_locales
    (use assms in \<open>auto simp: broker_chain_def dest: chain_apply_plain chain_apply_silent chain_query_plain
      chain_body_plain chain_body_silent chain_scrub_quiet\<close>)

text \<open>The static broker satisfies the contract.\<close>

lemma substitute_value_plaintext:
  "substitute_value items v client host False strict = Inr (w, n) \<Longrightarrow> n = None"
  by (induction items) (auto split: if_splits)

lemma substitute_entries_none:
  assumes "\<And>v w n. f v = Inr (w, n) \<Longrightarrow> n = None"
  shows "substitute_entries f vs = Inr (ws, used) \<Longrightarrow> used = []"
  by (induction vs arbitrary: ws used) (auto dest!: assms)

lemma substitute_values_none:
  assumes "\<And>v w n. f v = Inr (w, n) \<Longrightarrow> n = None"
  shows "substitute_values check f m = Inr (m', used) \<Longrightarrow> used = []"
proof (induction m arbitrary: m' used)
  case (Cons e m)
  then obtain k vs ws us m1 us1 where "e = (k, vs)" "substitute_entries f vs = Inr (ws, us)"
    "substitute_values check f m = Inr (m1, us1)" "used = us @ us1" by (cases e) auto
  with Cons.IH substitute_entries_none [of f, OF assms] show ?case by simp
qed simp

lemma transform_json_none:
  assumes f: "\<And>v w n. f v = Inr (w, n) \<Longrightarrow> n = None"
  shows "transform_json check f v = Inr (t, used) \<Longrightarrow> used = []"
proof (induction v arbitrary: t used)
  case (J_Str s)
  then obtain w n where "f s = Inr (w, n)" "used = (case n of None \<Rightarrow> [] | Some n \<Rightarrow> [n])" by auto
  with f [of s w n] show ?case by simp
next
  case (J_Arr vs)
  have "transform_array check f ws = Inr (ts, us) \<Longrightarrow> set ws \<subseteq> set vs \<Longrightarrow> us = []" for ws ts us
    by (induction ws arbitrary: ts us) (auto dest!: J_Arr.IH)
  with J_Arr.prems show ?case by auto
next
  case (J_Obj ms)
  have "transform_object check f ws = Inr (ts, us) \<Longrightarrow> set ws \<subseteq> set ms \<Longrightarrow> us = []" for ws ts us
  proof (induction ws arbitrary: ts us)
    case (Cons w ws)
    then obtain k v t1 u1 ts1 us1 where "w = (k, v)" "transform_json check f v = Inr (t1, u1)"
      "transform_object check f ws = Inr (ts1, us1)" "us = u1 @ us1" by (cases w) auto
    with Cons.IH Cons.prems(2) J_Obj.IH [of w v] show ?case by simp
  qed simp
  with J_Obj.prems show ?case by auto
qed auto

lemma substitute_query_plain:
  assumes "substitute_query (Some b) raw client host False = Inr (raw', names)" shows "names = []"
proof (cases "raw = []")
  case True
  with assms show ?thesis by (simp add: substitute_query_def)
next
  case False
  with assms obtain vals vals' used where
    s: "substitute_values (\<lambda>name. require (\<not> contains_placeholder (Some b) name) Query_Name)
      (\<lambda>v. substitute_value (b_secrets b) v client host False True) vals = Inr (vals', used)"
    and n: "names = sorted_names used" by (auto simp: substitute_query_def Let_def)
  have "used = []" by (rule substitute_values_none [OF _ s]) (rule substitute_value_plaintext)
  with n show ?thesis by simp
qed

lemma substitute_body_plain:
  assumes "substitute_body b ct body client host False = Inr (body', names, s)" shows "names = []"
proof -
  note none = substitute_value_plaintext [where strict = False]
  show ?thesis using assms
    by (auto simp: substitute_body_def Let_def split: if_splits prod.splits
      dest!: transform_json_none(1) [rotated] substitute_values_none [rotated] dest: none)
qed

lemma substitute_body_silent:
  "substitute_body b ct body client host secure = Inr (body', [], s) \<Longrightarrow> body' = body"
  by (auto simp: substitute_body_def Let_def split: if_splits prod.splits)

lemma apply_headers_silent:
  assumes "apply_headers (Some b) h client host secure = Inr (h', [])" shows "h' = h"
proof -
  have "filter (uses_secret h) (b_secrets b) = []"
    using apply_headers_Inr(2) [OF assms] by (metis map_is_Nil_conv sorted_names_Nil)
  then have "stage_all (b_secrets b) h = Inr h"
    using apply_headers_Inr(1) [OF assms] by (intro stage_all_unused) (auto simp: filter_empty_conv)
  with apply_headers_Inr(3) [OF assms] show ?thesis by simp
qed

lemma scan_loop_quiet:
  "scan_loop f t n data off copied out used = (out', []) \<Longrightarrow> used = [] \<and> out' = out @ drop copied data"
proof (induction f t n data off copied out used rule: scan_loop.induct)
  case (1 f t n data off copied out used)
  show ?case
  proof (cases "length data \<le> off")
    case True
    with "1.prems" show ?thesis by (simp add: scan_loop.simps [of f t n data off])
  next
    case False
    show ?thesis
    proof (cases "fst (f (drop off data)) = 0")
      case True
      with False "1.prems" "1.IH"(1) [OF False refl True] show ?thesis
        by (simp add: scan_loop.simps [of f t n data off] Let_def)
    next
      case g: False
      with False "1.prems" "1.IH"(2) [OF False refl g] show ?thesis
        by (simp add: scan_loop.simps [of f t n data off] Let_def)
    qed
  qed
qed

lemma scrub_quiet_static:
  assumes "scrub (Some b) data client host = (out, [])"
  shows "out = data"
proof (cases "data = []")
  case True
  with assms show ?thesis by (auto simp: scrub_def)
next
  case False
  with assms obtain used where "scan_loop (scrub_match b (scope_for b client host))
      (\<lambda>i. d_placeholder (b_secrets b ! i)) (\<lambda>i. d_name (b_secrets b ! i)) data 0 0 [] [] = (out, used)"
    "sorted_names used = []"
    by (auto simp: scrub_def split: prod.splits)
  then show ?thesis using scan_loop_quiet by fastforce
qed

interpretation static: mediating_broker "static_broker apply_text subst_text b"
  for apply_text subst_text b
proof
  fix h h' client host secure and names :: "string list"
  show "names = []" if "sb_apply (static_broker apply_text subst_text b) h client host False = Inr (h', names)"
    using that apply_headers_Inr(1,2) [of b h client host False h' names]
    by (auto simp: static_broker_def filter_empty_conv)
  show "h' = h" if "sb_apply (static_broker apply_text subst_text b) h client host secure = Inr (h', [])"
    using that apply_headers_silent by (auto simp: static_broker_def)
next
  fix raw raw' client host and names :: "string list"
  show "names = []" if "sb_query (static_broker apply_text subst_text b) raw client host False = Inr (raw', names)"
    using that substitute_query_plain by (auto simp: static_broker_def)
next
  fix ct body body' client host s secure and names :: "string list"
  show "names = []" if "sb_body (static_broker apply_text subst_text b) ct body client host False = Inr (body', names, s)"
    using that substitute_body_plain by (auto simp: static_broker_def)
  show "body' = body" if "sb_body (static_broker apply_text subst_text b) ct body client host secure = Inr (body', [], s)"
    using that substitute_body_silent by (auto simp: static_broker_def)
next
  fix data data' client host
  show "data' = data" if "sb_scrub (static_broker apply_text subst_text b) data client host = (data', [])"
    using that scrub_quiet_static by (simp add: static_broker_def)
qed

end
