(* ===== verification/Capture_Headers.thy ===== *)
theory Capture_Headers
  imports Broker_Chain Flow
begin

text \<open>
  Capture of headers, redaction of sensitive values, and content encodings
  (\<open>internal/proxy/headers.go\<close>, \<open>compression.go\<close> and the helpers of \<open>capture.go\<close>).
  The compression formats are arguments: a reader of compressed bytes is the stream that decoding
  yields, a writer returns the encoded bytes or an error.
\<close>

subsection \<open>Sensitive headers\<close>

definition sensitive_header :: "string \<Rightarrow> bool" where
  "sensitive_header name =
    (let n = to_lower (replace_all name ''_'' ''-'') in
     contains n ''authorization'' \<or> contains n ''cookie'' \<or> n = ''authentication-info'' \<or>
     n = ''proxy-authentication-info'' \<or>
     list_ex (contains n) [''api-key'', ''apikey'', ''token'', ''secret'', ''credential'', ''password'',
       ''private-key'', ''signature''])"

text \<open>The closure \<open>add\<close>: values of at least eight bytes, each once.\<close>

definition add_sensitive :: "string list \<Rightarrow> string \<Rightarrow> string list" where
  "add_sensitive acc v = (let v = trim_space v in
     if length v < 8 \<or> v \<in> set acc then acc else acc @ [v])"

definition cookie_values :: "string \<Rightarrow> string list" where
  "cookie_values v = concat (map (\<lambda>part. case cut_on (CHR ''='') part of
     None \<Rightarrow> [] | Some (_, c) \<Rightarrow> [c]) (split_on (CHR '';'') v))"

definition sensitive_candidates :: "string \<Rightarrow> string \<Rightarrow> string list" where
  "sensitive_candidates name v =
     [v] @ (case cut_on (CHR '' '') v of None \<Rightarrow> [] | Some (_, credential) \<Rightarrow> [credential]) @
     (if contains (to_lower name) ''cookie'' then cookie_values v else [])"

definition sensitive_header_values :: "headers \<Rightarrow> string list" where
  "sensitive_header_values h =
    (let vals = foldl (\<lambda>acc (name, entries).
           if \<not> sensitive_header name then acc
           else foldl (\<lambda>acc v. foldl add_sensitive acc (sensitive_candidates name v)) acc entries) [] h in
     sort_key (\<lambda>v. - int (length v)) vals)"

definition redact_capture_values :: "string \<Rightarrow> string list \<Rightarrow> string" where
  "redact_capture_values data vals = foldl (\<lambda>out v. replace_all out v ''[redacted]'') data vals"

definition sanitize_bytes :: "secret_broker option \<Rightarrow> string \<Rightarrow> string" where
  "sanitize_bytes broker v = (case broker of None \<Rightarrow> v | Some b \<Rightarrow> sb_sanitize b v)"

abbreviation sanitize_text :: "secret_broker option \<Rightarrow> string \<Rightarrow> string" where
  "sanitize_text \<equiv> sanitize_bytes"

definition sanitize_capture_bytes :: "secret_broker option \<Rightarrow> string \<Rightarrow> string list \<Rightarrow> string" where
  "sanitize_capture_bytes broker v redactions = redact_capture_values (sanitize_bytes broker v) redactions"

subsection \<open>Header captures\<close>

text \<open>The values of one header, with the bytes that remain of the budget; \<open>None\<close> when a value
  does not fit, and then nothing is captured behind it.\<close>

fun capture_values :: "secret_broker option \<Rightarrow> bool \<Rightarrow> nat \<Rightarrow> string list \<Rightarrow> int \<Rightarrow> string list \<Rightarrow> string list \<times> int option" where
  "capture_values broker sensitive n [] remaining acc = (acc, Some remaining)"
| "capture_values broker sensitive n (v # vs) remaining acc =
    (let v = (if sensitive then ''[redacted]'' else sanitize_text broker v); cost = int (n + length v) in
     if remaining < cost then (acc, None)
     else capture_values broker sensitive n vs (remaining - cost) (acc @ [v]))"

fun capture_names :: "secret_broker option \<Rightarrow> headers \<Rightarrow> string list \<Rightarrow> int \<Rightarrow> header_capture list
    \<Rightarrow> header_capture list \<times> bool" where
  "capture_names broker h [] remaining acc = (acc, False)"
| "capture_names broker h (name # names) remaining acc =
    (let key = canonical_key name;
         vals = (case map_of h name of None \<Rightarrow> [] | Some vs \<Rightarrow> vs);
         (captured, left) = capture_values broker (sensitive_header name) (length key) vals remaining [];
         acc = acc @ [\<lparr>hc_name = key, hc_values = captured\<rparr>] in
     case left of None \<Rightarrow> (acc, True) | Some remaining \<Rightarrow> capture_names broker h names remaining acc)"

definition capture_headers :: "headers \<Rightarrow> string \<Rightarrow> secret_broker option \<Rightarrow> int \<Rightarrow> header_capture list \<times> bool" where
  "capture_headers h host broker limit =
    (let cloned = (if host \<noteq> [] then obj_set ''Host'' [host] h else h);
         names = sort_key to_lower (map fst cloned) in
     capture_names broker cloned names limit [])"

subsection \<open>Content encodings\<close>

definition content_encoding :: "headers \<Rightarrow> (string, string) result" where
  "content_encoding h =
    (let v = to_lower (trim_space (join_with '','' (header_values h ''Content-Encoding''))) in
     if v = [] \<or> v = ''identity'' then Inr ''identity''
     else if contains v '','' then Inl ''stacked content encodings are not supported''
     else if v \<in> set [''gzip'', ''deflate'', ''br'', ''zstd''] then Inr v
     else Inl (''unsupported content encoding '' @ quote_text v))"

record codecs =
  cd_gzip_reader :: "string \<Rightarrow> (string, stream) result"
  cd_zlib_reader :: "string \<Rightarrow> (string, stream) result"
  cd_flate_reader :: "string \<Rightarrow> stream"
  cd_brotli_reader :: "string \<Rightarrow> stream"
  cd_zstd_reader :: "string \<Rightarrow> (string, stream) result"
  cd_gzip_writer :: "string \<Rightarrow> (string, string) result"
  cd_zlib_writer :: "string \<Rightarrow> (string, string) result"
  cd_brotli_writer :: "string \<Rightarrow> (string, string) result"
  cd_zstd_writer :: "string \<Rightarrow> (string, string) result"

text \<open>\<open>readBounded\<close> reads at most one byte more than the limit, so an error beyond that is not
  seen.\<close>

datatype read_error = Capture_Limit | Read_Failed string

definition read_bounded :: "stream \<Rightarrow> int \<Rightarrow> (read_error, string) result" where
  "read_bounded r limit =
    (if limit < 1 then Inl Capture_Limit
     else if limit < int (length (sm_data r)) then Inl Capture_Limit
     else (case sm_error r of Some e \<Rightarrow> Inl (Read_Failed e) | None \<Rightarrow> Inr (sm_data r)))"

definition body_reader :: "codecs \<Rightarrow> string \<Rightarrow> string \<Rightarrow> (string, stream) result" where
  "body_reader c encoding data =
    (if encoding = ''gzip'' then wrap_error (\<lambda>e. ''decode gzip body: '' @ e) (cd_gzip_reader c data)
     else if encoding = ''deflate'' then
       (case cd_zlib_reader c data of Inr r \<Rightarrow> Inr r | Inl _ \<Rightarrow> Inr (cd_flate_reader c data))
     else if encoding = ''br'' then Inr (cd_brotli_reader c data)
     else if encoding = ''zstd'' then wrap_error (\<lambda>e. ''decode zstd body: '' @ e) (cd_zstd_reader c data)
     else Inl (''unsupported content encoding '' @ quote_text encoding))"

definition decode_http_body :: "codecs \<Rightarrow> string \<Rightarrow> string \<Rightarrow> int \<Rightarrow> (string, string) result" where
  "decode_http_body c data encoding limit =
    (if encoding = ''identity'' then Inr data
     else rbind (body_reader c encoding data) (\<lambda>reader.
       case read_bounded reader limit of
         Inr decoded \<Rightarrow> Inr decoded
       | Inl Capture_Limit \<Rightarrow> Inl ''decoded body exceeds mediation limit''
       | Inl (Read_Failed e) \<Rightarrow> Inl (''decode '' @ encoding @ '' body: '' @ e)))"

definition body_writer :: "codecs \<Rightarrow> string \<Rightarrow> string \<Rightarrow> (string, string) result" where
  "body_writer c encoding data =
    (if encoding = ''gzip'' then cd_gzip_writer c data
     else if encoding = ''deflate'' then cd_zlib_writer c data
     else if encoding = ''br'' then cd_brotli_writer c data
     else if encoding = ''zstd'' then cd_zstd_writer c data
     else Inl (''unsupported content encoding '' @ quote_text encoding))"

definition encode_http_body :: "codecs \<Rightarrow> string \<Rightarrow> string \<Rightarrow> int \<Rightarrow> (string, string) result" where
  "encode_http_body c data encoding limit =
    (if encoding = ''identity'' then Inr data
     else rbind (wrap_error (\<lambda>e. ''encode '' @ encoding @ '' body: '' @ e) (body_writer c encoding data)) (\<lambda>output.
       if limit < int (length output) then Inl ''encoded body exceeds mediation limit'' else Inr output))"

definition remove_integrity_headers :: "headers \<Rightarrow> headers" where
  "remove_integrity_headers h = headers_del
     [''Content-MD5'', ''Digest'', ''Content-Digest'', ''Repr-Digest'', ''Signature'', ''Signature-Input''] h"

end
