(* ===== verification/Capture.thy ===== *)
theory Capture
  imports Capture_Headers
begin

text \<open>
  Mediation of buffered requests and responses (\<open>internal/proxy/capture.go\<close>): the head of a
  request, its body through decoding, substitution and encoding, the response through token
  virtualization and scrubbing, and what of both is captured in the flow. A handler is the record
  of what these methods read of \<open>Handler\<close>; the brokers are functions of the state \<open>'o\<close> of
  the OAuth broker, which a token response changes. A method that assigns to the flow before it
  fails returns the flow with the error.
\<close>

record 'o handler =
  hd_secrets :: "'o \<Rightarrow> secret_broker option"
  hd_observe :: "('o \<Rightarrow> request \<Rightarrow> response \<Rightarrow> string \<Rightarrow> string \<Rightarrow> string
    \<Rightarrow> (string, string \<times> string list) result \<times> 'o) option"
  hd_codecs :: codecs
  hd_capture_limit :: int
  hd_mediation_limit :: int

datatype mediation_error = Mediation_Error (me_status: int) (me_text: string)

definition mediation_limit :: "('o, 'z) handler_scheme \<Rightarrow> int" where
  "mediation_limit h = (if 0 < hd_mediation_limit h then hd_mediation_limit h else 33554432)"

definition capture_limit :: "('o, 'z) handler_scheme \<Rightarrow> int" where
  "capture_limit h = (if 0 < hd_capture_limit h then hd_capture_limit h else 1048576)"

abbreviation with_capture :: "(traffic_capture \<Rightarrow> traffic_capture) \<Rightarrow> flow \<Rightarrow> flow" where
  "with_capture f item \<equiv> item\<lparr>fl_capture := f (fl_capture item)\<rparr>"

definition set_truncated :: "bool \<Rightarrow> flow \<Rightarrow> flow" where
  "set_truncated b item = with_capture (\<lambda>c. c\<lparr>tc_truncated := b\<rparr>) item"

definition or_truncated :: "bool \<Rightarrow> flow \<Rightarrow> flow" where
  "or_truncated b item = set_truncated (tc_truncated (fl_capture item) \<or> b) item"

subsection \<open>Media types and payloads\<close>

definition json_valid_one :: "string \<Rightarrow> bool" where
  "json_valid_one body = (case json_decode body of None \<Rightarrow> False | Some (v, rest) \<Rightarrow> json_at_end rest)"

definition request_capture_media :: "string \<Rightarrow> bool" where
  "request_capture_media ct = (let v = parse_media_type ct in
     v = ''text/event-stream'' \<or> v = ''application/json'' \<or> has_suffix v ''+json'' \<or> v = form_media)"

definition response_capture_media :: "string \<Rightarrow> bool" where
  "response_capture_media ct = (let v = parse_media_type ct in
     has_prefix v ''text/'' \<or> v = ''application/json'' \<or> has_suffix v ''+json'' \<or> v = form_media \<or>
     v = ''application/xml'' \<or> has_suffix v ''+xml'' \<or> v = ''application/javascript'')"

definition validate_captured_body :: "string \<Rightarrow> string \<Rightarrow> (string, unit) result" where
  "validate_captured_body ct body = (let m = parse_media_type ct in
     if (m = ''application/json'' \<or> has_suffix m ''+json'') \<and> \<not> json_valid_one body
     then Inl ''JSON request body is malformed''
     else if m = form_media \<and> parse_query body = None then Inl ''form request body is malformed''
     else Inr ())"

definition infer_response_type :: "string \<Rightarrow> string" where
  "infer_response_type body = (let trimmed = trim_space body in
     if has_prefix trimmed ''data:'' \<or> contains trimmed (CHR 0x0A # ''data:'') then ''text/event-stream''
     else if json_valid_one body then ''application/json'' else [])"

text \<open>Bytes are dropped from the end until the text is valid UTF-8.\<close>

function strip_invalid :: "string \<Rightarrow> string" where
  "strip_invalid s = (if s = [] \<or> valid_utf8 s then s else strip_invalid (butlast s))"
  by pat_completeness auto
termination by (relation "measure length") auto

declare strip_invalid.simps [simp del]

definition capture_payload :: "string \<Rightarrow> string \<Rightarrow> bool \<Rightarrow> secret_broker option \<Rightarrow> string list \<Rightarrow> int
    \<Rightarrow> payload_capture \<times> bool" where
  "capture_payload ct body supported broker redactions limit =
    (let capture = \<lparr>pc_content_type = sanitize_capture_bytes broker ct redactions, pc_text = [],
           pc_omitted = \<not> supported, pc_truncated = False\<rparr> in
     if \<not> supported then (capture, False)
     else
       let clean = sanitize_capture_bytes broker body redactions;
           truncated = limit < int (length clean);
           clean = (if truncated then strip_invalid (take (nat limit) clean) else clean) in
       (capture\<lparr>pc_text := clean, pc_truncated := truncated\<rparr>, truncated))"

text \<open>\<open>captureQuery\<close>: the loop over the parameter names, which moves the values of a name that
  sanitizing changes.\<close>

fun capture_values_of :: "(string \<Rightarrow> string) \<Rightarrow> string list \<Rightarrow> url_values \<Rightarrow> url_values" where
  "capture_values_of clean [] vals = vals"
| "capture_values_of clean (name # names) vals = capture_values_of clean names
     (case map_of vals name of
        None \<Rightarrow> vals
      | Some entries \<Rightarrow>
          let entries = map clean entries; cn = clean name in
          if cn \<noteq> name then
            let rest = filter (\<lambda>e. fst e \<noteq> name) vals in
            obj_set cn ((case map_of rest cn of None \<Rightarrow> [] | Some es \<Rightarrow> es) @ entries) rest
          else obj_set name entries vals)"

definition capture_query :: "url option \<Rightarrow> secret_broker option \<Rightarrow> string list \<Rightarrow> (string, string) result" where
  "capture_query u broker redactions = (case u of
     None \<Rightarrow> Inr []
   | Some u \<Rightarrow> if u_query u = [] then Inr [] else
       rbind (of_option ''query string is malformed'' (parse_query (u_query u))) (\<lambda>vals.
         let encoded = values_encode (capture_values_of
               (\<lambda>v. sanitize_capture_bytes broker v redactions) (map fst vals) vals) in
         Inr (replace_all (replace_all encoded ''%5Bsecret%3A'' ''[secret:'') ''%5D'' '']'')))"

subsection \<open>Bodies put in place of the original ones\<close>

definition replace_request_body :: "string \<Rightarrow> request \<Rightarrow> request" where
  "replace_request_body body req =
    (let req = req\<lparr>rq_body := Some (bytes_stream body)\<rparr> in
     if rq_trailer req \<noteq> [] then
       req\<lparr>rq_length := -1, rq_header := header_del ''Content-Length'' (rq_header req),
           rq_transfer := [''chunked'']\<rparr>
     else
       req\<lparr>rq_length := int (length body),
           rq_header := header_del ''Transfer-Encoding''
             (header_set ''Content-Length'' (nat_digits (length body)) (rq_header req)),
           rq_transfer := []\<rparr>)"

definition replace_response_body :: "string \<Rightarrow> response \<Rightarrow> response" where
  "replace_response_body body resp =
    (let resp = resp\<lparr>rs_body := bytes_stream body\<rparr> in
     if rs_trailer resp \<noteq> [] then
       resp\<lparr>rs_length := -1, rs_header := header_del ''Content-Length'' (rs_header resp),
            rs_transfer := [''chunked'']\<rparr>
     else
       resp\<lparr>rs_length := int (length body),
            rs_header := header_del ''Transfer-Encoding''
              (header_set ''Content-Length'' (nat_digits (length body)) (rs_header resp)),
            rs_transfer := []\<rparr>)"

definition response_has_body :: "response \<Rightarrow> bool" where
  "response_has_body resp =
    (if (case rs_request resp of None \<Rightarrow> False | Some req \<Rightarrow> rq_method req = ''HEAD'') then False
     else rs_code resp < 100 \<or> 200 \<le> rs_code resp \<and> rs_code resp \<noteq> 204 \<and> rs_code resp \<noteq> 304)"

subsection \<open>Requests\<close>

text \<open>Replacing the raw query of the request.\<close>

definition set_query :: "string \<Rightarrow> request \<Rightarrow> request" where
  "set_query q req = req\<lparr>rq_url := map_option (\<lambda>u. u\<lparr>u_query := q\<rparr>) (rq_url req)\<rparr>"

definition query_of :: "request \<Rightarrow> string" where
  "query_of req = (case rq_url req of None \<Rightarrow> [] | Some u \<Rightarrow> u_query u)"

text \<open>The header \<open>Expect\<close>.\<close>

definition accept_expectation :: "request \<Rightarrow> (mediation_error, request) result" where
  "accept_expectation req =
    (let expectation = trim_space (header_get (rq_header req) ''Expect'') in
     if expectation = [] then Inr req
     else if \<not> equal_fold expectation ''100-continue''
       then Inl (Mediation_Error 417 ''unsupported request expectation'')
     else Inr (req\<lparr>rq_header := header_del ''Expect'' (rq_header req)\<rparr>))"

text \<open>The substitution in headers and query.\<close>

definition substitute_head :: "('o, 'z) handler_scheme \<Rightarrow> secret_broker option \<Rightarrow> request \<Rightarrow> string \<Rightarrow> string
    \<Rightarrow> bool \<Rightarrow> string list \<Rightarrow> (mediation_error, request \<times> string list \<times> string list) result" where
  "substitute_head h broker req client host secure redactions = (case broker of
     None \<Rightarrow> Inr (req, [], redactions)
   | Some b \<Rightarrow>
       rbind (wrap_error (Mediation_Error 403) (sb_apply b (rq_header req) client host secure))
         (\<lambda>(headers, header_names).
       let req = req\<lparr>rq_header := headers\<rparr> in
       rbind (case rq_url req of None \<Rightarrow> Inr ([], [])
              | Some u \<Rightarrow> wrap_error (Mediation_Error 403) (sb_query b (u_query u) client host secure))
         (\<lambda>(query, query_names).
       let req = set_query query req in
       rbind (require (int (length (query_of req)) \<le> mediation_limit h)
                (Mediation_Error 414 ''substituted query string exceeds mediation limit'')) (\<lambda>_.
         Inr (req, merge_names [header_names, query_names],
              redactions @ sensitive_header_values (rq_header req))))))"

definition mediate_request_head :: "('o, 'z) handler_scheme \<Rightarrow> secret_broker option \<Rightarrow> request \<Rightarrow> string \<Rightarrow> string
    \<Rightarrow> bool \<Rightarrow> flow \<Rightarrow> flow \<times> (mediation_error, request \<times> string list \<times> string list) result" where
  "mediate_request_head h broker req client host secure item =
    (let redactions = sensitive_header_values (rq_header req) in
     case accept_expectation req of Inl e \<Rightarrow> (item, Inl e) | Inr req \<Rightarrow>
     if mediation_limit h < int (length (query_of req))
       then (item, Inl (Mediation_Error 414 ''query string exceeds mediation limit''))
     else if (case (broker, rq_url req) of (Some b, Some u) \<Rightarrow> sb_contains b (u_escaped u) | _ \<Rightarrow> False)
       then (item, Inl (Mediation_Error 403 ''secret placeholders are not allowed in URL paths''))
     else
       case capture_query (rq_url req) broker redactions of
         Inl e \<Rightarrow> (item, Inl (Mediation_Error 400 e))
       | Inr query \<Rightarrow>
           let long = capture_limit h < int (length query);
               item = (if long then set_truncated True item else item);
               item = with_capture (\<lambda>c. c\<lparr>tc_query :=
                 (if long then take (nat (capture_limit h)) query else query)\<rparr>) item in
           (item, substitute_head h broker req client host secure redactions))"

text \<open>\<open>Handler.substituteBody\<close>: the transformed body, the names and whether it may be captured.\<close>

definition handler_substitute_body :: "secret_broker option \<Rightarrow> string \<Rightarrow> string \<Rightarrow> string \<Rightarrow> string \<Rightarrow> bool
    \<Rightarrow> (string, string \<times> string list \<times> bool) result" where
  "handler_substitute_body broker ct body client host secure =
    (let supported = request_capture_media ct in
     rbind (if supported then validate_captured_body ct body else Inr ()) (\<lambda>_.
     case broker of
       None \<Rightarrow> Inr (body, [], supported)
     | Some b \<Rightarrow>
         rbind (wrap_error fst (sb_body b ct body client host secure))
           (\<lambda>(transformed, names, broker_supported). Inr (transformed, names, supported \<or> broker_supported))))"

text \<open>The body through decoding, substitution and encoding: the transformed and the encoded body,
  its names, and whether it may be captured.\<close>

definition transcode_body :: "('o, 'z) handler_scheme \<Rightarrow> secret_broker option \<Rightarrow> request \<Rightarrow> stream \<Rightarrow> string \<Rightarrow> string
    \<Rightarrow> bool \<Rightarrow> (mediation_error, string \<times> string \<times> string list \<times> bool) result" where
  "transcode_body h broker req body client host secure =
    (let limit = mediation_limit h; ct = header_get (rq_header req) ''Content-Type'' in
     rbind (wrap_error (Mediation_Error 415) (content_encoding (rq_header req))) (\<lambda>encoding.
     rbind (wrap_error (\<lambda>_. Mediation_Error 413 ''encoded request body exceeds mediation limit'')
              (read_bounded body limit)) (\<lambda>wire.
     rbind (wrap_error (Mediation_Error 413) (decode_http_body (hd_codecs h) wire encoding limit)) (\<lambda>plain.
     rbind (wrap_error (Mediation_Error 403) (handler_substitute_body broker ct plain client host secure))
       (\<lambda>(transformed, names, supported).
     rbind (wrap_error (Mediation_Error 413) (encode_http_body (hd_codecs h) transformed encoding limit)) (\<lambda>encoded.
       Inr (transformed, encoded, names, supported)))))))"

definition apply_trailer :: "secret_broker option \<Rightarrow> request \<Rightarrow> string \<Rightarrow> string \<Rightarrow> bool
    \<Rightarrow> (mediation_error, request \<times> string list \<times> string list) result" where
  "apply_trailer broker req client host secure = (case broker of
     None \<Rightarrow> Inr (req, [], [])
   | Some b \<Rightarrow> if rq_trailer req = [] then Inr (req, [], []) else
       rbind (wrap_error (Mediation_Error 403) (sb_apply b (rq_trailer req) client host secure))
         (\<lambda>(trailer, names). Inr (req\<lparr>rq_trailer := trailer\<rparr>, names, sensitive_header_values trailer)))"

definition capture_request_headers :: "('o, 'z) handler_scheme \<Rightarrow> secret_broker option \<Rightarrow> request \<Rightarrow> flow \<Rightarrow> flow" where
  "capture_request_headers h broker req item =
    (let (headers, truncated) = capture_headers (rq_header req) (rq_host req) broker (capture_limit h) in
     set_truncated truncated (with_capture (\<lambda>c. c\<lparr>tc_request_headers := headers\<rparr>) item))"

definition mediate_request :: "('o, 'z) handler_scheme \<Rightarrow> secret_broker option \<Rightarrow> request \<Rightarrow> string \<Rightarrow> string
    \<Rightarrow> bool \<Rightarrow> flow \<Rightarrow> flow \<times> (mediation_error, request) result" where
  "mediate_request h broker req client host secure item =
    (case mediate_request_head h broker req client host secure item of
       (item, Inl e) \<Rightarrow> (item, Inl e)
     | (item, Inr (req, names, redactions)) \<Rightarrow>
         (case rq_body req of
            None \<Rightarrow> (capture_request_headers h broker req (item\<lparr>fl_secrets := names\<rparr>), Inr req)
          | Some body \<Rightarrow>
              (case rbind (transcode_body h broker req body client host secure)
                      (\<lambda>t. rbind (apply_trailer broker req client host secure) (\<lambda>u. Inr (t, u))) of
                 Inl e \<Rightarrow> (item, Inl e)
               | Inr ((transformed, encoded, body_names, supported), (req, trailer_names, trailer_redactions)) \<Rightarrow>
                   let ct = header_get (rq_header req) ''Content-Type'';
                       names = merge_names [merge_names [names, body_names], trailer_names];
                       (payload, truncated) = capture_payload ct transformed supported broker
                         (redactions @ trailer_redactions) (capture_limit h);
                       item = or_truncated truncated (with_capture (\<lambda>c. c\<lparr>tc_request_body := Some payload\<rparr>)
                         (item\<lparr>fl_secrets := names\<rparr>));
                       req = (if body_names \<noteq> [] then req\<lparr>rq_header := remove_integrity_headers (rq_header req)\<rparr>
                              else req);
                       req = replace_request_body encoded req in
                   (capture_request_headers h broker req item, Inr req))))"

subsection \<open>Responses\<close>

fun scrub_values :: "secret_broker \<Rightarrow> string \<Rightarrow> string \<Rightarrow> string list \<Rightarrow> string list \<Rightarrow> string list \<times> string list" where
  "scrub_values b client host [] names = ([], names)"
| "scrub_values b client host (v # vs) names =
    (let (scrubbed, found) = sb_scrub b v client host;
         (ws, names) = scrub_values b client host vs (merge_names [names, found]) in
     (scrubbed # ws, names))"

fun scrub_headers :: "secret_broker \<Rightarrow> string \<Rightarrow> string \<Rightarrow> headers \<Rightarrow> string list \<Rightarrow> headers \<times> string list" where
  "scrub_headers b client host [] names = ([], names)"
| "scrub_headers b client host ((name, vals) # h) names =
    (let (vals, names) = scrub_values b client host vals names;
         (h, names) = scrub_headers b client host h names in
     ((name, vals) # h, names))"

definition scrub_response_metadata :: "secret_broker option \<Rightarrow> response \<Rightarrow> string \<Rightarrow> string
    \<Rightarrow> response \<times> string list" where
  "scrub_response_metadata broker resp client host = (case broker of
     None \<Rightarrow> (resp, [])
   | Some b \<Rightarrow>
       let (header, names) = scrub_headers b client host (rs_header resp) [];
           (trailer, names) = scrub_headers b client host (rs_trailer resp) names;
           (status, found) = sb_scrub b (rs_status resp) client host in
       (resp\<lparr>rs_header := header, rs_trailer := trailer, rs_status := status\<rparr>, merge_names [names, found]))"

definition capture_response_headers :: "('o, 'z) handler_scheme \<Rightarrow> secret_broker option \<Rightarrow> response \<Rightarrow> flow
    \<Rightarrow> flow \<times> bool" where
  "capture_response_headers h broker resp item =
    (let (headers, truncated) = capture_headers (rs_header resp) [] broker (capture_limit h) in
     (with_capture (\<lambda>c. c\<lparr>tc_response_headers := headers\<rparr>) item, truncated))"

text \<open>The plain body of a response.\<close>

definition read_response :: "('o, 'z) handler_scheme \<Rightarrow> response \<Rightarrow> (mediation_error, string \<times> string) result" where
  "read_response h resp =
    rbind (wrap_error (Mediation_Error 502) (content_encoding (rs_header resp))) (\<lambda>encoding.
    rbind (wrap_error (\<lambda>_. Mediation_Error 502 ''encoded upstream response exceeds mediation limit'')
             (read_bounded (rs_body resp) (mediation_limit h))) (\<lambda>wire.
    rbind (wrap_error (Mediation_Error 502)
             (decode_http_body (hd_codecs h) wire encoding (mediation_limit h))) (\<lambda>plain.
      Inr (encoding, plain))))"

definition observe_tokens :: "('o, 'z) handler_scheme \<Rightarrow> 'o \<Rightarrow> response \<Rightarrow> string \<Rightarrow> string \<Rightarrow> string
    \<Rightarrow> (mediation_error, string \<times> string list) result \<times> 'o" where
  "observe_tokens h s resp body client host = (case (hd_observe h, rs_request resp) of
     (Some observe, Some req) \<Rightarrow>
       (let (r, s) = observe s req resp body client host in (wrap_error (Mediation_Error 502) r, s))
   | _ \<Rightarrow> (Inr (body, []), s))"

text \<open>What is captured of a delivered response.\<close>

definition capture_response :: "('o, 'z) handler_scheme \<Rightarrow> secret_broker option \<Rightarrow> response \<Rightarrow> string \<Rightarrow> flow \<Rightarrow> flow" where
  "capture_response h broker resp body item =
    (let redactions = (case rs_request resp of None \<Rightarrow> [] | Some req \<Rightarrow> sensitive_header_values (rq_header req));
         ct = header_get (rs_header resp) ''Content-Type'';
         ct = (if trim_space ct = [] then infer_response_type body else ct);
         (payload, truncated) = capture_payload ct body (response_capture_media ct) broker redactions (capture_limit h) in
     or_truncated truncated (with_capture (\<lambda>c. c\<lparr>tc_response_body := Some payload\<rparr>) item))"

definition mediate_response :: "('o, 'z) handler_scheme \<Rightarrow> 'o \<Rightarrow> response \<Rightarrow> string \<Rightarrow> string \<Rightarrow> flow
    \<Rightarrow> flow \<times> (mediation_error, response) result \<times> 'o" where
  "mediate_response h s resp client host item =
    (if \<not> response_has_body resp then
       let (resp, names) = scrub_response_metadata (hd_secrets h s) resp client host;
           (item, truncated) = capture_response_headers h (hd_secrets h s) resp (item\<lparr>fl_response_secrets := names\<rparr>) in
       (set_truncated truncated item, Inr resp, s)
     else
       case read_response h resp of Inl e \<Rightarrow> (item, Inl e, s) | Inr (encoding, body) \<Rightarrow>
       let item = item\<lparr>fl_decoded := int (length body)\<rparr> in
       case observe_tokens h s resp body client host of (Inl e, s) \<Rightarrow> (item, Inl e, s) | (Inr (body, oauth_names), s) \<Rightarrow>
       let (resp, meta_names) = scrub_response_metadata (hd_secrets h s) resp client host;
           (body, body_names) = (case hd_secrets h s of None \<Rightarrow> (body, []) | Some b \<Rightarrow> sb_scrub b body client host) in
       case encode_http_body (hd_codecs h) body encoding (mediation_limit h) of
         Inl e \<Rightarrow> (item, Inl (Mediation_Error 502 e), s)
       | Inr encoded \<Rightarrow>
           let resp = (if body_names \<noteq> [] then
                 resp\<lparr>rs_header := header_del ''ETag'' (remove_integrity_headers (rs_header resp))\<rparr> else resp);
               item = item\<lparr>fl_response_secrets :=
                 merge_names [merge_names [merge_names [[], oauth_names], meta_names], body_names]\<rparr>;
               item = capture_response h (hd_secrets h s) resp body item;
               resp = replace_response_body encoded resp;
               (item, truncated) = capture_response_headers h (hd_secrets h s) resp item in
           (or_truncated truncated item, Inr resp, s))"

subsection \<open>Bounds of what is captured\<close>

definition capture_cost :: "header_capture list \<Rightarrow> nat" where
  "capture_cost cs = sum_list (map (\<lambda>c. sum_list (map (\<lambda>v. length (hc_name c) + length v) (hc_values c))) cs)"

lemma capture_values_spec:
  assumes "capture_values broker sensitive n vs remaining acc = (captured, left)"
    and "0 \<le> remaining"
  shows "\<exists>ws. captured = acc @ ws \<and> int (sum_list (map (\<lambda>v. n + length v) ws)) \<le> remaining \<and>
      (\<forall>r. left = Some r \<longrightarrow> r = remaining - int (sum_list (map (\<lambda>v. n + length v) ws))) \<and>
      (\<forall>w \<in> set ws. if sensitive then w = ''[redacted]'' else \<exists>v \<in> set vs. w = sanitize_text broker v)"
  using assms
proof (induction vs arbitrary: remaining acc)
  case (Cons v vs)
  define w where "w = (if sensitive then ''[redacted]'' else sanitize_text broker v)"
  show ?case
  proof (cases "remaining < int (n + length w)")
    case True
    then show ?thesis using Cons.prems by (simp add: w_def [symmetric] Let_def)
  next
    case False
    then have "capture_values broker sensitive n vs (remaining - int (n + length w)) (acc @ [w]) = (captured, left)"
      using Cons.prems(1) by (simp add: w_def [symmetric] Let_def)
    from Cons.IH [OF this] False obtain ws where ws: "captured = (acc @ [w]) @ ws"
      "int (sum_list (map (\<lambda>v. n + length v) ws)) \<le> remaining - int (n + length w)"
      "\<forall>r. left = Some r \<longrightarrow> r = remaining - int (n + length w) - int (sum_list (map (\<lambda>v. n + length v) ws))"
      "\<forall>w \<in> set ws. if sensitive then w = ''[redacted]'' else \<exists>v \<in> set vs. w = sanitize_text broker v"
      by auto
    have "if sensitive then w = ''[redacted]'' else \<exists>v \<in> set (v # vs). w = sanitize_text broker v"
      by (simp add: w_def)
    then show ?thesis using ws by (intro exI [of _ "w # ws"]) auto
  qed
qed auto

text \<open>What a header capture shows of the headers: redacted values under the names that are
  sensitive, sanitized ones under the others.\<close>

definition safe_capture :: "secret_broker option \<Rightarrow> headers \<Rightarrow> header_capture \<Rightarrow> bool" where
  "safe_capture broker h c \<longleftrightarrow> (\<exists>(name, vals) \<in> set h. hc_name c = canonical_key name \<and>
     (\<forall>w \<in> set (hc_values c). if sensitive_header name then w = ''[redacted]''
        else \<exists>v \<in> set vals. w = sanitize_text broker v))"

lemma capture_names_spec:
  assumes "capture_names broker h names remaining acc = (captures, truncated)"
    and "0 \<le> remaining" and "set names \<subseteq> fst ` set h"
  shows "\<exists>cs. captures = acc @ cs \<and> int (capture_cost cs) \<le> remaining \<and>
    (\<forall>c \<in> set cs. safe_capture broker h c) \<and> (\<not> truncated \<longrightarrow> map hc_name cs = map canonical_key names)"
  using assms
proof (induction names arbitrary: remaining acc)
  case Nil
  then show ?case by (simp add: capture_cost_def)
next
  case (Cons name names)
  have "map_of h name \<noteq> None" using Cons.prems(3) by (simp add: map_of_eq_None_iff)
  then obtain vals where vals: "map_of h name = Some vals" by blast
  obtain captured left where cv: "capture_values broker (sensitive_header name) (length (canonical_key name)) vals remaining [] = (captured, left)"
    by (cases "capture_values broker (sensitive_header name) (length (canonical_key name)) vals remaining []")
  define c where "c = \<lparr>hc_name = canonical_key name, hc_values = captured\<rparr>"
  from capture_values_spec [OF cv Cons.prems(2)] have
    cost: "int (capture_cost [c]) \<le> remaining"
    and left: "\<forall>r. left = Some r \<longrightarrow> r = remaining - int (capture_cost [c])"
    and vs: "\<forall>w \<in> set captured. if sensitive_header name then w = ''[redacted]'' else \<exists>v \<in> set vals. w = sanitize_text broker v"
    by (auto simp: capture_cost_def c_def)
  have safe: "safe_capture broker h c"
    unfolding safe_capture_def using map_of_SomeD [OF vals] vs by (intro bexI [of _ "(name, vals)"]) (simp_all add: c_def)
  show ?case
  proof (cases left)
    case None
    then have "captures = acc @ [c]" "truncated" using Cons.prems(1) vals cv by (simp_all add: c_def Let_def)
    then show ?thesis using cost safe by (intro exI [of _ "[c]"]) simp
  next
    case (Some r)
    then have rest: "capture_names broker h names r (acc @ [c]) = (captures, truncated)"
      using Cons.prems(1) vals cv by (simp add: c_def Let_def)
    have "0 \<le> r" using left Some cost by simp
    from Cons.IH [OF rest this] Cons.prems(3) obtain cs where cs: "captures = (acc @ [c]) @ cs"
      "int (capture_cost cs) \<le> r" "\<forall>c \<in> set cs. safe_capture broker h c"
      "\<not> truncated \<longrightarrow> map hc_name cs = map canonical_key names" by auto
    have "int (capture_cost (c # cs)) \<le> remaining"
      using cs(2) left Some by (simp add: capture_cost_def)
    then show ?thesis using cs safe by (intro exI [of _ "c # cs"]) (simp add: c_def)
  qed
qed

lemma strip_invalid_prefix: "prefix (strip_invalid s) s \<and> valid_utf8 (strip_invalid s)"
proof (induction s rule: strip_invalid.induct)
  case (1 s)
  show ?case
  proof (cases "s = [] \<or> valid_utf8 s")
    case True
    then show ?thesis by (auto simp: strip_invalid.simps [of s])
  next
    case False
    then show ?thesis using 1 prefix_order.trans [OF _ prefixeq_butlast [of s]]
      by (simp add: strip_invalid.simps [of s])
  qed
qed

text \<open>Header captures are bounded and redacted: the names and values kept take at most the
  capture limit, every value under a sensitive name is redacted, every other one is sanitized by
  the broker, and unless the capture is marked as truncated it lists every header.\<close>

theorem capture_headers_safe:
  assumes "capture_headers h host broker limit = (captures, truncated)" and "0 \<le> limit"
  shows "int (capture_cost captures) \<le> limit \<and>
    (\<forall>c \<in> set captures. safe_capture broker (if host = [] then h else obj_set ''Host'' [host] h) c) \<and>
    (truncated \<or> set (map hc_name captures) =
      canonical_key ` fst ` set (if host = [] then h else obj_set ''Host'' [host] h))"
proof -
  define g where "g = (if host = [] then h else obj_set ''Host'' [host] h)"
  have "capture_names broker g (sort_key to_lower (map fst g)) limit [] = (captures, truncated)"
    using assms(1) by (simp add: capture_headers_def g_def Let_def split: if_splits)
  from capture_names_spec [OF this assms(2)] obtain cs where "captures = cs" "int (capture_cost cs) \<le> limit"
    "\<forall>c \<in> set cs. safe_capture broker g c"
    "\<not> truncated \<longrightarrow> map hc_name cs = map canonical_key (sort_key to_lower (map fst g))" by auto
  moreover from this have "set (map hc_name captures) = canonical_key ` fst ` set g" if "\<not> truncated"
    using that by (simp add: image_image)
  ultimately show ?thesis unfolding g_def [symmetric] by blast
qed

subsection \<open>Requests without secrets\<close>

definition mediates :: "secret_broker option \<Rightarrow> bool" where
  "mediates broker \<longleftrightarrow> (\<forall>b. broker = Some b \<longrightarrow> mediating_broker b)"

lemma mediates_simps [simp]: "mediates None" "mediates (Some b) = mediating_broker b"
  by (simp_all add: mediates_def)

text \<open>Equality of requests up to the header, the URL and the fields that a new body sets.\<close>

definition same_envelope :: "request \<Rightarrow> request \<Rightarrow> bool" where
  "same_envelope r r' \<longleftrightarrow> rq_method r' = rq_method r \<and> rq_host r' = rq_host r \<and>
     rq_major r' = rq_major r \<and> rq_minor r' = rq_minor r \<and> rq_close r' = rq_close r"

lemma accept_expectation_Inr:
  assumes "accept_expectation req = Inr req'"
  shows "same_envelope req req' \<and> rq_body req' = rq_body req \<and> rq_trailer req' = rq_trailer req \<and>
    (\<forall>k. k \<noteq> ''Expect'' \<longrightarrow> map_of (rq_header req') k = map_of (rq_header req) k)"
proof -
  have "canonical_key ''Expect'' = ''Expect''" by (simp add: evaluate)
  then show ?thesis using assms
    by (auto simp: accept_expectation_def Let_def same_envelope_def split: if_splits)
qed

lemma substitute_head_Inr:
  assumes "substitute_head h broker req client host secure reds = Inr (req', names, reds')"
    and "mediates broker"
  shows "same_envelope req req' \<and> rq_body req' = rq_body req \<and> rq_trailer req' = rq_trailer req \<and>
    (\<not> secure \<longrightarrow> names = []) \<and> (names = [] \<longrightarrow> rq_header req' = rq_header req)"
proof (cases broker)
  case None
  with assms(1) show ?thesis by (simp add: substitute_head_def same_envelope_def)
next
  case (Some b)
  with assms obtain headers hn q qn where
    head: "sb_apply b (rq_header req) client host secure = Inr (headers, hn)"
    and query: "(case rq_url req of None \<Rightarrow> Inr ([], [])
        | Some u \<Rightarrow> wrap_error (Mediation_Error 403) (sb_query b (u_query u) client host secure)) = Inr (q, qn)"
    and req': "req' = set_query q (req\<lparr>rq_header := headers\<rparr>)" "names = merge_names [hn, qn]"
    by (auto simp: substitute_head_def Let_def)
  have mb: "mediating_broker b" using assms(2) Some by simp
  have "hn = [] \<and> qn = []" if "\<not> secure"
    using that head query mediating_broker.apply_plain [OF mb] mediating_broker.query_plain [OF mb] by (auto split: option.splits)
  moreover have "headers = rq_header req" if "hn = []" using that head mediating_broker.apply_silent [OF mb] by simp
  ultimately show ?thesis using req' by (auto simp: set_query_def same_envelope_def)
qed

lemma transcode_body_Inr:
  assumes "transcode_body h broker req body client host secure = Inr (transformed, encoded, names, supported)"
    and "mediates broker"
  shows "\<exists>encoding wire plain. content_encoding (rq_header req) = Inr encoding \<and>
      read_bounded body (mediation_limit h) = Inr wire \<and>
      decode_http_body (hd_codecs h) wire encoding (mediation_limit h) = Inr plain \<and>
      encode_http_body (hd_codecs h) transformed encoding (mediation_limit h) = Inr encoded \<and>
      (\<not> secure \<longrightarrow> names = []) \<and> (names = [] \<longrightarrow> transformed = plain)"
proof -
  obtain encoding wire plain where steps: "content_encoding (rq_header req) = Inr encoding"
    "read_bounded body (mediation_limit h) = Inr wire"
    "decode_http_body (hd_codecs h) wire encoding (mediation_limit h) = Inr plain"
    "handler_substitute_body broker (header_get (rq_header req) ''Content-Type'') plain client host secure =
      Inr (transformed, names, supported)"
    "encode_http_body (hd_codecs h) transformed encoding (mediation_limit h) = Inr encoded"
    using assms(1) by (auto simp: transcode_body_def Let_def)
  have "(\<not> secure \<longrightarrow> names = []) \<and> (names = [] \<longrightarrow> transformed = plain)"
  proof (cases broker)
    case None
    with steps(4) show ?thesis by (auto simp: handler_substitute_body_def Let_def split: if_splits)
  next
    case (Some b)
    with steps(4) obtain ct s where
      sub: "sb_body b ct plain client host secure = Inr (transformed, names, s)"
      by (auto simp: handler_substitute_body_def Let_def split: if_splits)
    have mb: "mediating_broker b" using assms(2) Some by simp
    have "\<not> secure \<Longrightarrow> names = []" using sub mediating_broker.body_plain [OF mb] by simp
    moreover have "names = [] \<Longrightarrow> transformed = plain" using sub mediating_broker.body_silent [OF mb] by simp
    ultimately show ?thesis by blast
  qed
  with steps show ?thesis by blast
qed

lemma apply_trailer_Inr:
  assumes "apply_trailer broker req client host secure = Inr (req', names, reds)" and "mediates broker"
  shows "(\<exists>t. req' = req\<lparr>rq_trailer := t\<rparr>) \<and> (\<not> secure \<longrightarrow> names = []) \<and> (names = [] \<longrightarrow> req' = req)"
proof (cases broker)
  case None
  with assms(1) show ?thesis by (auto simp: apply_trailer_def intro: exI [of _ "rq_trailer req"])
next
  case (Some b)
  have mb: "mediating_broker b" using assms(2) Some by simp
  show ?thesis
  proof (cases "rq_trailer req = []")
    case True
    with assms(1) Some show ?thesis by (auto simp: apply_trailer_def intro: exI [of _ "rq_trailer req"])
  next
    case False
    with assms(1) Some obtain t where
      head: "sb_apply b (rq_trailer req) client host secure = Inr (t, names)" "req' = req\<lparr>rq_trailer := t\<rparr>"
      by (auto simp: apply_trailer_def)
    have "\<not> secure \<Longrightarrow> names = []" using head mediating_broker.apply_plain [OF mb] by simp
    moreover have "names = [] \<Longrightarrow> t = rq_trailer req" using head mediating_broker.apply_silent [OF mb] by simp
    ultimately show ?thesis using head(2) by auto
  qed
qed

lemma replace_request_body_fields:
  "same_envelope req (replace_request_body body req)"
  "rq_body (replace_request_body body req) = Some (bytes_stream body)"
  "rq_trailer (replace_request_body body req) = rq_trailer req"
  by (simp_all add: replace_request_body_def Let_def same_envelope_def)

lemma map_of_header_set: "map_of (header_set name v h) k = (if k = canonical_key name then Some [v] else map_of h k)"
  by (simp add: header_set_def)

lemma replace_request_body_header:
  assumes "k \<notin> {''Content-Length'', ''Transfer-Encoding''}"
  shows "map_of (rq_header (replace_request_body body req)) k = map_of (rq_header req) k"
proof -
  have "canonical_key ''Content-Length'' = ''Content-Length''"
    "canonical_key ''Transfer-Encoding'' = ''Transfer-Encoding''" by (simp_all add: evaluate)
  then show ?thesis using assms
    by (simp add: replace_request_body_def Let_def map_of_header_set)
qed

lemma capture_request_headers_secrets [simp]:
  "fl_secrets (capture_request_headers h broker req item) = fl_secrets item"
  by (simp add: capture_request_headers_def set_truncated_def split: prod.split)

lemma set_truncated_fields [simp]:
  "fl_secrets (set_truncated b item) = fl_secrets item" "fl_secrets (or_truncated b item) = fl_secrets item"
  "tc_truncated (fl_capture (set_truncated b item)) = b"
  by (simp_all add: set_truncated_def or_truncated_def)

lemma content_encoding_cong:
  assumes "map_of h ''Content-Encoding'' = map_of h' ''Content-Encoding''"
  shows "content_encoding h = content_encoding h'"
proof -
  have "canonical_key ''Content-Encoding'' = ''Content-Encoding''" by (simp add: evaluate)
  with assms show ?thesis by (simp add: content_encoding_def header_values_def)
qed

text \<open>What \<open>mediateRequest\<close> must guarantee, for a broker that keeps its contract.\<close>

definition transparent :: "('o, 'z) handler_scheme \<Rightarrow> request \<Rightarrow> request \<Rightarrow> bool" where
  "transparent h req req' \<longleftrightarrow> same_envelope req req' \<and> rq_trailer req' = rq_trailer req \<and>
     (\<forall>k. k \<notin> {''Expect'', ''Content-Length'', ''Transfer-Encoding''} \<longrightarrow>
        map_of (rq_header req') k = map_of (rq_header req) k) \<and>
     (case rq_body req of
        None \<Rightarrow> rq_body req' = None
      | Some body \<Rightarrow> \<exists>encoding wire plain encoded. content_encoding (rq_header req) = Inr encoding \<and>
          read_bounded body (mediation_limit h) = Inr wire \<and>
          decode_http_body (hd_codecs h) wire encoding (mediation_limit h) = Inr plain \<and>
          encode_http_body (hd_codecs h) plain encoding (mediation_limit h) = Inr encoded \<and>
          rq_body req' = Some (bytes_stream encoded))"

lemma mediate_request_head_Inr:
  assumes "mediate_request_head h broker req client host secure item = (item', Inr (req', names, reds))"
    and "mediates broker"
  shows "same_envelope req req' \<and> rq_body req' = rq_body req \<and> rq_trailer req' = rq_trailer req \<and>
    (\<not> secure \<longrightarrow> names = []) \<and> (names = [] \<longrightarrow> (\<forall>k. k \<noteq> ''Expect'' \<longrightarrow>
      map_of (rq_header req') k = map_of (rq_header req) k))"
proof -
  obtain req1 reds1 where "accept_expectation req = Inr req1"
    "substitute_head h broker req1 client host secure reds1 = Inr (req', names, reds)"
    using assms(1) by (auto simp: mediate_request_head_def Let_def split: sum.splits if_splits)
  from accept_expectation_Inr [OF this(1)] substitute_head_Inr [OF this(2) assms(2)]
  show ?thesis by (auto simp: same_envelope_def)
qed


text \<open>The flag of a truncated capture is lost: the head sets it when the captured query is
  cut, and the capture of the request headers overwrites it. Here the query \<open>q=abc\<close> is cut to
  the capture limit of three bytes, and the flow is not marked as truncated.\<close>

definition tiny_handler :: "unit handler" where
  "tiny_handler = \<lparr>hd_secrets = (\<lambda>_. None), hd_observe = None,
     hd_codecs = \<lparr>cd_gzip_reader = Inl, cd_zlib_reader = Inl, cd_flate_reader = bytes_stream,
       cd_brotli_reader = bytes_stream, cd_zstd_reader = Inl, cd_gzip_writer = Inl, cd_zlib_writer = Inl,
       cd_brotli_writer = Inl, cd_zstd_writer = Inl\<rparr>,
     hd_capture_limit = 3, hd_mediation_limit = 0\<rparr>"

definition tiny_request :: request where
  "tiny_request = \<lparr>rq_method = ''GET'', rq_host = [], rq_url = Some \<lparr>u_scheme = ''http'', u_user = False,
       u_host = ''h'', u_path = ''/'', u_escaped = ''/'', u_query = ''q=abc''\<rparr>,
     rq_header = [], rq_trailer = [], rq_body = None, rq_length = 0, rq_transfer = [],
     rq_major = 1, rq_minor = 1, rq_close = False\<rparr>"

theorem query_truncation_lost:
  "\<exists>item req. mediate_request tiny_handler None tiny_request ''c'' ''h'' True empty_flow = (item, Inr req) \<and>
     tc_query (fl_capture item) = ''q=a'' \<and> \<not> tc_truncated (fl_capture item)"
proof -
  have q: "capture_query (rq_url tiny_request) None [] = Inr ''q=abc''"
    by (simp add: capture_query_def tiny_request_def sanitize_capture_bytes_def sanitize_bytes_def
      redact_capture_values_def evaluate)
  have e: "accept_expectation tiny_request = Inr tiny_request"
    by (simp add: accept_expectation_def tiny_request_def evaluate)
  have limits: "capture_limit tiny_handler = 3" "mediation_limit tiny_handler = 33554432"
    by (simp_all add: capture_limit_def mediation_limit_def tiny_handler_def)
  have s: "sensitive_header_values (rq_header tiny_request) = []"
    by (simp add: sensitive_header_values_def tiny_request_def)
  have fs: "query_of tiny_request = ''q=abc''" "rq_body tiny_request = None"
    by (simp_all add: query_of_def tiny_request_def)
  have "mediate_request_head tiny_handler None tiny_request ''c'' ''h'' True empty_flow =
      (with_capture (\<lambda>c. c\<lparr>tc_query := ''q=a''\<rparr>) (set_truncated True empty_flow), Inr (tiny_request, [], []))"
    unfolding mediate_request_head_def Let_def s e
    by (simp add: q fs limits substitute_head_def)
  then have "mediate_request tiny_handler None tiny_request ''c'' ''h'' True empty_flow =
      (capture_request_headers tiny_handler None tiny_request
        ((with_capture (\<lambda>c. c\<lparr>tc_query := ''q=a''\<rparr>) (set_truncated True empty_flow))\<lparr>fl_secrets := []\<rparr>),
       Inr tiny_request)"
    using fs by (simp add: mediate_request_def)
  then show ?thesis
    by (auto simp: capture_request_headers_def capture_headers_def tiny_request_def set_truncated_def empty_flow_def)
qed

text \<open>A request with a body whose mediation succeeds.\<close>

definition body_request :: request where
  "body_request = tiny_request\<lparr>rq_body := Some (bytes_stream ''hello''), rq_url := None, rq_length := 5\<rparr>"


theorem capture_headers_safe_witness:
  "int (capture_cost [\<lparr>hc_name = ''A'', hc_values = [''b'']\<rparr>,
     \<lparr>hc_name = ''Authorization'', hc_values = [''[redacted]'']\<rparr>]) \<le> 25"
proof -
  let ?h = "[(''Authorization'', [''Bearer x'']), (''A'', [''b''])]"
  have sens: "sensitive_header ''Authorization''" "\<not> sensitive_header ''A''"
    by (simp_all add: sensitive_header_def evaluate sublist_code)
  have "to_lower ''Authorization'' = ''authorization''" "to_lower ''A'' = ''a''"
    "canonical_key ''Authorization'' = ''Authorization''" "canonical_key ''A'' = ''A''"
    by (simp_all add: evaluate)
  then have "capture_headers ?h [] None 25 = ([\<lparr>hc_name = ''A'', hc_values = [''b'']\<rparr>,
     \<lparr>hc_name = ''Authorization'', hc_values = [''[redacted]'']\<rparr>], False)"
    by (simp add: capture_headers_def sens sanitize_bytes_def Let_def)
  from capture_headers_safe [OF this] show ?thesis by simp
qed

end
