(* ===== verification/Proxy_Text.thy ===== *)
theory Proxy_Text
  imports Capture Client_Policy Destination
begin

text \<open>
  Small functions of \<open>internal/proxy/proxy.go\<close>: authorities and request targets, labels and
  reasons in flows, and the headers that a proxy removes.
\<close>

subsection \<open>Texts\<close>

text \<open>\<open>netip.Addr.String\<close>.\<close>

fun hex_text_from :: "nat \<Rightarrow> nat \<Rightarrow> string" where
  "hex_text_from 0 n = []"
| "hex_text_from (Suc k) n = (if n < 16 then [hex_lower n] else hex_text_from k (n div 16) @ [hex_lower (n mod 16)])"

fun zero_run :: "nat list \<Rightarrow> nat" where
  "zero_run [] = 0"
| "zero_run (g # gs) = (if g = 0 then Suc (zero_run gs) else 0)"

text \<open>The start and length of the first longest run of zero groups, of length two at least.\<close>

definition best_run :: "nat list \<Rightarrow> nat \<times> nat" where
  "best_run gs = foldl (\<lambda>(i, n) j. let k = zero_run (drop j gs) in
     if 2 \<le> k \<and> n < k then (j, k) else (i, n)) (length gs, 0) [0..<length gs]"

definition groups_text :: "nat list \<Rightarrow> string" where
  "groups_text gs = join_with '':'' (map (hex_text_from 4) gs)"

definition ip6_groups :: "128 word \<Rightarrow> nat list" where
  "ip6_groups w = map (\<lambda>i. unat (and (drop_bit (16 * (7 - i)) w) 65535)) [0..<8]"

definition ip4_text :: "32 word \<Rightarrow> string" where
  "ip4_text w = join_with ''.'' (map (\<lambda>i. nat_digits (unat (and (drop_bit (8 * (3 - i)) w) 255))) [0..<4])"

fun ip_text :: "ip_addr \<Rightarrow> string" where
  "ip_text Ip_Invalid = ''invalid IP''"
| "ip_text (Ip4 w) = ip4_text w"
| "ip_text (Ip6 w zone) =
    (let gs = ip6_groups w; (i, n) = best_run gs in
     (if is_4in6 w then ''::ffff:'' @ ip4_text (ucast w)
      else if n = 0 then groups_text gs
      else groups_text (take i gs) @ ''::'' @ groups_text (drop (i + n) gs))
     @ (if zone = [] then [] else ''%'' @ zone))"

definition control_to_space :: "rune \<Rightarrow> rune" where
  "control_to_space r = (if r < 32 \<or> r = 127 then 32 else r)"

text \<open>\<open>safeReason\<close> of an error with the given text; 160 bytes and an ellipsis at most.\<close>

definition safe_reason :: "string \<Rightarrow> string" where
  "safe_reason e = (let reason = map_runes control_to_space e in
     if 160 < length reason then take 160 reason @ [CHR 0xE2, CHR 0x80, CHR 0xA6] else reason)"

definition protocol_label :: "int \<Rightarrow> int \<Rightarrow> string" where
  "protocol_label major minor =
    (if major = 2 then ''h2'' else if major = 1 \<and> minor = 1 then ''http/1.1''
     else if major = 1 then ''http/1.0'' else ''unknown'')"

definition sanitized_path :: "url option \<Rightarrow> string" where
  "sanitized_path u = (case u of None \<Rightarrow> [] | Some u \<Rightarrow> if u_escaped u = [] then ''/'' else u_escaped u)"

definition secret_trace_detail :: "string list \<Rightarrow> string" where
  "secret_trace_detail names =
    (if names = [] then ''no placeholders present'' else ''substituted: '' @ join_with '', '' names)"

definition destination_policy_detail :: "client \<Rightarrow> string" where
  "destination_policy_detail c = (if c_any_public c then ''any-public-host policy allowed destination''
     else ''client allowlist allowed destination'')"

subsection \<open>Authorities\<close>

definition port_text :: "int \<Rightarrow> string" where
  "port_text p = (if p < 0 then ''-'' @ nat_digits (nat (- p)) else nat_digits (nat p))"

definition split_authority :: "string \<Rightarrow> int \<Rightarrow> (string, string \<times> int) result" where
  "split_authority authority default_port =
    (if authority = [] \<or> contains authority ''@'' then Inl ''invalid destination authority''
     else
       rbind (case split_host_port authority of
           Some hp \<Rightarrow> Inr hp
         | None \<Rightarrow> if contains authority '':'' then Inl ''destination port is required or malformed''
             else Inr (authority, port_text default_port)) (\<lambda>(host, ptext).
       let host = to_lower (trim_suffix host ''.'') in
       if parse_ip host \<noteq> None then Inl ''direct IP destinations are not supported''
       else (case atoi ptext of
           None \<Rightarrow> Inl ''invalid destination port''
         | Some port \<Rightarrow> if port < 1 \<or> 65535 < port then Inl ''invalid destination port''
             else Inr (host, port))))"

definition request_target :: "request \<Rightarrow> (string, string \<times> int \<times> string) result" where
  "request_target r =
    (if rq_method r = ''CONNECT'' then
       rbind (split_authority (rq_host r) 443) (\<lambda>(host, port). Inr (host, port, ''https''))
     else (case rq_url r of
         None \<Rightarrow> Inl ''proxy requests must use an absolute http URL''
       | Some u \<Rightarrow>
           if \<not> url_is_abs u \<or> u_scheme u \<noteq> ''http'' \<or> u_user u
           then Inl ''proxy requests must use an absolute http URL''
           else
             rbind (split_authority (u_host u) 80) (\<lambda>(host, port).
             case split_authority (rq_host r) 80 of
               Inr (header_host, header_port) \<Rightarrow>
                 if header_host \<noteq> host \<or> header_port \<noteq> port
                 then Inl ''request Host does not match the proxy target''
                 else Inr (host, port, ''http'')
             | Inl _ \<Rightarrow> Inl ''request Host does not match the proxy target'')))"

definition validate_intercepted_request :: "request \<Rightarrow> string \<Rightarrow> int \<Rightarrow> (string, unit) result" where
  "validate_intercepted_request req host port =
    (if rq_method req = ''CONNECT'' then Inl ''nested CONNECT is not allowed''
     else if split_authority (rq_host req) 443 \<noteq> Inr (host, port)
       then Inl ''intercepted Host does not match CONNECT authority''
     else (case rq_url req of
         None \<Rightarrow> Inl ''invalid intercepted request URL''
       | Some u \<Rightarrow>
           if u_user u then Inl ''invalid intercepted request URL''
           else if url_is_abs u \<and> (u_scheme u \<noteq> ''https'' \<or> split_authority (u_host u) 443 \<noteq> Inr (host, port))
             then Inl ''intercepted URL does not match CONNECT authority''
           else Inr ()))"

definition destination_authority :: "string \<Rightarrow> int \<Rightarrow> string \<Rightarrow> string" where
  "destination_authority request_host port scheme =
    (let host = (case split_host_port request_host of
           Some (host, _) \<Rightarrow> host | None \<Rightarrow> trim_suffix request_host ''.'') in
     if scheme = ''http'' \<and> port = 80 \<or> scheme = ''https'' \<and> port = 443 then host
     else join_host_port host (port_text port))"

subsection \<open>Headers that a proxy handles\<close>

definition remove_hop_headers :: "headers \<Rightarrow> headers" where
  "remove_hop_headers h =
    (let listed = map trim_space (split_on (CHR '','') (header_get h ''Connection'')) in
     headers_del [''Connection'', ''Keep-Alive'', ''Proxy-Authenticate'', ''Proxy-Authorization'', ''TE'',
       ''Trailer'', ''Transfer-Encoding'', ''Upgrade''] (headers_del listed h))"

definition copy_headers :: "headers \<Rightarrow> headers \<Rightarrow> headers" where
  "copy_headers dst src = foldl (\<lambda>dst (key, vals). foldl (\<lambda>dst v. header_add key v dst) dst vals) dst src"

text \<open>\<open>Handler.authenticate\<close>: the header is removed, and the client that the credential
  identifies.\<close>

definition authenticate_header :: "policy \<Rightarrow> string \<Rightarrow> client option" where
  "authenticate_header policy raw = (case cut_on (CHR '' '') raw of
     None \<Rightarrow> None
   | Some (scheme, v) \<Rightarrow>
       if to_lower scheme = ''bearer'' then authenticate policy (trim_space v)
       else if to_lower scheme = ''basic'' then
         (case b64_decode b64_std True (trim_space v) of
            None \<Rightarrow> None
          | Some decoded \<Rightarrow>
              (case cut_on (CHR '':'') decoded of
                 None \<Rightarrow> None
               | Some (name, token) \<Rightarrow>
                   (case authenticate policy token of
                      None \<Rightarrow> None
                    | Some c \<Rightarrow> if c_name c = name then Some c else None)))
       else None)"

definition authenticate_request :: "policy option \<Rightarrow> request \<Rightarrow> request \<times> client option" where
  "authenticate_request policy r = (case policy of
     None \<Rightarrow> (r, None)
   | Some f \<Rightarrow> (r\<lparr>rq_header := header_del ''Proxy-Authorization'' (rq_header r)\<rparr>,
       authenticate_header f (header_get (rq_header r) ''Proxy-Authorization'')))"

text \<open>\<open>currentClient\<close>: the entry of the client in the policy in force.\<close>

definition current_client :: "policy option \<Rightarrow> client \<Rightarrow> client option" where
  "current_client policy identity = (case policy of
     None \<Rightarrow> Some identity | Some f \<Rightarrow> find_client f (c_name identity))"

end
