(* ===== verification/Request_Policy.thy ===== *)
theory Request_Policy
  imports Proxy_Text
begin

text \<open>
  How a destination is carried, and the request rules of restricted hosts
  (\<open>internal/proxy/inspect.go\<close>): the choice between an opaque tunnel, inspection and full
  mediation, the path that the rules see, their enforcement, the body reader that enforces a
  request limit, and the header-only mediation of inspected hosts.
\<close>

datatype handling = Opaque | Inspect | Full

definition broker_scopes :: "secret_broker option \<Rightarrow> string \<Rightarrow> string \<Rightarrow> bool" where
  "broker_scopes broker client host = (case broker of None \<Rightarrow> False
     | Some b \<Rightarrow> (case sb_scopes b of None \<Rightarrow> False | Some scopes \<Rightarrow> scopes client host))"

definition handling_for :: "secret_broker option \<Rightarrow> client \<Rightarrow> string \<Rightarrow> handling" where
  "handling_for broker c host =
    (let rules = has_rules_for c host; opq = uses_opaque_tunnel_list c host in
     if opq \<and> \<not> rules then Opaque
     else if intercepts_listed_host c host \<or> broker_scopes broker (c_name c) host then Full
     else if inspects_host c host \<or> opq then Inspect
     else if c_intercept_mode c = mode_opaque then (if rules then Inspect else Opaque)
     else if c_intercept_mode c = mode_inspect then Inspect
     else Full)"

definition request_rule_path :: "url option \<Rightarrow> (string, string) result" where
  "request_rule_path u = (case u of
     None \<Rightarrow> Inl ''request has no URL''
   | Some u \<Rightarrow>
       let escaped = to_lower (u_escaped u); path = u_path u; lowered = to_lower path in
       if contains escaped ''%2f'' \<or> contains escaped ''%5c'' \<or> contains escaped [CHR 0x5C]
         then Inl ''request path contains an encoded or backslash separator''
       else if \<not> has_prefix path ''/'' then Inl ''request path is not absolute''
       else if list_ex (\<lambda>r. r < 32 \<or> r = 127) (runes path)
         then Inl ''request path contains a control character''
       else if contains lowered ''%2e'' \<or> contains lowered ''%2f'' \<or> contains lowered ''%5c''
         then Inl ''request path is double-encoded''
       else if list_ex (\<lambda>seg. seg = ''.'' \<or> seg = ''..'') (split_on (CHR ''/'') path)
         then Inl ''request path contains dot segments''
       else Inr path)"

definition method_override_headers :: "string list" where
  "method_override_headers = [''X-HTTP-Method-Override'', ''X-HTTP-Method'', ''X-Method-Override'']"

text \<open>\<open>limitedBody\<close> on a stream: \<open>b_remaining\<close> bytes may still be read. One \<open>Read\<close> with
  room for \<open>k\<close> bytes gets the first \<open>k\<close> that the wrapped reader delivers at once.\<close>

record limited_body =
  b_source :: stream
  b_remaining :: int

definition stream_read :: "stream \<Rightarrow> nat \<Rightarrow> nat \<Rightarrow> string \<times> stream" where
  "stream_read s k avail = (take (min k avail) (sm_data s), s\<lparr>sm_data := drop (min k avail) (sm_data s)\<rparr>)"

definition limited_read :: "limited_body \<Rightarrow> nat \<Rightarrow> nat \<Rightarrow> string \<times> bool \<times> limited_body" where
  "limited_read b k avail =
    (if b_remaining b < 0 then ([], True, b)
     else
       let k = (if b_remaining b + 1 < int k then nat (b_remaining b + 1) else k);
           (got, source) = stream_read (b_source b) k avail;
           n = int (length got); remaining = b_remaining b - n;
           b = \<lparr>b_source = source, b_remaining = remaining\<rparr> in
       if remaining < 0 then (take (nat (max (n + remaining) 0)) got, True, b) else (got, False, b))"

text \<open>What reading a limited body to its end yields: the permitted bytes and an error when there are
  more, else the original stream.\<close>

definition limit_stream :: "int \<Rightarrow> stream \<Rightarrow> stream" where
  "limit_stream limit s =
    (if limit < int (length (sm_data s))
     then \<lparr>sm_data = take (nat limit) (sm_data s), sm_error = Some ''request body exceeds max_request_bytes''\<rparr>
     else s)"

definition deny_rules :: "int \<Rightarrow> string \<Rightarrow> flow \<Rightarrow> flow \<times> (mediation_error, request) result" where
  "deny_rules status e item = (trace_step ''request-rules'' ''fail'' (safe_reason e) item, Inl (Mediation_Error status e))"

definition enforce_rule :: "request \<Rightarrow> rule option \<Rightarrow> flow \<Rightarrow> flow \<times> (mediation_error, request) result" where
  "enforce_rule req rule item =
    (let limit = (case rule of None \<Rightarrow> 0 | Some r \<Rightarrow> r_max_bytes r);
         ok = trace_step ''request-rules'' ''pass'' ''method and path permitted by allowed_rules'' item in
     case rq_body req of
       None \<Rightarrow> (ok, Inr req)
     | Some body \<Rightarrow>
         if limit \<le> 0 then (ok, Inr req)
         else if limit < rq_length req then deny_rules 413 ''request body exceeds max_request_bytes'' item
         else (ok, Inr (req\<lparr>rq_body := Some (limit_stream limit body)\<rparr>)))"

definition enforce_request_rules :: "secret_broker option \<Rightarrow> request \<Rightarrow> client \<Rightarrow> string \<Rightarrow> flow
    \<Rightarrow> flow \<times> (mediation_error, request) result" where
  "enforce_request_rules broker req c host item =
    (let restricted = has_rules_for c host;
         read_only = (\<not> restricted \<and> handling_for broker c host = Inspect) in
     if \<not> restricted \<and> \<not> read_only then (item, Inr req)
     else
       case find (\<lambda>name. header_get (rq_header req) name \<noteq> []) method_override_headers of
         Some name \<Rightarrow> deny_rules 403 (name @ '' is not allowed on a restricted host'') item
       | None \<Rightarrow>
           if read_only then
             if rq_method req \<noteq> ''GET'' \<and> rq_method req \<noteq> ''HEAD'' then
               deny_rules 403 (''denied by the default read-only policy for inspect_hosts; add an allowed_rules entry to permit ''
                 @ rq_method req) item
             else if rq_body req \<noteq> None \<and> rq_length req \<noteq> 0 then
               deny_rules 413 ''request body is not allowed by the default read-only policy for inspect_hosts'' item
             else (trace_step ''request-rules'' ''pass'' ''default read-only policy for inspect_hosts'' item, Inr req)
           else
             (case request_rule_path (rq_url req) of
                Inl e \<Rightarrow>
                  (case match_rule c host (rq_method req) [] of
                     (_, False) \<Rightarrow> deny_rules 403 (''request is not permitted by allowed_rules: '' @ e) item
                   | (rule, True) \<Rightarrow> enforce_rule req rule item)
              | Inr path \<Rightarrow>
                  (case match_rule c host (rq_method req) path of
                     (_, False) \<Rightarrow> deny_rules 403 ''request is not permitted by allowed_rules'' item
                   | (rule, True) \<Rightarrow> enforce_rule req rule item)))"

definition inspect_request :: "('o, 'z) handler_scheme \<Rightarrow> secret_broker option \<Rightarrow> request \<Rightarrow> string \<Rightarrow> string
    \<Rightarrow> flow \<Rightarrow> flow \<times> (mediation_error, request) result" where
  "inspect_request h broker req client host item =
    (case mediate_request_head h broker req client host True item of
       (item, Inl e) \<Rightarrow> (item, Inl e)
     | (item, Inr (req, names, _)) \<Rightarrow>
         let (headers, truncated) = capture_headers (rq_header req) (rq_host req) broker (capture_limit h) in
         (or_truncated truncated (with_capture (\<lambda>c. c\<lparr>tc_request_headers := headers\<rparr>)
            (item\<lparr>fl_secrets := names\<rparr>)), Inr req))"

definition inspect_response :: "('o, 'z) handler_scheme \<Rightarrow> secret_broker option \<Rightarrow> response \<Rightarrow> string \<Rightarrow> string
    \<Rightarrow> flow \<Rightarrow> flow \<times> response" where
  "inspect_response h broker resp client host item =
    (let (resp, names) = scrub_response_metadata broker resp client host;
         (item, truncated) = capture_response_headers h broker resp (item\<lparr>fl_response_secrets := names\<rparr>) in
     (or_truncated truncated item, resp))"

definition frame_streamed_response :: "request \<Rightarrow> response \<Rightarrow> response" where
  "frame_streamed_response req resp =
    (if 0 \<le> rs_length resp \<or> rs_transfer resp \<noteq> [] \<or> rs_close resp \<or> \<not> response_has_body resp then resp
     else if 1 < rq_major req \<or> rq_major req = 1 \<and> 1 \<le> rq_minor req then resp\<lparr>rs_transfer := [''chunked'']\<rparr>
     else resp\<lparr>rs_close := True\<rparr>)"

definition admit_intercepted_request :: "('o, 'z) handler_scheme \<Rightarrow> secret_broker option \<Rightarrow> request \<Rightarrow> client
    \<Rightarrow> string \<Rightarrow> string \<Rightarrow> bool \<Rightarrow> flow \<Rightarrow> flow \<times> (mediation_error, request) result" where
  "admit_intercepted_request h broker req current client host inspect item =
    (case enforce_request_rules broker req current host item of
       (item, Inl e) \<Rightarrow> (item, Inl e)
     | (item, Inr req) \<Rightarrow>
         if inspect then inspect_request h broker req client host item
         else mediate_request h broker req client host True item)"

subsection \<open>The choice of the handling\<close>

text \<open>A destination stays an opaque tunnel exactly when no request rule of the client applies to
  it and either it is listed as opaque, or the client's mode is opaque and the destination is
  neither listed for interception or inspection nor scoped by a broker. So rules always enforce
  interception, and a brokered host is tunnelled only if it is listed as opaque.\<close>

theorem opaque_exactly:
  "handling_for broker c host = Opaque \<longleftrightarrow> \<not> has_rules_for c host \<and>
     (uses_opaque_tunnel_list c host \<or>
      c_intercept_mode c = mode_opaque \<and> \<not> intercepts_listed_host c host \<and>
      \<not> broker_scopes broker (c_name c) host \<and> \<not> inspects_host c host)"
  by (auto simp: handling_for_def Let_def)

subsection \<open>The limited body\<close>

fun limited_reads :: "limited_body \<Rightarrow> (nat \<times> nat) list \<Rightarrow> string \<times> bool \<times> limited_body" where
  "limited_reads b [] = ([], False, b)"
| "limited_reads b ((k, avail) # rs) = (let (got, failed, b) = limited_read b k avail in
     if failed then (got, True, b)
     else let (more, failed, b) = limited_reads b rs in (got @ more, failed, b))"

lemma limited_read_spec:
  assumes "limited_read b k avail = (got, failed, b')" and "0 \<le> b_remaining b"
  shows "if failed then b_remaining b < int (length (sm_data (b_source b))) \<and>
        got = take (nat (b_remaining b)) (sm_data (b_source b))
    else 0 \<le> b_remaining b' \<and> sm_data (b_source b) = got @ sm_data (b_source b') \<and>
      b_remaining b = int (length got) + b_remaining b'"
proof -
  define d where "d = sm_data (b_source b)"
  define m where "m = min (if b_remaining b + 1 < int k then nat (b_remaining b + 1) else k) avail"
  have m: "int m \<le> b_remaining b + 1" using assms(2) by (auto simp: m_def)
  define n where "n = min (length d) m"
  have n: "int n \<le> b_remaining b + 1" "n \<le> length d" using m by (auto simp: n_def)
  have r: "limited_read b k avail =
      (if b_remaining b - int n < 0 then (take (nat (max (int n + (b_remaining b - int n)) 0)) (take m d), True,
         \<lparr>b_source = (b_source b)\<lparr>sm_data := drop m d\<rparr>, b_remaining = b_remaining b - int n\<rparr>)
       else (take m d, False, \<lparr>b_source = (b_source b)\<lparr>sm_data := drop m d\<rparr>, b_remaining = b_remaining b - int n\<rparr>))"
    using assms(2) by (simp add: limited_read_def stream_read_def Let_def m_def [symmetric] d_def [symmetric] n_def [symmetric])
  show ?thesis
  proof (cases "b_remaining b - int n < 0")
    case True
    then have "int n = b_remaining b + 1" using n by simp
    then have "b_remaining b < int (length d)" "nat (b_remaining b) \<le> m" using n(2) by (auto simp: n_def)
    then show ?thesis using True assms r by (auto simp: d_def min_absorb1)
  next
    case False
    then show ?thesis using assms(1) r by (auto simp: d_def [symmetric] n_def)
  qed
qed

text \<open>The reader that enforces \<open>max_request_bytes\<close>, for every sequence of reads and every
  chunking of the wrapped reader: it never delivers more than the limit, what it delivers is what
  the client sent, in order, and it fails exactly by having seen more than the limit; after a run
  without failure the rest is still to be read.\<close>

theorem limited_reads_bounded:
  assumes "limited_reads b rs = (got, failed, b')" and "0 \<le> b_remaining b"
  shows "int (length got) \<le> b_remaining b \<and>
    (if failed then b_remaining b < int (length (sm_data (b_source b))) \<and>
        got = take (nat (b_remaining b)) (sm_data (b_source b))
     else sm_data (b_source b) = got @ sm_data (b_source b'))"
  using assms
proof (induction b rs arbitrary: got rule: limited_reads.induct)
  case (2 b k avail rs)
  obtain g f b1 where r: "limited_read b k avail = (g, f, b1)" by (cases "limited_read b k avail")
  note s = limited_read_spec [OF r "2.prems"(2)]
  show ?case
  proof (cases f)
    case True
    then show ?thesis using "2.prems" r s by auto
  next
    case False
    obtain more where more: "limited_reads b1 rs = (more, failed, b')" and got: "got = g @ more"
      using "2.prems"(1) r False by (auto simp: Let_def split: prod.splits)
    have ih: "int (length more) \<le> b_remaining b1 \<and>
      (if failed then b_remaining b1 < int (length (sm_data (b_source b1))) \<and>
          more = take (nat (b_remaining b1)) (sm_data (b_source b1))
       else sm_data (b_source b1) = more @ sm_data (b_source b'))"
      using "2.IH" [OF r [symmetric] refl refl] False more s by auto
    have "nat (b_remaining b) = length g + nat (b_remaining b1)" using s False by auto
    then show ?thesis using ih s False got by auto
  qed
qed auto

theorem limited_reads_bounded_witness:
  "fst (limited_reads \<lparr>b_source = bytes_stream ''abcdef'', b_remaining = 4\<rparr> [(3, 9), (3, 9)]) = ''abcd''"
proof -
  let ?r = "limited_reads \<lparr>b_source = bytes_stream ''abcdef'', b_remaining = 4\<rparr> [(3, 9), (3, 9)]"
  have e: "?r = (fst ?r, fst (snd ?r), snd (snd ?r))" by simp
  have "fst (snd ?r)" by (simp add: limited_read_def stream_read_def bytes_stream_def)
  then show ?thesis using limited_reads_bounded [OF e] by (simp add: bytes_stream_def)
qed

subsection \<open>The request rules\<close>

lemma match_rule_loop_True:
  "match_rule_loop host meth path restricted rs = (m, True) \<Longrightarrow> (\<exists>r \<in> set rs. rule_applies host r) \<or> restricted \<Longrightarrow>
   \<exists>r \<in> set rs. m = Some r \<and> rule_applies host r \<and> rule_matches r meth path"
  by (induction rs arbitrary: restricted) (auto split: if_splits)

lemma match_rule_permits:
  assumes "match_rule c host meth path = (m, True)" and "has_rules_for c host"
  shows "\<exists>r \<in> set (c_allowed_rules c). m = Some r \<and> rule_applies (canonical_host host) r \<and> rule_matches r meth path"
  using match_rule_loop_True [of "canonical_host host" meth path False "c_allowed_rules c" m] assms
  by (auto simp: match_rule_def has_rules_for_def list_ex_iff)

lemma enforce_rule_Inr:
  assumes "enforce_rule req rule item = (item', Inr req')"
  shows "rq_method req' = rq_method req \<and> rq_url req' = rq_url req \<and> rq_header req' = rq_header req \<and>
    (\<forall>r body. rule = Some r \<longrightarrow> 0 < r_max_bytes r \<longrightarrow> rq_body req' = Some body \<longrightarrow>
       int (length (sm_data body)) \<le> r_max_bytes r)"
  using assms by (auto simp: enforce_rule_def deny_rules_def Let_def limit_stream_def split: option.splits if_splits)

text \<open>The path a rule sees: none when it cannot be read unambiguously.\<close>

definition rule_path :: "request \<Rightarrow> string" where
  "rule_path req = (case request_rule_path (rq_url req) of Inl _ \<Rightarrow> [] | Inr p \<Rightarrow> p)"

text \<open>C21. A request is let through only if it conforms to the rules of its host. On a host with
  rules it carries no method override, one of the rules permits its method and its path (an
  ambiguous path counts as empty), and its body cannot exceed the rule's limit. On an inspected host
  without rules it is a \<open>GET\<close> or \<open>HEAD\<close> without a body.\<close>

theorem enforce_request_rules_sound:
  assumes "enforce_request_rules broker req c host item = (item', Inr req')"
  shows "(has_rules_for c host \<longrightarrow>
      (\<forall>name \<in> set method_override_headers. header_get (rq_header req) name = []) \<and>
      (\<exists>r \<in> set (c_allowed_rules c). rule_applies (canonical_host host) r \<and>
        rule_matches r (rq_method req) (rule_path req) \<and>
        (\<forall>body. 0 < r_max_bytes r \<longrightarrow> rq_body req' = Some body \<longrightarrow> int (length (sm_data body)) \<le> r_max_bytes r))) \<and>
    (\<not> has_rules_for c host \<and> handling_for broker c host = Inspect \<longrightarrow>
      (rq_method req = ''GET'' \<or> rq_method req = ''HEAD'') \<and> (rq_body req = None \<or> rq_length req = 0))"
proof (cases "has_rules_for c host")
  case True
  with assms have find: "find (\<lambda>name. header_get (rq_header req) name \<noteq> []) method_override_headers = None"
    by (auto simp: enforce_request_rules_def deny_rules_def Let_def split: option.splits)
  then obtain m where m: "match_rule c host (rq_method req) (rule_path req) = (m, True)"
    and e: "enforce_rule req m item = (item', Inr req')"
    using assms True by (auto simp: enforce_request_rules_def deny_rules_def rule_path_def Let_def
        split: sum.splits prod.splits bool.splits)
  obtain r where "r \<in> set (c_allowed_rules c)" "m = Some r" "rule_applies (canonical_host host) r"
    "rule_matches r (rq_method req) (rule_path req)"
    using match_rule_permits [OF m True] by blast
  with enforce_rule_Inr [OF e] find True show ?thesis by (auto simp: find_None_iff)
next
  case False
  then show ?thesis using assms
    by (auto simp: enforce_request_rules_def deny_rules_def Let_def split: if_splits option.splits)
qed


definition ruled_client :: client where
  "ruled_client = sample_client_ok\<lparr>c_allowed_rules := [\<lparr>r_host = ''api.example.com'', r_hosts = [],
     r_methods = [''GET''], r_path_prefixes = [], r_max_bytes = 0\<rparr>]\<rparr>"

theorem enforce_request_rules_sound_witness:
  "has_rules_for ruled_client ''api.example.com'' \<and>
   (\<exists>r \<in> set (c_allowed_rules ruled_client). rule_matches r ''GET'' (rule_path tiny_request))"
proof -
  have h: "canonical_host ''api.example.com'' = ''api.example.com''" by (simp add: evaluate)
  have r: "has_rules_for ruled_client ''api.example.com''"
    by (simp add: has_rules_for_def h ruled_client_def rule_applies_def evaluate)
  have m: "match_rule ruled_client ''api.example.com'' ''GET'' p = (Some (hd (c_allowed_rules ruled_client)), True)" for p
    by (simp add: match_rule_def h ruled_client_def rule_applies_def rule_matches_def evaluate)
  have t: "rq_body tiny_request = None" "rq_method tiny_request = ''GET''" "rq_header tiny_request = []"
    by (simp_all add: tiny_request_def)
  have g: "enforce_rule tiny_request rule empty_flow = (fst (enforce_rule tiny_request rule empty_flow), Inr tiny_request)" for rule
    by (simp add: enforce_rule_def t Let_def)
  obtain item where e: "enforce_request_rules None tiny_request ruled_client ''api.example.com'' empty_flow = (item, Inr tiny_request)"
    using g [of "Some (hd (c_allowed_rules ruled_client))"]
    by (cases "request_rule_path (rq_url tiny_request)")
      (simp_all add: enforce_request_rules_def r m t Let_def method_override_headers_def header_get_def header_values_def)
  show ?thesis using enforce_request_rules_sound [OF e] r t by auto
qed

end
