(* ===== verification/Streaming.thy ===== *)
theory Streaming
  imports Request_Policy
begin

text \<open>
  Streamed responses (\<open>internal/proxy/streaming.go\<close>): which responses are streamed, the records
  that \<open>readStreamingRecord\<close> cuts the decoded body into, the scrubbing and sending of one record
  after the other, and the bounded capture of what was sent. Compression is an argument: a decoder
  turns the wire stream into the decoded one, an encoder returns the bytes it emits when a record
  is written behind others and flushed. The writer downstream is the error, if any, with which it
  takes the next bytes. How far the buffered reader has read ahead when a loop stops early is an
  argument too.
\<close>

definition streaming_response_type :: "string \<Rightarrow> bool \<times> bool" where
  "streaming_response_type ct =
    (let m = to_lower (case mime_media_type ct of Some m \<Rightarrow> m
           | None \<Rightarrow> to_lower (trim_space (hd (split_on (CHR '';'') ct)))) in
     if m = ''text/event-stream'' then (True, True)
     else if m \<in> set [''application/x-ndjson'', ''application/ndjson'', ''application/jsonl'', ''application/jsonlines'']
       then (True, False)
     else (False, False))"

definition should_stream_response :: "string \<Rightarrow> int \<Rightarrow> string \<Rightarrow> bool \<times> bool" where
  "should_stream_response meth status ct =
    (if meth = ''HEAD'' \<or> 100 \<le> status \<and> status \<le> 199 \<or> status = 204 \<or> status = 304 then (False, False)
     else streaming_response_type ct)"

subsection \<open>Records\<close>

abbreviation newline :: char where "newline \<equiv> CHR 0x0A"

text \<open>The size of the buffered reader, and its \<open>ReadSlice\<close> up to a newline: the bytes returned
  with a newline, with a full buffer, or with the end of the stream.\<close>

definition stream_buffer :: nat where "stream_buffer = 32 * 1024"

datatype slice_end = Slice_Line | Slice_Full | Slice_End

definition read_slice :: "string \<Rightarrow> string \<times> slice_end \<times> string" where
  "read_slice d = (let line = takeWhile (\<lambda>c. c \<noteq> newline) d in
     if length line < stream_buffer \<and> length line < length d
       then (line @ [newline], Slice_Line, drop (Suc (length line)) d)
     else if stream_buffer \<le> length d then (take stream_buffer d, Slice_Full, drop stream_buffer d)
     else (d, Slice_End, []))"

lemma line_split:
  assumes "length (takeWhile P d) < length d"
  shows "takeWhile P d @ d ! length (takeWhile P d) # drop (Suc (length (takeWhile P d))) d = d"
    and "\<not> P (d ! length (takeWhile P d))"
proof -
  show "takeWhile P d @ d ! length (takeWhile P d) # drop (Suc (length (takeWhile P d))) d = d"
    using id_take_nth_drop [OF assms] by (simp add: takeWhile_eq_take [symmetric])
  show "\<not> P (d ! length (takeWhile P d))" by (rule nth_length_takeWhile [OF assms])
qed

lemma read_slice_split:
  assumes "read_slice d = (part, how, rest)"
  shows "d = part @ rest" and "how = Slice_Line \<Longrightarrow> part \<noteq> []"
proof -
  let ?line = "takeWhile (\<lambda>c. c \<noteq> newline) d"
  note split = line_split [of "\<lambda>c. c \<noteq> newline" d]
  show "d = part @ rest"
  proof (cases "length ?line < stream_buffer \<and> length ?line < length d")
    case True
    then have "part = ?line @ [newline]" "rest = drop (Suc (length ?line)) d"
      using assms by (simp_all add: read_slice_def Let_def)
    with split True show ?thesis by simp
  next
    case False
    then show ?thesis using assms by (auto simp: read_slice_def Let_def split: if_splits)
  qed
  show "how = Slice_Line \<Longrightarrow> part \<noteq> []"
    using assms by (auto simp: read_slice_def Let_def split: if_splits)
qed

lemma read_slice_progress:
  "read_slice d = (part, how, rest) \<Longrightarrow> how \<noteq> Slice_End \<Longrightarrow> length rest < length d"
  by (auto simp: read_slice_def Let_def stream_buffer_def split: if_splits)

datatype record_read = Record string string | Record_Eof | Record_Failed string

function read_record :: "bool \<Rightarrow> int \<Rightarrow> string option \<Rightarrow> string \<Rightarrow> string \<Rightarrow> record_read" where
  "read_record sse limit err acc d =
    (case read_slice d of (part, how, rest) \<Rightarrow>
      let acc = acc @ part in
      if limit < int (length acc) then Record_Failed ''traffic payload exceeds capture limit''
      else case how of
        Slice_Full \<Rightarrow> read_record sse limit err acc rest
      | Slice_End \<Rightarrow> (case err of Some e \<Rightarrow> Record_Failed e
          | None \<Rightarrow> if acc = [] then Record_Eof else Record acc rest)
      | Slice_Line \<Rightarrow>
          let line = trim_suffix (trim_suffix part [newline]) [CHR 0x0D] in
          if \<not> sse \<or> line = [] then Record acc rest else read_record sse limit err acc rest)"
  by pat_completeness auto
termination
  by (relation "measure (\<lambda>(_, _, _, _, d). length d)") (auto dest: read_slice_progress [OF sym])

declare read_record.simps [simp del]

text \<open>A record begins with the bytes already read and takes at least one more from the stream.\<close>

lemma read_record_step:
  assumes "read_record sse limit err acc d = Record r rest" and "read_slice d = (part, how, s)"
  shows "int (length (acc @ part)) \<le> limit \<and>
    (r = acc @ part \<and> rest = s \<and> how \<noteq> Slice_Full \<and> r \<noteq> [] \<or>
     how \<noteq> Slice_End \<and> read_record sse limit err (acc @ part) s = Record r rest)"
  using assms
  by (subst (asm) read_record.simps) (auto simp: Let_def split: slice_end.splits if_splits option.splits
      dest: read_slice_split(2))

lemma read_record_split:
  "read_record sse limit err acc d = Record r rest \<Longrightarrow>
   \<exists>more. r = acc @ more \<and> d = more @ rest \<and> int (length r) \<le> limit \<and> r \<noteq> []"
proof (induction "length d" arbitrary: acc d rule: less_induct)
  case less
  obtain part how s where s: "read_slice d = (part, how, s)" by (cases "read_slice d")
  note d = read_slice_split(1) [OF s]
  from read_record_step [OF less.prems s] consider "r = acc @ part" "rest = s" "int (length r) \<le> limit" "r \<noteq> []"
    | "how \<noteq> Slice_End" "read_record sse limit err (acc @ part) s = Record r rest" by auto
  then show ?case
  proof cases
    case 1
    then show ?thesis using d by simp
  next
    case 2
    from less.hyps [OF read_slice_progress [OF s 2(1)] 2(2)] d show ?thesis by auto
  qed
qed


text \<open>The records of a body, and the error that ends them.\<close>

function read_records :: "bool \<Rightarrow> int \<Rightarrow> stream \<Rightarrow> string list \<times> string option" where
  "read_records sse limit s =
    (case read_record sse limit (sm_error s) [] (sm_data s) of
       Record_Eof \<Rightarrow> ([], None)
     | Record_Failed e \<Rightarrow> ([], Some (''read streaming response record: '' @ e))
     | Record r rest \<Rightarrow> let (rs, e) = read_records sse limit (s\<lparr>sm_data := rest\<rparr>) in (r # rs, e))"
  by pat_completeness auto
termination
proof (relation "measure (\<lambda>(_, _, s). length (sm_data s))", goal_cases)
  case (2 sse limit s r rest)
  from read_record_split [OF 2] show ?case by auto
qed simp

declare read_records.simps [simp del]

subsection \<open>Headers of a streamed response\<close>

definition prepare_streaming_response :: "('o, 'z) handler_scheme \<Rightarrow> secret_broker option \<Rightarrow> response \<Rightarrow> string
    \<Rightarrow> string \<Rightarrow> flow \<Rightarrow> flow \<times> (string, response \<times> string \<times> bool) result" where
  "prepare_streaming_response h broker resp client host item =
    (case streaming_response_type (header_get (rs_header resp) ''Content-Type'') of (streaming, sse) \<Rightarrow>
     if \<not> streaming then (item, Inl ''response is not a supported streaming media type'') else
     case content_encoding (rs_header resp) of Inl e \<Rightarrow> (item, Inl e) | Inr encoding \<Rightarrow>
     let (resp, names) = scrub_response_metadata broker resp client host;
         item = item\<lparr>fl_response_secrets := merge_names [fl_response_secrets item, names]\<rparr>;
         (item, truncated) = capture_response_headers h broker resp item;
         item = or_truncated truncated item;
         item = with_capture (\<lambda>c. c\<lparr>tc_response_body := Some \<lparr>
             pc_content_type = sanitize_capture_bytes broker (header_get (rs_header resp) ''Content-Type'') [],
             pc_text = [], pc_omitted = False, pc_truncated = False\<rparr>\<rparr>) item in
     (item, Inr (resp\<lparr>rs_length := -1,
         rs_header := remove_integrity_headers (header_del ''Content-Length'' (rs_header resp))\<rparr>, encoding, sse)))"

text \<open>The header map of the response writer, and the names of the trailers announced in it.\<close>

definition copy_streaming_response_headers :: "headers \<Rightarrow> response \<Rightarrow> headers" where
  "copy_streaming_response_headers dst resp =
    foldl (\<lambda>dst name. header_add ''Trailer'' name dst)
      (copy_headers dst (remove_hop_headers (rs_header resp))) (map fst (rs_trailer resp))"

definition copy_response_trailers :: "headers \<Rightarrow> response \<Rightarrow> headers" where
  "copy_response_trailers dst resp = foldl (\<lambda>dst (name, vals). obj_set name vals dst) dst (rs_trailer resp)"

text \<open>The header block of an HTTP/1.1 response that is streamed in chunks.\<close>

definition http1_streaming_head :: "response \<Rightarrow> int \<times> headers" where
  "http1_streaming_head resp =
    (let header = header_set ''Transfer-Encoding'' ''chunked''
           (header_del ''Content-Length'' (remove_hop_headers (rs_header resp)));
         header = (if rs_close resp then header_set ''Connection'' ''close'' header else header) in
     (rs_code resp, foldl (\<lambda>header name. header_add ''Trailer'' (canonical_key name) header) header
        (map fst (rs_trailer resp))))"

subsection \<open>The body\<close>

record stream_codecs =
  sc_gzip_reader :: "stream \<Rightarrow> (string, stream) result"
  sc_zlib_reader :: "stream \<Rightarrow> (string, stream) result"
  sc_flate_reader :: "stream \<Rightarrow> stream"
  sc_brotli_reader :: "stream \<Rightarrow> stream"
  sc_zstd_reader :: "stream \<Rightarrow> (string, stream) result"
  sc_gzip_writer :: "string list \<Rightarrow> string \<Rightarrow> string"
  sc_zlib_writer :: "string list \<Rightarrow> string \<Rightarrow> string"
  sc_flate_writer :: "(string, string list \<Rightarrow> string \<Rightarrow> string) result"
  sc_brotli_writer :: "string list \<Rightarrow> string \<Rightarrow> string"
  sc_zstd_writer :: "(string, string list \<Rightarrow> string \<Rightarrow> string) result"

definition streaming_decoder :: "stream_codecs \<Rightarrow> stream \<Rightarrow> string \<Rightarrow> (string, stream \<times> bool) result" where
  "streaming_decoder c body encoding =
    (if encoding = ''identity'' then Inr (body, False)
     else if encoding = ''gzip'' then
       rbind (wrap_error (\<lambda>e. ''decode gzip stream: '' @ e) (sc_gzip_reader c body)) (\<lambda>r. Inr (r, False))
     else if encoding = ''deflate'' then
       (case sm_data body of
          b0 # b1 # _ \<Rightarrow>
            if code b0 mod 16 = 8 \<and> (code b0 * 256 + code b1) mod 31 = 0 then
              rbind (wrap_error (\<lambda>e. ''decode deflate stream: '' @ e) (sc_zlib_reader c body)) (\<lambda>r. Inr (r, False))
            else Inr (sc_flate_reader c body, True)
        | _ \<Rightarrow> Inl (''decode deflate stream: '' @ (case sm_error body of None \<Rightarrow> ''EOF'' | Some e \<Rightarrow> e)))
     else if encoding = ''br'' then Inr (sc_brotli_reader c body, False)
     else if encoding = ''zstd'' then
       rbind (wrap_error (\<lambda>e. ''decode zstd stream: '' @ e) (sc_zstd_reader c body)) (\<lambda>r. Inr (r, False))
     else Inl (''unsupported content encoding '' @ quote_text encoding))"

text \<open>The encoder: the bytes emitted when a record is written and flushed behind the given ones.\<close>

definition streaming_encoder :: "stream_codecs \<Rightarrow> string \<Rightarrow> bool
    \<Rightarrow> (string, string list \<Rightarrow> string \<Rightarrow> string) result" where
  "streaming_encoder c encoding raw_deflate =
    (if encoding = ''identity'' then Inr (\<lambda>_ r. r)
     else if encoding = ''gzip'' then Inr (sc_gzip_writer c)
     else if encoding = ''deflate'' then
       (if raw_deflate then wrap_error (\<lambda>e. ''encode deflate stream: '' @ e) (sc_flate_writer c)
        else Inr (sc_zlib_writer c))
     else if encoding = ''br'' then Inr (sc_brotli_writer c)
     else if encoding = ''zstd'' then wrap_error (\<lambda>e. ''encode zstd stream: '' @ e) (sc_zstd_writer c)
     else Inl (''unsupported content encoding '' @ quote_text encoding))"

text \<open>\<open>streamCapture.add\<close> and \<open>finish\<close>: the flow and the captured text.\<close>

definition capture_add :: "int \<Rightarrow> secret_broker option \<Rightarrow> string \<Rightarrow> flow \<times> string \<Rightarrow> flow \<times> string" where
  "capture_add limit broker transformed = (\<lambda>(item, kept).
    if tc_response_body (fl_capture item) = None then (item, kept)
    else
      let clean = sanitize_bytes broker transformed; remaining = max (limit - int (length kept)) 0 in
      if remaining < int (length clean)
      then (set_truncated True item, kept @ strip_invalid (take (nat remaining) clean))
      else (item, kept @ clean))"

definition capture_finish :: "flow \<times> string \<Rightarrow> flow" where
  "capture_finish = (\<lambda>(item, kept).
    with_capture (\<lambda>c. c\<lparr>tc_response_body := map_option (\<lambda>p. p\<lparr>pc_text := kept\<rparr>) (tc_response_body c)\<rparr>) item)"

text \<open>The loop over the records: the error, the records sent, and the flow with the captured text.\<close>

fun stream_loop :: "('o, 'z) handler_scheme \<Rightarrow> secret_broker option \<Rightarrow> string \<Rightarrow> string
    \<Rightarrow> (string list \<Rightarrow> string \<Rightarrow> string) \<Rightarrow> (string list \<Rightarrow> string \<Rightarrow> string option)
    \<Rightarrow> string list \<Rightarrow> string list \<Rightarrow> flow \<times> string \<Rightarrow> string option \<times> string list \<times> (flow \<times> string)" where
  "stream_loop h broker client host enc down [] sent (item, kept) = (None, sent, (item, kept))"
| "stream_loop h broker client host enc down (r # rs) sent (item, kept) =
    (let (transformed, names) = (case broker of None \<Rightarrow> (r, []) | Some b \<Rightarrow> sb_scrub b r client host);
         item = (case broker of None \<Rightarrow> item
           | Some b \<Rightarrow> item\<lparr>fl_response_secrets := merge_names [fl_response_secrets item, names]\<rparr>);
         captured = capture_add (capture_limit h) broker transformed (item, kept) in
     case down sent (enc sent transformed) of
       Some e \<Rightarrow> (Some e, sent, captured)
     | None \<Rightarrow> stream_loop h broker client host enc down rs (sent @ [transformed]) captured)"

text \<open>\<open>streamResponseBody\<close>: the error, the records sent and the flow. \<open>pulled\<close> is the number of
  decoded bytes read when the loop stops before the end of the stream, \<open>close_error\<close> the error
  of closing the encoder behind the records sent.\<close>

definition stream_response_body :: "('o, 'z) handler_scheme \<Rightarrow> stream_codecs \<Rightarrow> secret_broker option \<Rightarrow> response
    \<Rightarrow> string \<Rightarrow> bool \<Rightarrow> string \<Rightarrow> string \<Rightarrow> (string list \<Rightarrow> string \<Rightarrow> string option)
    \<Rightarrow> (string list \<Rightarrow> string option) \<Rightarrow> int \<Rightarrow> flow \<Rightarrow> flow \<times> string list \<times> string option" where
  "stream_response_body h c broker resp encoding sse client host down close_error pulled item =
    (case streaming_decoder c (rs_body resp) encoding of
       Inl e \<Rightarrow> (item, [], Some e)
     | Inr (decoded, raw_deflate) \<Rightarrow>
         (case streaming_encoder c encoding raw_deflate of
            Inl e \<Rightarrow> (item, [], Some e)
          | Inr enc \<Rightarrow>
              let (records, read_error) = read_records sse (mediation_limit h) decoded;
                  (write_error, sent, captured) =
                    stream_loop h broker client host enc down records [] (item, []);
                  item = capture_finish captured;
                  stopped = (if write_error \<noteq> None then write_error else read_error) in
              case stopped of
                Some e \<Rightarrow> (item\<lparr>fl_decoded := fl_decoded item + pulled\<rparr>, sent, Some e)
              | None \<Rightarrow> (item\<lparr>fl_decoded := fl_decoded item + int (length (sm_data decoded))\<rparr>, sent, close_error sent)))"


subsection \<open>The records of a stream\<close>

lemma read_record_eof: "read_record sse limit err acc d = Record_Eof \<Longrightarrow> acc = [] \<and> d = [] \<and> err = None"
proof (induction "length d" arbitrary: acc d rule: less_induct)
  case less
  obtain part how s where s: "read_slice d = (part, how, s)" by (cases "read_slice d")
  note d = read_slice_split [OF s]
  from less.prems s consider "how = Slice_End" "acc @ part = []" "err = None"
    | "how \<noteq> Slice_End" "read_record sse limit err (acc @ part) s = Record_Eof"
    by (subst (asm) read_record.simps) (auto simp: Let_def split: slice_end.splits if_splits option.splits)
  then show ?case
  proof cases
    case 1
    then show ?thesis using s by (auto simp: read_slice_def Let_def split: if_splits)
  next
    case 2
    from less.hyps [OF read_slice_progress [OF s 2(1)] 2(2)] d(1) read_slice_progress [OF s 2(1)]
    show ?thesis by simp
  qed
qed

text \<open>The records partition the body; each is within the limit.\<close>

lemma read_records_partition:
  "read_records sse limit s = (rs, e) \<Longrightarrow>
   (\<forall>r \<in> set rs. r \<noteq> [] \<and> int (length r) \<le> limit) \<and> prefix (concat rs) (sm_data s) \<and>
   (e = None \<longrightarrow> concat rs = sm_data s)"
proof (induction sse limit s arbitrary: rs rule: read_records.induct)
  case (1 sse limit s)
  show ?case
  proof (cases "read_record sse limit (sm_error s) [] (sm_data s)")
    case (Record r rest)
    obtain rs' where rs': "read_records sse limit (s\<lparr>sm_data := rest\<rparr>) = (rs', e)" "rs = r # rs'"
      using "1.prems" Record by (subst (asm) read_records.simps) (auto split: prod.splits)
    from "1.IH" [OF Record rs'(1)] read_record_split [OF Record] rs'(2) show ?thesis by auto
  next
    case Record_Eof
    from read_record_eof [OF this] show ?thesis using "1.prems" Record_Eof by (subst (asm) read_records.simps) auto
  next
    case (Record_Failed x)
    then show ?thesis using "1.prems" by (subst (asm) read_records.simps) auto
  qed
qed

text \<open>The lines of a text, each with its newline.\<close>

definition first_line :: "string \<Rightarrow> string" where
  "first_line d = (let line = takeWhile (\<lambda>c. c \<noteq> newline) d in take (Suc (length line)) d)"

function text_lines :: "string \<Rightarrow> string list" where
  "text_lines d = (if d = [] then [] else first_line d # text_lines (drop (length (first_line d)) d))"
  by pat_completeness auto
termination by (relation "measure length") (auto simp: first_line_def)

declare text_lines.simps [simp del]

lemma read_record_line:
  assumes "d \<noteq> [] \<or> acc \<noteq> []" and "int (length (acc @ first_line d)) \<le> limit"
  shows "read_record False limit None acc d = Record (acc @ first_line d) (drop (length (first_line d)) d)"
  using assms
proof (induction "length d" arbitrary: acc d rule: less_induct)
  case less
  let ?line = "takeWhile (\<lambda>c. c \<noteq> newline) d"
  have len: "length ?line \<le> length d" by (rule length_takeWhile_le)
  note split = line_split [of "\<lambda>c. c \<noteq> newline" d]
  consider (line) "length ?line < stream_buffer" "length ?line < length d"
    | (full) "stream_buffer \<le> length ?line"
    | (stop) "length ?line < stream_buffer" "length ?line = length d" using len by linarith
  then show ?case
  proof cases
    case line
    have "first_line d = take (length ?line) d @ [d ! length ?line]"
      unfolding first_line_def Let_def by (rule take_Suc_conv_app_nth [OF line(2)])
    also have "... = ?line @ [newline]" using split(2) [OF line(2)] by (simp add: takeWhile_eq_take [symmetric])
    finally have "first_line d = ?line @ [newline]" .
    then show ?thesis using line less.prems(2)
      by (subst read_record.simps) (simp add: read_slice_def Let_def)
  next
    case full
    then have s: "read_slice d = (take stream_buffer d, Slice_Full, drop stream_buffer d)" "stream_buffer \<le> length d"
      using len by (simp_all add: read_slice_def Let_def)
    have all: "\<forall>c \<in> set (take stream_buffer d). c \<noteq> newline"
    proof -
      have "take stream_buffer d = take stream_buffer ?line"
        using full by (subst takeWhile_eq_take) (simp add: min_absorb1)
      then show ?thesis by (metis in_set_takeD set_takeWhileD)
    qed
    have "?line = take stream_buffer d @ takeWhile (\<lambda>c. c \<noteq> newline) (drop stream_buffer d)"
      using takeWhile_append2 [of "take stream_buffer d" "\<lambda>c. c \<noteq> newline" "drop stream_buffer d"] all by simp
    then have "length ?line = stream_buffer + length (takeWhile (\<lambda>c. c \<noteq> newline) (drop stream_buffer d))"
      using s(2) by (metis length_append length_take min.absorb2)
    then have f: "first_line d = take stream_buffer d @ first_line (drop stream_buffer d)"
      by (simp add: first_line_def take_add [symmetric])
    have "length (drop stream_buffer d) < length d" "take stream_buffer d \<noteq> []"
      using s(2) by (auto simp: stream_buffer_def)
    with less.hyps [of "drop stream_buffer d" "acc @ take stream_buffer d"] less.prems(2) f
    have "read_record False limit None (acc @ take stream_buffer d) (drop stream_buffer d) =
        Record (acc @ first_line d) (drop (length (first_line (drop stream_buffer d))) (drop stream_buffer d))"
      by simp
    moreover have "int (length (acc @ take stream_buffer d)) \<le> limit" using less.prems(2) f by simp
    ultimately show ?thesis using s f by (subst read_record.simps) (simp add: add.commute)
  next
    case stop
    then have "first_line d = d" by (simp add: first_line_def)
    then show ?thesis using stop less.prems
      by (subst read_record.simps) (auto simp: read_slice_def Let_def)
  qed
qed


lemma read_records_lines:
  assumes "\<forall>l \<in> set (text_lines d). int (length l) \<le> limit" and "0 \<le> limit"
  shows "read_records False limit \<lparr>sm_data = d, sm_error = None\<rparr> = (text_lines d, None)"
  using assms(1)
proof (induction d rule: text_lines.induct)
  case (1 d)
  show ?case
  proof (cases "d = []")
    case True
    then show ?thesis using assms(2)
      by (subst read_records.simps, subst read_record.simps)
        (simp add: read_slice_def stream_buffer_def text_lines.simps [of "[]"])
  next
    case False
    then have l: "text_lines d = first_line d # text_lines (drop (length (first_line d)) d)"
      by (subst text_lines.simps) simp
    have "read_record False limit None [] d = Record (first_line d) (drop (length (first_line d)) d)"
      using read_record_line [of d "[]" limit] False "1.prems" l by simp
    with "1.IH" [OF False] "1.prems" l show ?thesis by (subst read_records.simps) simp
  qed
qed

lemma concat_text_lines [simp]: "concat (text_lines d) = d"
proof (induction d rule: text_lines.induct)
  case (1 d)
  have "first_line d = take (length (first_line d)) d" by (simp add: first_line_def min_def)
  with 1 show ?case by (subst text_lines.simps) (metis append_take_drop_id concat.simps(1,2))
qed

text \<open>A body of JSON lines is cut at the newlines and nowhere else, however long its lines are
  compared with the buffer of the reader: if every line is within the mediation limit, the records
  are exactly the lines, each with its newline, and their concatenation is the body.\<close>

theorem stream_lines_exact:
  assumes "\<forall>l \<in> set (text_lines d). int (length l) \<le> mediation_limit h"
  shows "read_records False (mediation_limit h) (bytes_stream d) = (text_lines d, None) \<and>
    concat (text_lines d) = d"
  using read_records_lines [OF assms] by (simp add: bytes_stream_def mediation_limit_def)

theorem stream_lines_exact_witness:
  "read_records False (mediation_limit tiny_handler) (bytes_stream [CHR ''a'', newline, newline, CHR ''b'']) =
     ([[CHR ''a'', newline], [newline], [CHR ''b'']], None)"
proof -
  have "text_lines [CHR ''a'', newline, newline, CHR ''b''] = [[CHR ''a'', newline], [newline], [CHR ''b'']]"
    by (simp add: text_lines.simps first_line_def)
  then show ?thesis using stream_lines_exact [of "[CHR ''a'', newline, newline, CHR ''b'']" tiny_handler]
    by (simp add: mediation_limit_def tiny_handler_def)
qed

text \<open>Of an event stream the same does not hold: the check for the blank line that ends an event
  looks at the last part read only. A line that fills the buffer exactly leaves its newline alone in
  the next part, and the event ends in the middle.\<close>

theorem event_split_at_full_buffer:
  assumes "length line = stream_buffer" and "newline \<notin> set line" and "int (Suc stream_buffer) \<le> limit"
  shows "read_record True limit err [] (line @ newline # rest) = Record (line @ [newline]) rest"
proof -
  have full: "read_slice (line @ newline # rest) = (line, Slice_Full, newline # rest)"
  proof -
    have "takeWhile (\<lambda>c. c \<noteq> newline) (line @ newline # rest) = line"
      using assms(2) by (subst takeWhile_append2) auto
    then show ?thesis using assms(1) by (simp add: read_slice_def)
  qed
  have "read_slice (newline # rest) = ([newline], Slice_Line, rest)"
    by (simp add: read_slice_def stream_buffer_def)
  then have "read_record True limit err line (newline # rest) = Record (line @ [newline]) rest"
    using assms(1,3) by (subst read_record.simps) (simp add: trim_suffix_def)
  then show ?thesis using full assms(1,3) by (subst read_record.simps) simp
qed

theorem event_split_at_full_buffer_witness:
  "read_record True 40000 None [] (replicate 32768 (CHR ''x'') @ newline # ''id: 1'') =
     Record (replicate 32768 (CHR ''x'') @ [newline]) ''id: 1''"
  by (rule event_split_at_full_buffer) (simp_all add: stream_buffer_def)

subsection \<open>What is sent\<close>

definition scrubbed :: "secret_broker option \<Rightarrow> string \<Rightarrow> string \<Rightarrow> string \<Rightarrow> string" where
  "scrubbed broker client host r = (case broker of None \<Rightarrow> r | Some b \<Rightarrow> fst (sb_scrub b r client host))"

definition capture_ok :: "int \<Rightarrow> flow \<times> string \<Rightarrow> bool" where
  "capture_ok limit st \<longleftrightarrow> int (length (snd st)) \<le> max limit 0"

lemma strip_invalid_length: "length (strip_invalid s) \<le> length s"
proof (induction s rule: strip_invalid.induct)
  case (1 s)
  then show ?case by (subst strip_invalid.simps) (auto intro: le_trans)
qed

lemma capture_add_ok: "capture_ok limit st \<Longrightarrow> capture_ok limit (capture_add limit broker r st)"
proof -
  assume ok: "capture_ok limit st"
  obtain item kept where st: "st = (item, kept)" by (cases st)
  define n where "n = max (limit - int (length kept)) 0"
  define clean where "clean = sanitize_bytes broker r"
  have "int (length (strip_invalid (take (nat n) clean))) \<le> n"
  proof -
    have "0 \<le> n" "length (strip_invalid (take (nat n) clean)) \<le> nat n"
      using strip_invalid_length [of "take (nat n) clean"] by (simp_all add: n_def)
    then show ?thesis by linarith
  qed
  moreover have "int (length kept) + n \<le> max limit 0" using ok by (auto simp: n_def st capture_ok_def)
  ultimately show ?thesis using ok
    by (auto simp: st capture_add_def capture_ok_def Let_def n_def [symmetric] clean_def [symmetric])
qed

lemma capture_add_secrets [simp]:
  "fl_response_secrets (fst (capture_add limit broker r (item, kept))) = fl_response_secrets item"
  by (simp add: capture_add_def Let_def set_truncated_def)

lemma stream_loop_spec:
  assumes "stream_loop h broker client host enc down rs sent (item, kept) = (e, sent', captured)"
    and "capture_ok limit (item, kept)" and "limit = capture_limit h"
  shows "\<exists>k. sent' = sent @ map (scrubbed broker client host) (take k rs) \<and> (e = None \<longrightarrow> take k rs = rs) \<and>
    capture_ok limit captured \<and>
    set (fl_response_secrets item) \<subseteq> set (fl_response_secrets (fst captured)) \<and>
    (\<forall>b. broker = Some b \<longrightarrow> (\<forall>r \<in> set (take k rs). set (snd (sb_scrub b r client host)) \<subseteq> set (fl_response_secrets (fst captured))))"
  using assms(1,2)
proof (induction rs arbitrary: sent item kept)
  case Nil
  then show ?case by auto
next
  case (Cons r rs)
  define names where "names = (case broker of None \<Rightarrow> [] | Some b \<Rightarrow> snd (sb_scrub b r client host))"
  define item1 where "item1 = (case broker of None \<Rightarrow> item
    | Some b \<Rightarrow> item\<lparr>fl_response_secrets := merge_names [fl_response_secrets item, names]\<rparr>)"
  obtain item2 kept2 where c: "capture_add limit broker (scrubbed broker client host r) (item1, kept) = (item2, kept2)"
    by (cases "capture_add limit broker (scrubbed broker client host r) (item1, kept)")
  have secrets: "fl_response_secrets item2 = fl_response_secrets item1"
    using capture_add_secrets [of limit broker "scrubbed broker client host r" item1 kept] c by simp
  have item1: "set (fl_response_secrets item1) = set (fl_response_secrets item) \<union> set names"
    by (simp add: item1_def names_def split: option.split)
  have ok: "capture_ok limit (item2, kept2)"
    using capture_add_ok [of limit "(item1, kept)" broker "scrubbed broker client host r"] Cons.prems(2) c
    by (simp add: capture_ok_def)
  have step: "stream_loop h broker client host enc down (r # rs) sent (item, kept) =
    (case down sent (enc sent (scrubbed broker client host r)) of Some e \<Rightarrow> (Some e, sent, (item2, kept2))
     | None \<Rightarrow> stream_loop h broker client host enc down rs (sent @ [scrubbed broker client host r]) (item2, kept2))"
  proof (cases broker)
    case None
    then show ?thesis using c assms(3) by (simp add: scrubbed_def names_def item1_def split: option.split)
  next
    case (Some b)
    then show ?thesis using c assms(3)
      by (cases "sb_scrub b r client host") (simp add: scrubbed_def names_def item1_def split: option.split)
  qed
  show ?case
  proof (cases "down sent (enc sent (scrubbed broker client host r))")
    case (Some e1)
    then show ?thesis using Cons.prems step secrets item1 ok by (intro exI [of _ 0]) auto
  next
    case None
    then have "stream_loop h broker client host enc down rs (sent @ [scrubbed broker client host r]) (item2, kept2) =
        (e, sent', captured)" using Cons.prems(1) step by simp
    from Cons.IH [OF this ok] obtain k where k:
      "sent' = (sent @ [scrubbed broker client host r]) @ map (scrubbed broker client host) (take k rs)"
      "e = None \<longrightarrow> take k rs = rs" "capture_ok limit captured"
      "set (fl_response_secrets item2) \<subseteq> set (fl_response_secrets (fst captured))"
      "\<forall>b. broker = Some b \<longrightarrow> (\<forall>r \<in> set (take k rs). set (snd (sb_scrub b r client host)) \<subseteq> set (fl_response_secrets (fst captured)))"
      by blast
    then show ?thesis using secrets item1
      by (intro exI [of _ "Suc k"]) (auto simp: names_def)
  qed
qed


lemma scrubbed_quiet:
  assumes "mediating_broker b" and "snd (sb_scrub b r client host) = []"
  shows "fst (sb_scrub b r client host) = r"
  using mediating_broker.scrub_quiet [OF assms(1), of r client host "fst (sb_scrub b r client host)"] assms(2)
  by (metis prod.collapse)

text \<open>C22. A streamed response that ends without an error delivered all of its body, record by record:
  the records sent are the scrubbed records of the decoded body, in order, none left out, and each
  within the mediation limit. The captured text stays within the capture limit. If no broker reports
  a secret, what was sent is the decoded body itself.\<close>

theorem stream_delivers:
  assumes "stream_response_body h c broker resp encoding sse client host down close_error pulled item = (item', sent, None)"
    and "\<forall>b. broker = Some b \<longrightarrow> mediating_broker b"
  shows "\<exists>decoded raw rs. streaming_decoder c (rs_body resp) encoding = Inr (decoded, raw) \<and>
    sent = map (scrubbed broker client host) rs \<and> concat rs = sm_data decoded \<and>
    (\<forall>r \<in> set rs. r \<noteq> [] \<and> int (length r) \<le> mediation_limit h) \<and>
    (\<forall>p. tc_response_body (fl_capture item') = Some p \<longrightarrow> int (length (pc_text p)) \<le> capture_limit h) \<and>
    (fl_response_secrets item' = [] \<longrightarrow> concat sent = sm_data decoded)"
proof -
  obtain decoded raw enc where d: "streaming_decoder c (rs_body resp) encoding = Inr (decoded, raw)"
    and en: "streaming_encoder c encoding raw = Inr enc"
    using assms(1) by (auto simp: stream_response_body_def split: sum.splits)
  obtain rs re where rs: "read_records sse (mediation_limit h) decoded = (rs, re)"
    by (cases "read_records sse (mediation_limit h) decoded")
  obtain we sent0 captured where lp: "stream_loop h broker client host enc down rs [] (item, []) = (we, sent0, captured)"
    by (cases "stream_loop h broker client host enc down rs [] (item, [])") auto
  have n: "we = None" "re = None" "sent = sent0"
    and item': "item' = (capture_finish captured)\<lparr>fl_decoded := fl_decoded (capture_finish captured) + int (length (sm_data decoded))\<rparr>"
    using assms(1) d en rs lp by (auto simp: stream_response_body_def Let_def split: option.splits if_splits)
  have lim: "0 < capture_limit h" by (simp add: capture_limit_def)
  then have ok0: "capture_ok (capture_limit h) (item, [])" by (simp add: capture_ok_def)
  from stream_loop_spec [OF lp ok0 refl] obtain k where k: "sent0 = [] @ map (scrubbed broker client host) (take k rs)"
    "we = None \<longrightarrow> take k rs = rs" "capture_ok (capture_limit h) captured"
    "\<forall>b. broker = Some b \<longrightarrow> (\<forall>r \<in> set (take k rs). set (snd (sb_scrub b r client host)) \<subseteq> set (fl_response_secrets (fst captured)))"
    by blast
  with n have l: "sent = map (scrubbed broker client host) rs" "capture_ok (capture_limit h) captured"
    "\<forall>b. broker = Some b \<longrightarrow> (\<forall>r \<in> set rs. set (snd (sb_scrub b r client host)) \<subseteq> set (fl_response_secrets (fst captured)))"
    by simp_all
  have kept: "fl_response_secrets item' = fl_response_secrets (fst captured)"
    "\<And>p. tc_response_body (fl_capture item') = Some p \<Longrightarrow> pc_text p = snd captured"
    by (auto simp: item' capture_finish_def split: prod.splits)
  have quiet: "map (scrubbed broker client host) rs = rs" if "fl_response_secrets item' = []"
  proof (cases broker)
    case (Some b)
    with that l(3) kept(1) assms(2) show ?thesis by (auto simp: scrubbed_def scrubbed_quiet intro!: map_idI)
  qed (simp add: scrubbed_def map_idI)
  from read_records_partition [OF rs] n have "concat rs = sm_data decoded"
    "\<forall>r \<in> set rs. r \<noteq> [] \<and> int (length r) \<le> mediation_limit h" by auto
  moreover have "\<forall>p. tc_response_body (fl_capture item') = Some p \<longrightarrow> int (length (pc_text p)) \<le> capture_limit h"
    using kept(2) l(2) lim by (auto simp: capture_ok_def)
  ultimately show ?thesis using d l(1) quiet by (intro exI [of _ decoded] exI [of _ raw] exI [of _ rs]) simp
qed

definition plain_stream_codecs :: stream_codecs where
  "plain_stream_codecs = \<lparr>sc_gzip_reader = Inr, sc_zlib_reader = Inr, sc_flate_reader = id, sc_brotli_reader = id,
     sc_zstd_reader = Inr, sc_gzip_writer = (\<lambda>_ r. r), sc_zlib_writer = (\<lambda>_ r. r),
     sc_flate_writer = Inr (\<lambda>_ r. r), sc_brotli_writer = (\<lambda>_ r. r), sc_zstd_writer = Inr (\<lambda>_ r. r)\<rparr>"

definition tiny_response :: response where
  "tiny_response = \<lparr>rs_code = 200, rs_status = ''200 OK'', rs_header = [], rs_trailer = [],
     rs_body = bytes_stream [CHR ''a'', newline], rs_length = -1, rs_transfer = [], rs_major = 1, rs_minor = 1,
     rs_close = False, rs_request = None\<rparr>"

theorem stream_delivers_witness:
  "\<exists>item. stream_response_body tiny_handler plain_stream_codecs None tiny_response ''identity'' False ''c'' ''h''
       (\<lambda>_ _. None) (\<lambda>_. None) 0 empty_flow = (item, [[CHR ''a'', newline]], None) \<and>
     concat [[CHR ''a'', newline]] = sm_data (rs_body tiny_response)"
proof -
  let ?run = "stream_response_body tiny_handler plain_stream_codecs None tiny_response ''identity'' False ''c'' ''h''
       (\<lambda>_ _. None) (\<lambda>_. None) 0 empty_flow"
  have rr: "read_records False (mediation_limit tiny_handler) (bytes_stream [CHR ''a'', newline]) = ([[CHR ''a'', newline]], None)"
    by (simp add: read_records.simps read_record.simps read_slice_def stream_buffer_def bytes_stream_def
      mediation_limit_def tiny_handler_def)
  have cap: "capture_add (capture_limit tiny_handler) None r (empty_flow, []) = (empty_flow, [])" for r
    by (simp add: capture_add_def empty_flow_def empty_capture_def)
  have "\<exists>item. ?run = (item, [[CHR ''a'', newline]], None)"
    by (simp add: stream_response_body_def streaming_decoder_def streaming_encoder_def tiny_response_def rr cap Let_def)
  then obtain item where run: "?run = (item, [[CHR ''a'', newline]], None)" by blast
  from stream_delivers [OF run] have "concat [[CHR ''a'', newline]] = sm_data (rs_body tiny_response)"
    by (auto simp: streaming_decoder_def scrubbed_def tiny_response_def bytes_stream_def)
  with run show ?thesis by blast
qed


text \<open>The captured text need not be a prefix of what was sent: a record that is cut inside a rune
  leaves room, and a shorter record behind it is appended. Here \<open>ab\<close>, a record that starts
  with a rune of two bytes, and \<open>c\<close> are captured as \<open>abc\<close>.\<close>

lemma capture_text_gap:
  assumes "tc_response_body (fl_capture item) = Some p"
  shows "snd (capture_add 3 None ''c'' (capture_add 3 None [CHR 0xC3, CHR 0xA9, newline]
    (capture_add 3 None ''ab'' (item, [])))) = ''abc''"
proof -
  have "strip_invalid [CHR 0xC3] = []" by (simp add: strip_invalid.simps evaluate)
  with assms show ?thesis by (simp add: capture_add_def sanitize_bytes_def set_truncated_def)
qed

end
