(* ===== verification/Web_Socket.thy ===== *)
theory Web_Socket
  imports Request_Policy
begin

text \<open>
  WebSocket frames, messages and their mediation (\<open>internal/proxy/websocket.go\<close>): reading and
  writing of frames with masks and extended lengths, the relay of one direction with its reassembly
  of fragments, its checks and the bounded capture that both directions share, and the headers of
  the handshake. The compression \<open>flate\<close>, the digest of binary messages and the random masks are
  arguments. The reader is a stream, an endpoint that is written to shows the bytes of each frame.
\<close>

datatype ws_error = Ws_Eof | Ws_Closed | Ws_Limit | Ws_Error string

record ws_frame =
  wf_fin :: bool
  wf_compressed :: bool
  wf_opcode :: nat
  wf_payload :: string

abbreviation ws_continuation :: nat where "ws_continuation \<equiv> 0"
abbreviation ws_text :: nat where "ws_text \<equiv> 1"
abbreviation ws_binary :: nat where "ws_binary \<equiv> 2"
abbreviation ws_close :: nat where "ws_close \<equiv> 8"
abbreviation ws_ping :: nat where "ws_ping \<equiv> 9"
abbreviation ws_pong :: nat where "ws_pong \<equiv> 10"

subsection \<open>Bytes\<close>

text \<open>Big-endian numbers of \<open>k\<close> bytes.\<close>

fun be_bytes :: "nat \<Rightarrow> nat \<Rightarrow> string" where
  "be_bytes 0 n = []"
| "be_bytes (Suc k) n = be_bytes k (n div 256) @ [char_of (n mod 256)]"

definition be_value :: "string \<Rightarrow> nat" where
  "be_value s = foldl (\<lambda>n c. n * 256 + code c) 0 s"

lemma length_be_bytes [simp]: "length (be_bytes k n) = k"
  by (induction k arbitrary: n) auto

lemma be_value_bytes: "be_value (be_bytes k n) = n mod 256 ^ k"
proof (induction k arbitrary: n)
  case (Suc k)
  have "be_value (be_bytes (Suc k) n) = (n div 256) mod 256 ^ k * 256 + n mod 256"
    using Suc by (simp add: be_value_def)
  also have "... = n mod 256 ^ Suc k" by (simp add: mod_mult2_eq)
  finally show ?case .
qed (simp add: be_value_def)

text \<open>Masking with the four bytes of a key.\<close>

definition mask_bytes :: "string \<Rightarrow> string \<Rightarrow> string" where
  "mask_bytes key s = map (\<lambda>i. char_of (xor (code (s ! i)) (code (key ! (i mod 4))))) [0..<length s]"

lemma xor_byte: "xor (code a) (code b) mod 256 = xor (code a) (code b)"
proof -
  have "take_bit 8 (xor (code a) (code b)) = xor (take_bit 8 (code a)) (take_bit 8 (code b))"
    by (rule take_bit_xor)
  also have "... = xor (code a) (code b)" by (simp add: take_bit_nat_eq_self)
  finally show ?thesis by (simp add: take_bit_eq_mod)
qed

lemma mask_bytes_involution: "mask_bytes key (mask_bytes key s) = s"
  by (rule nth_equalityI) (simp_all add: mask_bytes_def xor_byte xor.assoc)

lemma length_mask_bytes [simp]: "length (mask_bytes key s) = length s"
  by (simp add: mask_bytes_def)

subsection \<open>Reading a frame\<close>

definition read_full :: "nat \<Rightarrow> stream \<Rightarrow> (ws_error, string \<times> stream) result" where
  "read_full n s =
    (if n \<le> length (sm_data s) then Inr (take n (sm_data s), s\<lparr>sm_data := drop n (sm_data s)\<rparr>)
     else Inl (case sm_error s of Some e \<Rightarrow> Ws_Error e
       | None \<Rightarrow> if sm_data s = [] then Ws_Eof else Ws_Error ''unexpected EOF''))"

text \<open>The length of the payload behind the seven bits of the header.\<close>

definition read_length :: "nat \<Rightarrow> stream \<Rightarrow> (ws_error, nat \<times> stream) result" where
  "read_length l s =
    (if l = 126 then rbind (read_full 2 s) (\<lambda>(ext, s).
       rbind (require (126 \<le> be_value ext) (Ws_Error ''non-canonical WebSocket frame length'')) (\<lambda>_.
         Inr (be_value ext, s)))
     else if l = 127 then rbind (read_full 8 s) (\<lambda>(ext, s).
       rbind (require (65536 \<le> be_value ext \<and> be_value ext < 2 ^ 63) (Ws_Error ''invalid WebSocket frame length'')) (\<lambda>_.
         Inr (be_value ext, s)))
     else Inr (l, s))"

definition read_frame :: "bool \<Rightarrow> int \<Rightarrow> stream \<Rightarrow> (ws_error, ws_frame \<times> stream) result" where
  "read_frame expect_mask limit s =
    rbind (read_full 2 s) (\<lambda>(header, s).
    let b0 = code (header ! 0); b1 = code (header ! 1);
        fin = bit b0 7; compressed = bit b0 6; opc = b0 mod 16 in
    rbind (require (\<not> bit b0 5 \<and> \<not> bit b0 4) (Ws_Error ''unsupported WebSocket reserved bits'')) (\<lambda>_.
    rbind (require (\<not> (compressed \<and> (opc = ws_continuation \<or> ws_close \<le> opc)))
      (Ws_Error ''invalid compressed WebSocket frame'')) (\<lambda>_.
    let masked = bit b1 7 in
    rbind (require (masked = expect_mask) (Ws_Error ''invalid WebSocket masking direction'')) (\<lambda>_.
    rbind (read_length (b1 mod 128) s) (\<lambda>(len, s).
    rbind (require (\<not> (ws_close \<le> opc \<and> (\<not> fin \<or> 125 < len)))
      (Ws_Error ''invalid fragmented WebSocket control frame'')) (\<lambda>_.
    rbind (require (int len \<le> limit) Ws_Limit) (\<lambda>_.
    rbind (if masked then read_full 4 s else Inr ([], s)) (\<lambda>(key, s).
    rbind (read_full len s) (\<lambda>(payload, s).
    let payload = (if masked then mask_bytes key payload else payload) in
    rbind (require (\<not> (opc = ws_close \<and> (length payload = 1 \<or> 2 < length payload \<and> \<not> valid_utf8 (drop 2 payload))))
      (Ws_Error ''invalid WebSocket close payload'')) (\<lambda>_.
      Inr (\<lparr>wf_fin = fin, wf_compressed = compressed, wf_opcode = opc, wf_payload = payload\<rparr>, s)))))))))))"

subsection \<open>Compression of messages\<close>

definition flate_trailer :: string where
  "flate_trailer = [CHR 0x00, CHR 0x00, CHR 0xFF, CHR 0xFF]"

definition compress_message :: "(string \<Rightarrow> (ws_error, string) result) \<Rightarrow> string \<Rightarrow> (ws_error, string) result" where
  "compress_message deflate m = rbind (deflate m) (\<lambda>out.
    if length out < 4 \<or> drop (length out - 4) out \<noteq> flate_trailer
    then Inl (Ws_Error ''invalid WebSocket compression trailer'') else Inr (take (length out - 4) out))"

definition decompress_message :: "(string \<Rightarrow> stream) \<Rightarrow> int \<Rightarrow> string \<Rightarrow> (ws_error, string) result" where
  "decompress_message inflate limit m =
    (let r = inflate (m @ flate_trailer @ [CHR 0x03, CHR 0x00]) in
     if limit < int (length (sm_data r)) then Inl Ws_Limit
     else (case sm_error r of Some e \<Rightarrow> Inl (Ws_Error (''decompress WebSocket message: '' @ e))
       | None \<Rightarrow> Inr (sm_data r)))"

subsection \<open>Writing a frame\<close>

definition write_length :: "nat \<Rightarrow> nat \<times> string" where
  "write_length n = (if n < 126 then (n, []) else if n \<le> 65535 then (126, be_bytes 2 n) else (127, be_bytes 8 n))"

definition wire_payload :: "(string \<Rightarrow> (ws_error, string) result) \<Rightarrow> ws_frame \<Rightarrow> (ws_error, string) result" where
  "wire_payload deflate f =
    (if wf_compressed f then
       rbind (require (\<not> (wf_opcode f = ws_continuation \<or> ws_close \<le> wf_opcode f))
         (Ws_Error ''invalid compressed WebSocket frame'')) (\<lambda>_. compress_message deflate (wf_payload f))
     else Inr (wf_payload f))"

text \<open>\<open>wsEndpoint.write\<close>: the bytes of a frame; \<open>key\<close> is the random mask of an endpoint that
  masks.\<close>

definition write_frame :: "(string \<Rightarrow> (ws_error, string) result) \<Rightarrow> string option \<Rightarrow> ws_frame \<Rightarrow> (ws_error, string) result" where
  "write_frame deflate key f = rbind (wire_payload deflate f) (\<lambda>payload.
    let b0 = wf_opcode f + (if wf_compressed f then 64 else 0) + (if wf_fin f then 128 else 0);
        (l, ext) = write_length (length payload) in
    Inr (case key of
        None \<Rightarrow> [char_of b0, char_of l] @ ext @ payload
      | Some m \<Rightarrow> [char_of b0, char_of (l + 128)] @ ext @ m @ mask_bytes m payload))"

subsection \<open>Frames that survive the wire\<close>

lemma read_full_append [simp]:
  "length p = n \<Longrightarrow> read_full n \<lparr>sm_data = p @ rest, sm_error = err\<rparr> = Inr (p, \<lparr>sm_data = rest, sm_error = err\<rparr>)"
  by (auto simp: read_full_def)

lemma read_write_length:
  assumes "write_length n = (l, ext)" and "n < 2 ^ 63"
  shows "read_length l \<lparr>sm_data = ext @ rest, sm_error = err\<rparr> = Inr (n, \<lparr>sm_data = rest, sm_error = err\<rparr>)"
    and "l < 128"
proof -
  have "be_value (be_bytes 2 n) = n" if "n \<le> 65535" using that by (simp add: be_value_bytes)
  moreover have "be_value (be_bytes 8 n) = n" using assms(2) by (simp add: be_value_bytes)
  ultimately show "read_length l \<lparr>sm_data = ext @ rest, sm_error = err\<rparr> = Inr (n, \<lparr>sm_data = rest, sm_error = err\<rparr>)"
  proof -
    consider "l = n" "ext = []" "n < 126" | "l = 126" "ext = be_bytes 2 n" "126 \<le> n" "n \<le> 65535"
      | "l = 127" "ext = be_bytes 8 n" "65536 \<le> n"
      using assms(1) by (auto simp: write_length_def split: if_splits)
    then show ?thesis
      using \<open>n \<le> 65535 \<Longrightarrow> be_value (be_bytes 2 n) = n\<close> \<open>be_value (be_bytes 8 n) = n\<close> assms(2)
      by cases (simp_all add: read_length_def)
  qed
  show "l < 128" using assms(1) by (auto simp: write_length_def split: if_splits)
qed

definition frame_ok :: "int \<Rightarrow> ws_frame \<Rightarrow> bool" where
  "frame_ok limit f \<longleftrightarrow> wf_opcode f < 16 \<and> int (length (wf_payload f)) \<le> limit \<and> limit < 2 ^ 63 \<and>
     (wf_compressed f \<longrightarrow> 0 < wf_opcode f \<and> wf_opcode f < ws_close) \<and>
     (ws_close \<le> wf_opcode f \<longrightarrow> wf_fin f \<and> length (wf_payload f) \<le> 125) \<and>
     (wf_opcode f = ws_close \<longrightarrow> length (wf_payload f) \<noteq> 1 \<and>
       (2 < length (wf_payload f) \<longrightarrow> valid_utf8 (drop 2 (wf_payload f))))"

lemma header_bits:
  fixes opc :: nat and c f :: bool
  assumes "opc < 16"
  defines "b \<equiv> opc + (if c then 64 else 0) + (if f then 128 else 0)"
  shows "b < 256" "bit b 7 = f" "bit b 6 = c" "\<not> bit b 5" "\<not> bit b 4" "b mod 16 = opc"
proof -
  have opc: "opc div 16 = 0" "opc mod 16 = opc" using assms by simp_all
  have eq: "b = opc + 16 * (4 * of_bool c + 8 * of_bool f)" by (simp add: b_def)
  have gen: "(opc + 16 * k) div 16 = k" "(opc + 16 * k) mod 16 = opc" for k using assms(1) by simp_all
  have d: "b div 16 = 4 * of_bool c + 8 * of_bool f" "b mod 16 = opc" unfolding eq by (rule gen)+
  have shift: "bit b (4 + k) = bit (b div 16) k" for k by (simp add: bit_iff_odd power_add div_mult2_eq)
  show "b < 256" using assms by simp
  show "b mod 16 = opc" by (rule d(2))
  show "bit b 7 = f" "bit b 6 = c" "\<not> bit b 5" "\<not> bit b 4"
    using shift [of 3] shift [of 2] shift [of 1] shift [of 0] d(1) by (cases c; cases f; simp add: bit_iff_odd)+
qed

text \<open>C23. What one endpoint writes the other reads: a frame written with or without a mask is read
  back as the same frame with its payload as it is on the wire, and the bytes behind it are left,
  for every payload within the limit; lengths of all three encodings, masks and header bits are
  inverted exactly.\<close>

theorem frame_roundtrip:
  assumes "write_frame deflate key f = Inr bytes" and "wire_payload deflate f = Inr payload"
    and "frame_ok limit (f\<lparr>wf_payload := payload\<rparr>)" and "\<forall>m. key = Some m \<longrightarrow> length m = 4"
  shows "read_frame (key \<noteq> None) limit \<lparr>sm_data = bytes @ rest, sm_error = err\<rparr> =
    Inr (f\<lparr>wf_payload := payload\<rparr>, \<lparr>sm_data = rest, sm_error = err\<rparr>)"
proof -
  define b0 where "b0 = wf_opcode f + (if wf_compressed f then 64 else 0) + (if wf_fin f then 128 else 0)"
  obtain l ext where l: "write_length (length payload) = (l, ext)" by (cases "write_length (length payload)")
  have ok: "wf_opcode f < 16" "int (length payload) \<le> limit" "length payload < 2 ^ 63"
    "wf_compressed f \<longrightarrow> 0 < wf_opcode f \<and> \<not> ws_close \<le> wf_opcode f"
    "ws_close \<le> wf_opcode f \<longrightarrow> wf_fin f \<and> \<not> 125 < length payload"
    "wf_opcode f = ws_close \<longrightarrow> length payload \<noteq> 1 \<and> (2 < length payload \<longrightarrow> valid_utf8 (drop 2 payload))"
    using assms(3) by (auto simp: frame_ok_def)
  note b = header_bits [OF ok(1), of "wf_compressed f" "wf_fin f", folded b0_def]
  note len = read_write_length [OF l ok(3)]
  have c0: "code (char_of b0 :: char) = b0" using b(1) by simp
  have l128: "bit (l + 128) 7" "(l + 128) mod 128 = l" "\<not> bit l 7" "l mod 128 = l"
  proof -
    have "(l + 128) div 128 = Suc (l div 128)" "l div 128 = 0" using len(2) by simp_all
    then show "bit (l + 128) 7" "(l + 128) mod 128 = l" "\<not> bit l 7" "l mod 128 = l"
      using len(2) by (simp_all add: bit_iff_odd)
  qed
  have f: "\<lparr>wf_fin = wf_fin f, wf_compressed = wf_compressed f, wf_opcode = wf_opcode f, wf_payload = payload\<rparr> =
      f\<lparr>wf_payload := payload\<rparr>" by simp
  show ?thesis
  proof (cases key)
    case None
    then have bytes: "bytes = [char_of b0, char_of l] @ ext @ payload"
      using assms(1,2) l by (simp add: write_frame_def Let_def b0_def)
    have h: "read_full 2 \<lparr>sm_data = bytes @ rest, sm_error = err\<rparr> =
        Inr ([char_of b0, char_of l], \<lparr>sm_data = ext @ payload @ rest, sm_error = err\<rparr>)"
      by (simp add: bytes read_full_def)
    show ?thesis using ok len l128 b f None
      by (simp add: read_frame_def h c0 Let_def)
  next
    case (Some m)
    then have bytes: "bytes = [char_of b0, char_of (l + 128)] @ ext @ m @ mask_bytes m payload" and m: "length m = 4"
      using assms l by (simp_all add: write_frame_def Let_def b0_def)
    have h: "read_full 2 \<lparr>sm_data = bytes @ rest, sm_error = err\<rparr> =
        Inr ([char_of b0, char_of (l + 128)], \<lparr>sm_data = ext @ m @ mask_bytes m payload @ rest, sm_error = err\<rparr>)"
      by (simp add: bytes read_full_def)
    show ?thesis using ok len l128 b f Some m
      by (simp add: read_frame_def h c0 Let_def mask_bytes_involution)
  qed
qed


theorem frame_roundtrip_witness:
  "\<exists>bytes. write_frame Inr (Some [CHR 0x11, CHR 0x22, CHR 0x33, CHR 0x44])
       \<lparr>wf_fin = True, wf_compressed = False, wf_opcode = ws_text, wf_payload = ''hello''\<rparr> = Inr bytes \<and>
     read_frame True 100 \<lparr>sm_data = bytes @ ''rest'', sm_error = None\<rparr> =
       Inr (\<lparr>wf_fin = True, wf_compressed = False, wf_opcode = ws_text, wf_payload = ''hello''\<rparr>,
         \<lparr>sm_data = ''rest'', sm_error = None\<rparr>)"
proof -
  let ?m = "[CHR 0x11, CHR 0x22, CHR 0x33, CHR 0x44]"
  let ?f = "\<lparr>wf_fin = True, wf_compressed = False, wf_opcode = ws_text, wf_payload = ''hello''\<rparr>"
  have p: "wire_payload Inr ?f = Inr ''hello''" by (simp add: wire_payload_def)
  then obtain bytes where w: "write_frame Inr (Some ?m) ?f = Inr bytes"
    by (simp add: write_frame_def write_length_def)
  have ok: "frame_ok 100 (?f\<lparr>wf_payload := ''hello''\<rparr>)" by (simp add: frame_ok_def)
  from frame_roundtrip [OF w p ok, of "''rest''" None] w show ?thesis by simp
qed

subsection \<open>The capture of a session\<close>

text \<open>\<open>wsCapture\<close>, which both directions of a session share under its lock.\<close>

record ws_capture =
  wc_item :: flow
  wc_remaining :: int

definition add_message :: "secret_broker option \<Rightarrow> string list \<Rightarrow> string \<Rightarrow> string \<Rightarrow> ws_capture \<Rightarrow> ws_capture" where
  "add_message broker redactions direction message c =
    (let clean = sanitize_capture_bytes broker message redactions in
     if wc_remaining c < int (length clean) then c\<lparr>wc_item := set_truncated True (wc_item c)\<rparr>
     else c\<lparr>wc_remaining := wc_remaining c - int (length clean),
       wc_item := with_capture (\<lambda>t. t\<lparr>tc_messages := tc_messages t @ [\<lparr>wm_direction = direction, wm_kind = ''text'',
         wm_text = clean, wm_size = int (length message), wm_sha256 = []\<rparr>]\<rparr>) (wc_item c)\<rparr>)"

definition add_binary_message :: "(string \<Rightarrow> string) \<Rightarrow> string \<Rightarrow> string \<Rightarrow> ws_capture \<Rightarrow> ws_capture" where
  "add_binary_message digest direction message c =
    (if wc_remaining c < 128 then c\<lparr>wc_item := set_truncated True (wc_item c)\<rparr>
     else c\<lparr>wc_remaining := wc_remaining c - 128,
       wc_item := with_capture (\<lambda>t. t\<lparr>tc_messages := tc_messages t @ [\<lparr>wm_direction = direction, wm_kind = ''binary'',
         wm_text = [], wm_size = int (length message), wm_sha256 = digest message\<rparr>]\<rparr>) (wc_item c)\<rparr>)"

definition add_request_names :: "string list \<Rightarrow> ws_capture \<Rightarrow> ws_capture" where
  "add_request_names names c = c\<lparr>wc_item := (wc_item c)\<lparr>fl_secrets := merge_names [fl_secrets (wc_item c), names]\<rparr>\<rparr>"

definition add_response_names :: "string list \<Rightarrow> ws_capture \<Rightarrow> ws_capture" where
  "add_response_names names c =
    c\<lparr>wc_item := (wc_item c)\<lparr>fl_response_secrets := merge_names [fl_response_secrets (wc_item c), names]\<rparr>\<rparr>"

subsection \<open>The relay of one direction\<close>

text \<open>What a relay works with: the broker, the redactions of the capture, the mediation limit, the
  client and host, whether the endpoints compress, the decompression, and the digest in hexadecimal.\<close>

record ws_env =
  we_broker :: "secret_broker option"
  we_redactions :: "string list"
  we_limit :: int
  we_client :: string
  we_host :: string
  we_src_compression :: bool
  we_dst_compression :: bool
  we_inflate :: "string \<Rightarrow> stream"
  we_digest :: "string \<Rightarrow> string"

record ws_relay =
  rl_total :: int
  rl_message :: string
  rl_opcode :: nat
  rl_compressed :: bool
  rl_fragmented :: bool

definition ws_relay_start :: ws_relay where
  "ws_relay_start = \<lparr>rl_total = 0, rl_message = [], rl_opcode = 0, rl_compressed = False, rl_fragmented = False\<rparr>"

abbreviation upward :: string where "upward \<equiv> ''client-to-upstream''"
abbreviation downward :: string where "downward \<equiv> ''upstream-to-client''"

definition placeholder_names :: "ws_env \<Rightarrow> string \<Rightarrow> string list" where
  "placeholder_names e m = (case we_broker e of None \<Rightarrow> [] | Some b \<Rightarrow> sb_names_for b m (we_client e) (we_host e))"

definition scrub_message :: "ws_env \<Rightarrow> string \<Rightarrow> string \<times> string list" where
  "scrub_message e m = (case we_broker e of None \<Rightarrow> (m, []) | Some b \<Rightarrow> sb_scrub b m (we_client e) (we_host e))"

text \<open>The outcome of a frame: the capture, the frame to write, and the error that ends the relay.\<close>

type_synonym ws_outcome = "ws_capture \<times> ws_frame option \<times> ws_error option"

definition relay_control :: "ws_env \<Rightarrow> string \<Rightarrow> ws_frame \<Rightarrow> ws_capture \<Rightarrow> ws_outcome" where
  "relay_control e direction f c =
    (let names = (if direction = upward then placeholder_names e (wf_payload f) else []) in
     if names \<noteq> [] then (add_request_names names c, None,
       Some (Ws_Error (''secret placeholders are not allowed in WebSocket control frames: '' @ join_with '', '' names)))
     else
       let (payload, found) = (if direction = downward then scrub_message e (wf_payload f) else (wf_payload f, []));
           c = (if direction = downward \<and> we_broker e \<noteq> None then add_response_names found c else c) in
       if direction = downward \<and> we_broker e \<noteq> None \<and> 125 < length payload
         then (c, None, Some (Ws_Error ''scrubbed WebSocket control frame exceeds protocol limit''))
       else (c, Some \<lparr>wf_fin = True, wf_compressed = False, wf_opcode = wf_opcode f, wf_payload = payload\<rparr>,
         if wf_opcode f = ws_close then Some Ws_Closed else None))"

definition relay_binary :: "ws_env \<Rightarrow> string \<Rightarrow> string \<Rightarrow> ws_capture \<Rightarrow> ws_outcome" where
  "relay_binary e direction m c =
    (let names = (if direction = upward then placeholder_names e m else []);
         found = (if direction = downward then snd (scrub_message e m) else []) in
     if names \<noteq> [] then (add_binary_message (we_digest e) direction m (add_request_names names c), None,
       Some (Ws_Error (''secret placeholders are not allowed in binary WebSocket messages: '' @ join_with '', '' names)))
     else if found \<noteq> [] then (add_response_names found c, None,
       Some (Ws_Error ''binary WebSocket message contains configured secret material''))
     else (add_binary_message (we_digest e) direction m c,
       Some \<lparr>wf_fin = True, wf_compressed = we_dst_compression e, wf_opcode = ws_binary, wf_payload = m\<rparr>, None))"

definition transform_text :: "ws_env \<Rightarrow> string \<Rightarrow> string \<Rightarrow> ws_capture \<Rightarrow> (ws_error, string \<times> ws_capture) result" where
  "transform_text e direction m c = (case we_broker e of
     None \<Rightarrow> Inr (m, c)
   | Some b \<Rightarrow>
       if direction = upward then
         if sb_names_for b m (we_client e) (we_host e) = [] then Inr (m, c)
         else rbind (wrap_error Ws_Error (sb_json b m (we_client e) (we_host e)))
           (\<lambda>(m, names). Inr (m, add_request_names names c))
       else let (m, names) = sb_scrub b m (we_client e) (we_host e) in Inr (m, add_response_names names c))"

definition relay_text :: "ws_env \<Rightarrow> string \<Rightarrow> string \<Rightarrow> ws_capture \<Rightarrow> ws_outcome" where
  "relay_text e direction m c =
    (if \<not> valid_utf8 m then (c, None, Some (Ws_Error ''WebSocket text message is not valid UTF-8''))
     else case transform_text e direction m c of
       Inl err \<Rightarrow> (c, None, Some err)
     | Inr (m, c) \<Rightarrow>
         if we_limit e < int (length m) then (c, None, Some Ws_Limit)
         else (add_message (we_broker e) (we_redactions e) direction m c,
           Some \<lparr>wf_fin = True, wf_compressed = we_dst_compression e, wf_opcode = ws_text, wf_payload = m\<rparr>, None))"

definition relay_message :: "ws_env \<Rightarrow> string \<Rightarrow> ws_relay \<Rightarrow> ws_capture \<Rightarrow> ws_outcome" where
  "relay_message e direction st c =
    (case (if rl_compressed st then decompress_message (we_inflate e) (we_limit e) (rl_message st)
           else Inr (rl_message st)) of
       Inl err \<Rightarrow> (c, None, Some err)
     | Inr m \<Rightarrow> if rl_opcode st = ws_binary then relay_binary e direction m c else relay_text e direction m c)"

text \<open>A complete message is delivered, and its buffer emptied; a fragment waits for the next.\<close>

definition relay_data :: "ws_env \<Rightarrow> string \<Rightarrow> ws_relay \<Rightarrow> ws_capture \<Rightarrow> ws_relay \<times> ws_outcome" where
  "relay_data e direction st c =
    (if rl_fragmented st then (st, c, None, None)
     else case relay_message e direction st c of
       (c, out, Some err) \<Rightarrow> (st, c, out, Some err)
     | (c, out, None) \<Rightarrow> (st\<lparr>rl_message := []\<rparr>, c, out, None))"

definition relay_frame :: "ws_env \<Rightarrow> string \<Rightarrow> ws_frame \<Rightarrow> ws_relay \<Rightarrow> ws_capture \<Rightarrow> ws_relay \<times> ws_outcome" where
  "relay_frame e direction f st c =
    (let st = st\<lparr>rl_total := rl_total st + int (length (wf_payload f))\<rparr>; opc = wf_opcode f;
         stop = (\<lambda>text. (st, c, None, Some (Ws_Error text))) in
     if wf_compressed f \<and> \<not> we_src_compression e
       then stop ''compressed WebSocket frame without negotiated extension''
     else if opc = ws_text \<or> opc = ws_binary then
       if rl_fragmented st then stop ''new WebSocket data message before fragmented message completed''
       else relay_data e direction (st\<lparr>rl_opcode := opc, rl_compressed := wf_compressed f,
         rl_message := wf_payload f, rl_fragmented := \<not> wf_fin f\<rparr>) c
     else if opc = ws_continuation then
       if \<not> rl_fragmented st then stop ''unexpected WebSocket continuation frame''
       else if we_limit e < int (length (rl_message st) + length (wf_payload f)) then (st, c, None, Some Ws_Limit)
       else relay_data e direction (st\<lparr>rl_message := rl_message st @ wf_payload f, rl_fragmented := \<not> wf_fin f\<rparr>) c
     else if opc = ws_close \<or> opc = ws_ping \<or> opc = ws_pong then (st, relay_control e direction f c)
     else stop ''unsupported WebSocket opcode'')"


text \<open>\<open>relayWebSocket\<close>: the loop over the frames of a stream. \<open>down\<close> is the error, if any, of
  writing a frame behind those written, \<open>cancelled\<close> the error of the context after that many
  frames. The result is the error, the frames written, the state and the capture.\<close>

lemma read_full_rest: "read_full n s = Inr (p, s') \<Longrightarrow> length (sm_data s') = length (sm_data s) - n \<and> n \<le> length (sm_data s)"
  by (auto simp: read_full_def split: if_splits)

lemma read_length_rest: "read_length l s = Inr (n, s') \<Longrightarrow> length (sm_data s') \<le> length (sm_data s)"
  by (auto simp: read_length_def Let_def dest!: read_full_rest split: if_splits)

lemma read_frame_rest:
  assumes "read_frame m limit s = Inr (f, s')"
  shows "length (sm_data s') < length (sm_data s)"
proof -
  obtain header s1 where h: "read_full 2 s = Inr (header, s1)" using assms by (auto simp: read_frame_def)
  obtain n s2 where n: "read_length (code (header ! 1) mod 128) s1 = Inr (n, s2)"
    using assms h by (auto simp: read_frame_def Let_def)
  obtain k s3 where k: "(if bit (code (header ! 1)) 7 then read_full 4 s2 else Inr ([], s2)) = Inr (k, s3)"
    using assms h n by (auto simp: read_frame_def Let_def)
  obtain p s4 where p: "read_full n s3 = Inr (p, s4)" and "s' = s4"
    using assms h n k by (auto simp: read_frame_def Let_def)
  have "length (sm_data s1) < length (sm_data s)" using read_full_rest [OF h] by auto
  moreover have "length (sm_data s2) \<le> length (sm_data s1)" by (rule read_length_rest [OF n])
  moreover have "length (sm_data s3) \<le> length (sm_data s2)" using k by (auto dest: read_full_rest split: if_splits)
  moreover have "length (sm_data s') \<le> length (sm_data s3)" using read_full_rest [OF p] \<open>s' = s4\<close> by simp
  ultimately show ?thesis by linarith
qed

function relay_loop :: "ws_env \<Rightarrow> string \<Rightarrow> bool \<Rightarrow> (nat \<Rightarrow> string option) \<Rightarrow> (ws_frame list \<Rightarrow> ws_frame \<Rightarrow> ws_error option)
    \<Rightarrow> nat \<Rightarrow> ws_frame list \<Rightarrow> stream \<Rightarrow> ws_relay \<Rightarrow> ws_capture
    \<Rightarrow> ws_error \<times> ws_frame list \<times> ws_relay \<times> ws_capture" where
  "relay_loop e direction expect_mask cancelled down i sent s st c =
    (case cancelled i of Some err \<Rightarrow> (Ws_Error err, sent, st, c) | None \<Rightarrow>
     case read_frame expect_mask (we_limit e) s of
       Inl err \<Rightarrow> (err, sent, st, c)
     | Inr (f, s') \<Rightarrow>
         (case relay_frame e direction f st c of (st, c, out, stop) \<Rightarrow>
          case (case out of None \<Rightarrow> None | Some g \<Rightarrow> down sent g) of
            Some err \<Rightarrow> (err, sent, st, c)
          | None \<Rightarrow>
              let sent = sent @ (case out of None \<Rightarrow> [] | Some g \<Rightarrow> [g]) in
              (case stop of Some err \<Rightarrow> (err, sent, st, c)
               | None \<Rightarrow> relay_loop e direction expect_mask cancelled down (Suc i) sent s' st c)))"
  by pat_completeness auto
termination
  by (relation "measure (\<lambda>(_, _, _, _, _, _, _, s, _). length (sm_data s))") (auto dest: read_frame_rest)

declare relay_loop.simps [simp del]

subsection \<open>Sessions\<close>

text \<open>Both directions of a session and the capture they share. Each direction handles one frame at
  a time; the captures of the two touch different fields but for the messages and the budget, which
  a frame changes at most once, so that handling a frame is one step. The frames that arrive are
  arbitrary.\<close>

record ws_session =
  wx_up :: ws_relay
  wx_down :: ws_relay
  wx_capture :: ws_capture
  wx_to_upstream :: "ws_frame list"
  wx_to_client :: "ws_frame list"
  wx_up_open :: bool
  wx_down_open :: bool

inductive ws_step :: "ws_env \<Rightarrow> ws_session \<Rightarrow> ws_session \<Rightarrow> bool" for e where
  client_frame: "wx_up_open x \<Longrightarrow> relay_frame e upward f (wx_up x) (wx_capture x) = (st, c, out, stop) \<Longrightarrow>
    ws_step e x (x\<lparr>wx_up := st, wx_capture := c, wx_up_open := (stop = None),
      wx_to_upstream := wx_to_upstream x @ (case out of None \<Rightarrow> [] | Some g \<Rightarrow> [g])\<rparr>)"
| upstream_frame: "wx_down_open x \<Longrightarrow> relay_frame e downward f (wx_down x) (wx_capture x) = (st, c, out, stop) \<Longrightarrow>
    ws_step e x (x\<lparr>wx_down := st, wx_capture := c, wx_down_open := (stop = None),
      wx_to_client := wx_to_client x @ (case out of None \<Rightarrow> [] | Some g \<Rightarrow> [g])\<rparr>)"
| lost: "ws_step e x (x\<lparr>wx_up_open := False, wx_down_open := False\<rparr>)"

definition ws_start :: "flow \<Rightarrow> int \<Rightarrow> ws_session" where
  "ws_start item limit = \<lparr>wx_up = ws_relay_start, wx_down = ws_relay_start,
     wx_capture = \<lparr>wc_item = item, wc_remaining = limit\<rparr>, wx_to_upstream = [], wx_to_client = [],
     wx_up_open = True, wx_down_open = True\<rparr>"

text \<open>What may be sent to the upstream server and to the client.\<close>

definition upward_ok :: "ws_env \<Rightarrow> string list \<Rightarrow> ws_frame \<Rightarrow> bool" where
  "upward_ok e names f \<longleftrightarrow> placeholder_names e (wf_payload f) = [] \<or>
     wf_opcode f = ws_text \<and> (\<exists>b m used. we_broker e = Some b \<and>
       sb_json b m (we_client e) (we_host e) = Inr (wf_payload f, used) \<and> set used \<subseteq> set names)"

definition downward_ok :: "ws_env \<Rightarrow> string list \<Rightarrow> ws_frame \<Rightarrow> bool" where
  "downward_ok e names f \<longleftrightarrow>
     (if wf_opcode f = ws_binary then snd (scrub_message e (wf_payload f)) = []
      else \<exists>m. wf_payload f = fst (scrub_message e m) \<and> set (snd (scrub_message e m)) \<subseteq> set names)"

definition message_cost :: "ws_message \<Rightarrow> int" where
  "message_cost m = (if wm_kind m = ''binary'' then 128 else int (length (wm_text m)))"

definition captured_cost :: "ws_capture \<Rightarrow> int" where
  "captured_cost c = sum_list (map message_cost (tc_messages (fl_capture (wc_item c)))) + wc_remaining c"

text \<open>Each operation on the capture keeps the budget and only adds names.\<close>

definition capture_grows :: "ws_capture \<Rightarrow> ws_capture \<Rightarrow> bool" where
  "capture_grows c c' \<longleftrightarrow> captured_cost c' = captured_cost c \<and> (0 \<le> wc_remaining c \<longrightarrow> 0 \<le> wc_remaining c') \<and>
     set (fl_secrets (wc_item c)) \<subseteq> set (fl_secrets (wc_item c')) \<and>
     set (fl_response_secrets (wc_item c)) \<subseteq> set (fl_response_secrets (wc_item c'))"

lemma capture_grows_refl [simp]: "capture_grows c c"
  by (simp add: capture_grows_def)

lemma capture_grows_trans: "capture_grows a b \<Longrightarrow> capture_grows b c \<Longrightarrow> capture_grows a c"
  by (auto simp: capture_grows_def)

lemma capture_grows_ops [intro]:
  "capture_grows c (add_message broker redactions direction m c)"
  "capture_grows c (add_binary_message digest direction m c)"
  "capture_grows c (add_request_names names c)"
  "capture_grows c (add_response_names names c)"
  by (auto simp: capture_grows_def captured_cost_def message_cost_def add_message_def add_binary_message_def
      add_request_names_def add_response_names_def set_truncated_def Let_def)

definition names_up :: "ws_capture \<Rightarrow> string list" where "names_up c = fl_secrets (wc_item c)"
definition names_down :: "ws_capture \<Rightarrow> string list" where "names_down c = fl_response_secrets (wc_item c)"

lemma add_names_up [simp]: "set (names_up (add_request_names names c)) = set (names_up c) \<union> set names"
  by (simp add: names_up_def add_request_names_def)

lemma add_names_down [simp]: "set (names_down (add_response_names names c)) = set (names_down c) \<union> set names"
  by (simp add: names_down_def add_response_names_def)

lemma add_message_names [simp]:
  "names_up (add_message broker redactions direction m c) = names_up c"
  "names_down (add_message broker redactions direction m c) = names_down c"
  by (simp_all add: names_up_def names_down_def add_message_def set_truncated_def Let_def)

definition outcome_ok :: "ws_env \<Rightarrow> string \<Rightarrow> ws_capture \<Rightarrow> ws_outcome \<Rightarrow> bool" where
  "outcome_ok e direction c r \<longleftrightarrow> (case r of (c', out, stop) \<Rightarrow> capture_grows c c' \<and>
     (\<forall>f. out = Some f \<longrightarrow> (if direction = upward then upward_ok e (names_up c') f else downward_ok e (names_down c') f)))"

lemma relay_control_ok:
  assumes "direction = upward \<or> direction = downward" and "wf_opcode f \<noteq> ws_binary"
  shows "outcome_ok e direction c (relay_control e direction f c)"
  using assms
  by (auto simp: outcome_ok_def relay_control_def upward_ok_def downward_ok_def Let_def scrub_message_def
      split: prod.splits option.splits intro!: exI [of _ "wf_payload f"])

lemma relay_binary_ok:
  assumes "direction = upward \<or> direction = downward"
  shows "outcome_ok e direction c (relay_binary e direction m c)"
  using assms
  by (auto simp: outcome_ok_def relay_binary_def upward_ok_def downward_ok_def Let_def
      intro: capture_grows_trans)

lemma relay_text_ok:
  assumes "direction = upward \<or> direction = downward"
  shows "outcome_ok e direction c (relay_text e direction m c)"
proof (cases "valid_utf8 m \<and> (\<exists>m' c'. transform_text e direction m c = Inr (m', c'))")
  case True
  then obtain m' c' where t: "transform_text e direction m c = Inr (m', c')" by blast
  have grows: "capture_grows c c'"
    using t by (auto simp: transform_text_def split: option.splits if_splits prod.splits)
  have up: "upward_ok e (names_up c') \<lparr>wf_fin = True, wf_compressed = we_dst_compression e, wf_opcode = ws_text, wf_payload = m'\<rparr>"
    if d: "direction = upward"
  proof (cases "placeholder_names e m' = []")
    case False
    then obtain b used where b: "we_broker e = Some b" "sb_json b m (we_client e) (we_host e) = Inr (m', used)"
      "c' = add_request_names used c"
      using t d by (auto simp: transform_text_def placeholder_names_def split: option.splits if_splits)
    then show ?thesis unfolding upward_ok_def by (intro disjI2) auto
  qed (simp add: upward_ok_def)
  have down: "downward_ok e (names_down c') \<lparr>wf_fin = True, wf_compressed = we_dst_compression e, wf_opcode = ws_text, wf_payload = m'\<rparr>"
    if "direction = downward"
    using t that by (auto simp: transform_text_def downward_ok_def scrub_message_def names_down_def
        add_response_names_def intro!: exI [of _ m] split: option.splits if_splits prod.splits)
  show ?thesis using True t grows up down assms
    by (auto simp: relay_text_def outcome_ok_def intro: capture_grows_trans)
next
  case False
  then show ?thesis by (cases "transform_text e direction m c") (auto simp: relay_text_def outcome_ok_def)
qed

lemma relay_frame_ok:
  assumes "direction = upward \<or> direction = downward"
  shows "outcome_ok e direction c (snd (relay_frame e direction f st c))"
proof -
  have stop: "outcome_ok e direction c (c, None, Some err)" for err by (simp add: outcome_ok_def)
  have message: "outcome_ok e direction c (relay_message e direction st c)" for st
    unfolding relay_message_def
    by (simp add: relay_binary_ok [OF assms] relay_text_ok [OF assms] stop split: sum.split)
  have data: "outcome_ok e direction c (snd (relay_data e direction st c))" for st
  proof (cases "rl_fragmented st")
    case True
    then show ?thesis by (simp add: relay_data_def outcome_ok_def)
  next
    case False
    obtain c' out stop where r: "relay_message e direction st c = (c', out, stop)" by (cases "relay_message e direction st c")
    then show ?thesis using message [of st] False by (cases stop) (simp_all add: relay_data_def outcome_ok_def)
  qed
  show ?thesis
    using data stop relay_control_ok [OF assms] by (auto simp: relay_frame_def Let_def)
qed


subsection \<open>Sessions are mediated\<close>

definition session_ok :: "ws_env \<Rightarrow> int \<Rightarrow> ws_session \<Rightarrow> bool" where
  "session_ok e limit x \<longleftrightarrow>
     (\<forall>f \<in> set (wx_to_upstream x). upward_ok e (names_up (wx_capture x)) f) \<and>
     (\<forall>f \<in> set (wx_to_client x). downward_ok e (names_down (wx_capture x)) f) \<and>
     captured_cost (wx_capture x) = limit \<and> 0 \<le> wc_remaining (wx_capture x)"

lemma upward_ok_mono: "upward_ok e ns f \<Longrightarrow> set ns \<subseteq> set ns' \<Longrightarrow> upward_ok e ns' f"
  unfolding upward_ok_def by blast

lemma downward_ok_mono: "downward_ok e ns f \<Longrightarrow> set ns \<subseteq> set ns' \<Longrightarrow> downward_ok e ns' f"
  by (auto simp: downward_ok_def split: if_splits)

lemma session_ok_grows:
  assumes "session_ok e limit x" and "capture_grows (wx_capture x) c"
  shows "(\<forall>f \<in> set (wx_to_upstream x). upward_ok e (names_up c) f) \<and>
    (\<forall>f \<in> set (wx_to_client x). downward_ok e (names_down c) f) \<and> captured_cost c = limit \<and> 0 \<le> wc_remaining c"
  using assms upward_ok_mono [of e "names_up (wx_capture x)"] downward_ok_mono [of e "names_down (wx_capture x)"]
  by (simp add: session_ok_def capture_grows_def names_up_def names_down_def)

lemma ws_step_ok:
  assumes "ws_step e x y" and "session_ok e limit x"
  shows "session_ok e limit y"
  using assms
proof (cases rule: ws_step.cases)
  case (client_frame f st c out stop)
  with relay_frame_ok [of upward e "wx_capture x" f "wx_up x"]
  have "capture_grows (wx_capture x) c" "\<forall>g. out = Some g \<longrightarrow> upward_ok e (names_up c) g"
    by (simp_all add: outcome_ok_def)
  with session_ok_grows [OF assms(2) this(1)] client_frame(1) show ?thesis
    by (auto simp: session_ok_def split: option.splits)
next
  case (upstream_frame f st c out stop)
  with relay_frame_ok [of downward e "wx_capture x" f "wx_down x"]
  have "capture_grows (wx_capture x) c" "\<forall>g. out = Some g \<longrightarrow> downward_ok e (names_down c) g"
    by (simp_all add: outcome_ok_def)
  with session_ok_grows [OF assms(2) this(1)] upstream_frame(1) show ?thesis
    by (auto simp: session_ok_def split: option.splits)
next
  case lost
  with assms(2) show ?thesis by (simp add: session_ok_def)
qed


definition plain_env :: ws_env where
  "plain_env = \<lparr>we_broker = None, we_redactions = [], we_limit = 100, we_client = ''c'', we_host = ''h'',
     we_src_compression = False, we_dst_compression = False, we_inflate = bytes_stream, we_digest = (\<lambda>_. [])\<rparr>"

definition plain_frame :: "nat \<Rightarrow> bool \<Rightarrow> string \<Rightarrow> ws_frame" where
  "plain_frame opc fin m = \<lparr>wf_fin = fin, wf_compressed = False, wf_opcode = opc, wf_payload = m\<rparr>"

lemma plain_text_frame:
  "relay_frame plain_env upward (plain_frame ws_text True ''hi'') ws_relay_start c =
     (\<lparr>rl_total = 2, rl_message = [], rl_opcode = ws_text, rl_compressed = False, rl_fragmented = False\<rparr>,
      add_message None [] upward ''hi'' c, Some (plain_frame ws_text True ''hi''), None)"
proof -
  have "valid_utf8 ''hi''" by (simp add: evaluate)
  then show ?thesis
    by (simp add: relay_frame_def plain_env_def plain_frame_def ws_relay_start_def relay_data_def relay_message_def
      relay_text_def transform_text_def)
qed



subsection \<open>Fragmented messages\<close>

definition frames_out :: "ws_relay \<times> ws_outcome \<Rightarrow> ws_relay \<times> ws_capture \<times> ws_frame list \<times> ws_error option" where
  "frames_out r = (case r of (st, c, out, stop) \<Rightarrow> (st, c, case out of None \<Rightarrow> [] | Some g \<Rightarrow> [g], stop))"

text \<open>A run over frames until an error.\<close>

fun relay_frames :: "ws_env \<Rightarrow> string \<Rightarrow> ws_frame list \<Rightarrow> ws_relay \<Rightarrow> ws_capture
    \<Rightarrow> ws_relay \<times> ws_capture \<times> ws_frame list \<times> ws_error option" where
  "relay_frames e direction [] st c = (st, c, [], None)"
| "relay_frames e direction (f # fs) st c =
    (case frames_out (relay_frame e direction f st c) of
       (st, c, outs, Some err) \<Rightarrow> (st, c, outs, Some err)
     | (st, c, outs, None) \<Rightarrow>
         (case relay_frames e direction fs st c of (st, c, rest, err) \<Rightarrow> (st, c, outs @ rest, err)))"

text \<open>The fragments of a message: a first frame and its continuations.\<close>

fun continuations :: "string list \<Rightarrow> ws_frame list" where
  "continuations [] = []"
| "continuations [p] = [plain_frame ws_continuation True p]"
| "continuations (p # ps) = plain_frame ws_continuation False p # continuations ps"

definition fragments :: "nat \<Rightarrow> bool \<Rightarrow> string \<Rightarrow> string list \<Rightarrow> ws_frame list" where
  "fragments opc compressed p ps =
    \<lparr>wf_fin = (ps = []), wf_compressed = compressed, wf_opcode = opc, wf_payload = p\<rparr> # continuations ps"

lemma relay_frames_single: "relay_frames e direction [f] st c = frames_out (relay_frame e direction f st c)"
  by (auto split: prod.splits option.splits)

lemma relay_continuations:
  assumes "rl_fragmented st" and "ps \<noteq> []" and "int (length (rl_message st @ concat ps)) \<le> we_limit e"
  shows "relay_frames e direction (continuations ps) st c =
    frames_out (relay_data e direction (st\<lparr>rl_total := rl_total st + int (length (concat ps)),
      rl_message := rl_message st @ concat ps, rl_fragmented := False\<rparr>) c)"
  using assms
proof (induction ps arbitrary: st rule: continuations.induct)
  case (2 p)
  then show ?case
    unfolding continuations.simps relay_frames_single by (simp add: relay_frame_def plain_frame_def)
next
  case (3 p q ps)
  let ?st = "st\<lparr>rl_total := rl_total st + int (length p), rl_message := rl_message st @ p\<rparr>"
  have "relay_frame e direction (plain_frame ws_continuation False p) st c = (?st, c, None, None)"
    using "3.prems" by (simp add: relay_frame_def plain_frame_def relay_data_def)
  moreover have "rl_fragmented ?st" "int (length (rl_message ?st @ concat (q # ps))) \<le> we_limit e" using "3.prems" by simp_all
  ultimately show ?case using "3.IH" [of ?st] by (simp add: frames_out_def add.assoc split: prod.splits)
qed simp

text \<open>Reassembly: however a data message within the limit is cut into fragments, and
  compressed only where that was negotiated, relaying them has the same effect as relaying the message in one frame, in what is written, what is captured,
  the errors and the state that the relay is left in.\<close>

theorem fragments_equivalent:
  assumes "opc = ws_text \<or> opc = ws_binary" and "\<not> rl_fragmented st"
    and "int (length (p @ concat ps)) \<le> we_limit e" and "compressed \<longrightarrow> we_src_compression e"
  shows "relay_frames e direction (fragments opc compressed p ps) st c =
    relay_frames e direction (fragments opc compressed (p @ concat ps) []) st c"
proof (cases "ps = []")
  case True
  then show ?thesis by simp
next
  case False
  let ?f = "\<lparr>wf_fin = False, wf_compressed = compressed, wf_opcode = opc, wf_payload = p\<rparr>"
  let ?st = "st\<lparr>rl_total := rl_total st + int (length p), rl_opcode := opc, rl_compressed := compressed,
    rl_message := p, rl_fragmented := True\<rparr>"
  have "relay_frame e direction ?f st c = (?st, c, None, None)"
    using False assms by (auto simp: relay_frame_def relay_data_def Let_def)
  moreover have "rl_fragmented ?st" "int (length (rl_message ?st @ concat ps)) \<le> we_limit e" using assms(3) by simp_all
  ultimately have "relay_frames e direction (fragments opc compressed p ps) st c =
      frames_out (relay_data e direction (?st\<lparr>rl_total := rl_total ?st + int (length (concat ps)),
        rl_message := rl_message ?st @ concat ps, rl_fragmented := False\<rparr>) c)"
    using False relay_continuations [of ?st ps e direction c]
    by (simp add: fragments_def frames_out_def split: prod.splits)
  also have "?st\<lparr>rl_total := rl_total ?st + int (length (concat ps)), rl_message := rl_message ?st @ concat ps,
        rl_fragmented := False\<rparr> =
      st\<lparr>rl_total := rl_total st + (int (length p) + int (length (concat ps))), rl_opcode := opc,
        rl_compressed := compressed, rl_message := p @ concat ps, rl_fragmented := False\<rparr>"
    by (cases st) simp
  also have "frames_out (relay_data e direction ... c) =
      relay_frames e direction (fragments opc compressed (p @ concat ps) []) st c"
    unfolding fragments_def continuations.simps relay_frames_single
    using False assms by (auto simp: relay_frame_def Let_def)
  finally show ?thesis .
qed

definition tiny_ws_capture :: ws_capture where
  "tiny_ws_capture = \<lparr>wc_item = empty_flow, wc_remaining = 8\<rparr>"

theorem fragments_equivalent_witness:
  "relay_frames plain_env upward (fragments ws_text False ''h'' [[], ''i'']) ws_relay_start tiny_ws_capture =
   (\<lparr>rl_total = 2, rl_message = [], rl_opcode = ws_text, rl_compressed = False, rl_fragmented = False\<rparr>,
      add_message None [] upward ''hi'' tiny_ws_capture, [plain_frame ws_text True ''hi''], None)"
proof -
  have "relay_frames plain_env upward (fragments ws_text False ''h'' [[], ''i'']) ws_relay_start tiny_ws_capture =
      relay_frames plain_env upward (fragments ws_text False (''h'' @ concat [[], ''i'']) []) ws_relay_start tiny_ws_capture"
    by (rule fragments_equivalent) (simp_all add: ws_relay_start_def plain_env_def)
  also have "fragments ws_text False (''h'' @ concat [[], ''i'']) [] = [plain_frame ws_text True ''hi'']"
    by (simp add: fragments_def plain_frame_def)
  finally show ?thesis unfolding relay_frames_single plain_text_frame by (simp add: frames_out_def)
qed

subsection \<open>The handshake\<close>

definition header_has_token :: "headers \<Rightarrow> string \<Rightarrow> string \<Rightarrow> bool" where
  "header_has_token h name token =
    list_ex (\<lambda>v. equal_fold (trim_space v) token) (split_on (CHR '','') (header_get h name))"

definition is_web_socket_upgrade :: "request \<Rightarrow> bool" where
  "is_web_socket_upgrade req = equal_fold (trim_space (header_get (rq_header req) ''Upgrade'')) ''websocket''"

definition is_unsupported_upgrade :: "request \<Rightarrow> bool" where
  "is_unsupported_upgrade req = (\<not> is_web_socket_upgrade req \<and>
    (trim_space (header_get (rq_header req) ''Upgrade'') \<noteq> [] \<or> header_has_token (rq_header req) ''Connection'' ''upgrade''))"

definition validate_web_socket_request :: "request \<Rightarrow> (string, unit) result" where
  "validate_web_socket_request req =
    rbind (require (\<not> (rq_method req \<noteq> ''GET'' \<or> rq_major req \<noteq> 1 \<or> rq_minor req < 1))
      ''WebSocket upgrade requires HTTP/1.1 GET'') (\<lambda>_.
    rbind (require (equal_fold (trim_space (header_get (rq_header req) ''Upgrade'')) ''websocket'' \<and>
      header_has_token (rq_header req) ''Connection'' ''upgrade'') ''malformed WebSocket upgrade headers'') (\<lambda>_.
    rbind (require (header_get (rq_header req) ''Sec-WebSocket-Version'' = ''13'')
      ''only WebSocket version 13 is supported'') (\<lambda>_.
    case b64_decode b64_std True (trim_space (header_get (rq_header req) ''Sec-WebSocket-Key'')) of
      None \<Rightarrow> Inl ''invalid WebSocket handshake key''
    | Some key \<Rightarrow> require (length key = 16) ''invalid WebSocket handshake key'')))"

definition offers_deflate :: "headers \<Rightarrow> bool" where
  "offers_deflate h = list_ex (\<lambda>ext. equal_fold (trim_space (hd (split_on (CHR '';'') (trim_space ext)))) ''permessage-deflate'')
     (split_on (CHR '','') (header_get h ''Sec-WebSocket-Extensions''))"

definition valid_no_context_deflate :: "string \<Rightarrow> bool" where
  "valid_no_context_deflate v = (case split_on (CHR '';'') v of
     [p0, p1, p2] \<Rightarrow> equal_fold (trim_space p0) ''permessage-deflate'' \<and>
       (let params = map (\<lambda>p. to_lower (trim_space p)) [p1, p2] in
        ''client_no_context_takeover'' \<in> set params \<and> ''server_no_context_takeover'' \<in> set params)
   | _ \<Rightarrow> False)"

definition no_context_deflate :: string where
  "no_context_deflate = ''permessage-deflate; client_no_context_takeover; server_no_context_takeover''"

definition web_socket_accept :: "(string \<Rightarrow> string) \<Rightarrow> string \<Rightarrow> string" where
  "web_socket_accept sha1 key = b64_encode b64_std True (sha1 (trim_space key @ ''258EAFA5-E914-47DA-95CA-C5AB0DC85B11''))"

text \<open>The upgrade request that is sent, and the checks of the answer: whether frames are compressed.\<close>

definition upgrade_request :: "request \<Rightarrow> int \<Rightarrow> request" where
  "upgrade_request req port =
    (let header = header_del ''Sec-WebSocket-Extensions''
           (header_del ''Proxy-Connection'' (header_del ''Proxy-Authorization'' (rq_header req)));
         header = (if offers_deflate (rq_header req)
           then header_set ''Sec-WebSocket-Extensions'' no_context_deflate header else header) in
     req\<lparr>rq_url := map_option (\<lambda>u. u\<lparr>u_scheme := ''https'', u_host := destination_authority (rq_host req) port ''https''\<rparr>)
           (rq_url req),
         rq_header := header_set ''Accept-Encoding'' ''identity'' header, rq_close := False\<rparr>)"

definition check_upgrade_response :: "(string \<Rightarrow> string) \<Rightarrow> request \<Rightarrow> response \<Rightarrow> (string, response \<times> bool) result" where
  "check_upgrade_response sha1 req resp =
    (let h = rs_header resp; selected = header_get h ''Sec-WebSocket-Extensions'' in
     if rs_code resp \<noteq> 101 \<or> \<not> equal_fold (header_get h ''Upgrade'') ''websocket'' \<or>
        \<not> header_has_token h ''Connection'' ''upgrade'' \<or>
        header_get h ''Sec-WebSocket-Accept'' \<noteq> web_socket_accept sha1 (header_get (rq_header req) ''Sec-WebSocket-Key'')
     then Inl ''upstream rejected or malformed the WebSocket upgrade''
     else if selected = [] then Inr (resp, False)
     else if \<not> offers_deflate (rq_header req) \<or> \<not> valid_no_context_deflate selected
       then Inl ''upstream selected an unsupported WebSocket extension''
     else Inr (resp\<lparr>rs_header := header_set ''Sec-WebSocket-Extensions'' no_context_deflate h\<rparr>, True))"

definition scrub_upgrade :: "secret_broker option \<Rightarrow> response \<Rightarrow> string \<Rightarrow> string \<Rightarrow> flow \<Rightarrow> response \<times> flow" where
  "scrub_upgrade broker resp client host item = (case broker of
     None \<Rightarrow> (resp, item)
   | Some b \<Rightarrow>
       let (header, names) = scrub_headers b client host (rs_header resp) (fl_response_secrets item);
           (status, found) = sb_scrub b (rs_status resp) client host in
       (resp\<lparr>rs_header := header, rs_status := status\<rparr>,
        item\<lparr>fl_response_secrets := merge_names [names, found]\<rparr>))"

text \<open>\<open>proxyWebSocket\<close>, with the network as an argument: the results of dialing, the TLS handshake,
  the write and read of the upgrade and the reply to the client, and of the two relays what they
  leave: the flow, and for each the bytes and its error, the relay that ended first in front. The
  result is the reply (a status and a text) if the upgrade failed, the status, the bytes and the
  reason.\<close>

record ws_network =
  wn_dial :: "(string, unit) result"
  wn_handshake :: "(string, unit) result"
  wn_write :: "request \<Rightarrow> (string, unit) result"
  wn_response :: "request \<Rightarrow> (string, response) result"
  wn_reply :: "response \<Rightarrow> (string, unit) result"
  wn_relays :: "ws_env \<Rightarrow> flow \<Rightarrow> flow \<times> (string \<times> int \<times> ws_error) \<times> (string \<times> int \<times> ws_error)"

definition quiet_end :: "ws_error \<Rightarrow> bool" where
  "quiet_end e = (case e of Ws_Closed \<Rightarrow> True | Ws_Eof \<Rightarrow> True | Ws_Limit \<Rightarrow> False
     | Ws_Error t \<Rightarrow> has_suffix t ''use of closed network connection'')"

definition ws_error_text :: "ws_error \<Rightarrow> string" where
  "ws_error_text e = (case e of Ws_Closed \<Rightarrow> ''WebSocket closed'' | Ws_Eof \<Rightarrow> ''EOF''
     | Ws_Limit \<Rightarrow> ''traffic payload exceeds capture limit'' | Ws_Error t \<Rightarrow> t)"

type_synonym ws_result = "flow \<times> (int \<times> string) option \<times> int \<times> int \<times> int \<times> string"

definition ws_fail :: "flow \<Rightarrow> int \<Rightarrow> string \<Rightarrow> string \<Rightarrow> ws_result" where
  "ws_fail item status reason reply =
    (trace_step ''websocket-handshake'' ''fail'' reason item, Some (status, reply), status, 0, 0, reason)"

definition run_relays :: "('o, 'z) handler_scheme \<Rightarrow> secret_broker option \<Rightarrow> (string \<Rightarrow> stream) \<Rightarrow> (string \<Rightarrow> string)
    \<Rightarrow> ws_network \<Rightarrow> request \<Rightarrow> string \<Rightarrow> string \<Rightarrow> bool \<Rightarrow> flow \<Rightarrow> ws_result" where
  "run_relays h broker inflate digest net req client host compression item =
    (let e = \<lparr>we_broker = broker, we_redactions = sensitive_header_values (rq_header req), we_limit = mediation_limit h,
           we_client = client, we_host = host, we_src_compression = compression, we_dst_compression = compression,
           we_inflate = inflate, we_digest = digest\<rparr>;
         (item, first, second) = wn_relays net e item;
         bytes = (\<lambda>d. if fst second = d then fst (snd second) else if fst first = d then fst (snd first) else 0) in
     case filter (\<lambda>r. \<not> quiet_end (snd (snd r))) [first, second] of
       r # _ \<Rightarrow> let reason = safe_reason (ws_error_text (snd (snd r))) in
         (trace_step ''websocket-frames'' ''fail'' reason item, None, 101, bytes upward, bytes downward, reason)
     | [] \<Rightarrow> (trace_step ''websocket-frames'' ''pass'' ''connection closed'' item, None, 101, bytes upward, bytes downward, []))"

definition proxy_web_socket :: "('o, 'z) handler_scheme \<Rightarrow> secret_broker option \<Rightarrow> (string \<Rightarrow> string) \<Rightarrow> (string \<Rightarrow> stream)
    \<Rightarrow> (string \<Rightarrow> string) \<Rightarrow> ws_network \<Rightarrow> request \<Rightarrow> string \<Rightarrow> string \<Rightarrow> int \<Rightarrow> flow \<Rightarrow> ws_result" where
  "proxy_web_socket h broker sha1 inflate digest net req client host port item =
    (case validate_web_socket_request req of Inl e \<Rightarrow> ws_fail item 400 (safe_reason e) (safe_reason e) | Inr _ \<Rightarrow>
     case wn_dial net of Inl e \<Rightarrow> ws_fail item 502 (safe_reason e) ''upstream connection failed'' | Inr _ \<Rightarrow>
     case wn_handshake net of
       Inl e \<Rightarrow> ws_fail item 502 (safe_reason (''upstream TLS handshake: '' @ e)) ''upstream TLS handshake failed''
     | Inr _ \<Rightarrow>
     let out = upgrade_request req port in
     case wn_write net out of Inl e \<Rightarrow> ws_fail item 502 (safe_reason e) ''upstream WebSocket handshake failed'' | Inr _ \<Rightarrow>
     case wn_response net out of Inl e \<Rightarrow> ws_fail item 502 (safe_reason e) ''invalid upstream WebSocket response'' | Inr resp \<Rightarrow>
     let item = item\<lparr>fl_upstream := protocol_label (rs_major resp) (rs_minor resp)\<rparr> in
     case check_upgrade_response sha1 req resp of Inl e \<Rightarrow> ws_fail item 502 e e | Inr (resp, compression) \<Rightarrow>
     let (resp, item) = scrub_upgrade broker resp client host item;
         resp = resp\<lparr>rs_body := bytes_stream [], rs_length := 0\<rparr>;
         (item, truncated) = capture_response_headers h broker resp item;
         item = or_truncated truncated item in
     case wn_reply net resp of
       Inl e \<Rightarrow> (item, None, 101, 0, 0, safe_reason e)
     | Inr _ \<Rightarrow>
         run_relays h broker inflate digest net req client host compression
           (trace_step ''websocket-handshake'' ''pass'' (if compression
              then ''permessage-deflate no-context-takeover mediation established''
              else ''uncompressed frame mediation established'') item))"

end
