(* ===== verification/Upstream_Pool.thy ===== *)
theory Upstream_Pool
  imports Proxy_Text "HOL-Library.Multiset"
begin

text \<open>
  The cache of upstream transports (\<open>internal/proxy/transport.go\<close>). A transport is pinned to one
  scheme, host, address and port; it is shared by the requests to that destination, evicted when
  the cache is full, and drained when requests still use it. Cached entries are pointers in the
  code, here indices into a store that only grows. Of a transport the model keeps whether its idle
  connections have been closed since a request last used it.
\<close>

record upstream_key =
  uk_scheme :: string
  uk_host :: string
  uk_ip :: ip_addr
  uk_port :: int

record cached_transport =
  ct_key :: upstream_key
  ct_last_used :: int
  ct_active :: nat
  ct_draining :: bool
  ct_idle_closed :: bool

text \<open>The fields of the handler under \<open>transportMu\<close>, and the store of the pointers.\<close>

record upstream_pool =
  up_store :: "nat \<Rightarrow> cached_transport"
  up_next :: nat
  up_transports :: "(upstream_key \<times> nat) list"
  up_draining :: "nat list"
  up_closed :: bool

abbreviation max_cached_transports :: nat where "max_cached_transports \<equiv> 64"

definition upstream_key_for :: "string \<Rightarrow> string \<Rightarrow> ip_addr \<Rightarrow> int \<Rightarrow> upstream_key" where
  "upstream_key_for scheme host ip port = \<lparr>uk_scheme = to_lower scheme, uk_host = to_lower (trim_suffix host ''.''),
     uk_ip = ip_unmap ip, uk_port = port\<rparr>"

text \<open>The address that a transport dials, whatever host name it is asked for.\<close>

definition dial_address :: "ip_addr \<Rightarrow> int \<Rightarrow> string" where
  "dial_address ip port = join_host_port (ip_text ip) (port_text port)"

definition transport_dials :: "cached_transport \<Rightarrow> string" where
  "transport_dials t = dial_address (uk_ip (ct_key t)) (uk_port (ct_key t))"

abbreviation update_transport :: "nat \<Rightarrow> (cached_transport \<Rightarrow> cached_transport) \<Rightarrow> upstream_pool \<Rightarrow> upstream_pool" where
  "update_transport i f p \<equiv> p\<lparr>up_store := (up_store p)(i := f (up_store p i))\<rparr>"

definition close_idle :: "nat \<Rightarrow> upstream_pool \<Rightarrow> upstream_pool" where
  "close_idle i p = update_transport i (\<lambda>t. t\<lparr>ct_idle_closed := True\<rparr>) p"

text \<open>The oldest entry, the first of them in the order of the iteration.\<close>

fun oldest_transport :: "(nat \<Rightarrow> cached_transport) \<Rightarrow> (upstream_key \<times> nat) list \<Rightarrow> (upstream_key \<times> nat) option
    \<Rightarrow> (upstream_key \<times> nat) option" where
  "oldest_transport s [] best = best"
| "oldest_transport s ((k, i) # ts) best = oldest_transport s ts
     (case best of None \<Rightarrow> Some (k, i)
      | Some (_, j) \<Rightarrow> if ct_last_used (s i) < ct_last_used (s j) then Some (k, i) else best)"

definition evict_oldest :: "upstream_pool \<Rightarrow> upstream_pool" where
  "evict_oldest p = (case oldest_transport (up_store p) (up_transports p) None of
     None \<Rightarrow> p
   | Some (k, i) \<Rightarrow>
       let p = p\<lparr>up_transports := filter (\<lambda>e. fst e \<noteq> k) (up_transports p)\<rparr>;
           p = close_idle i (update_transport i (\<lambda>t. t\<lparr>ct_draining := True\<rparr>) p) in
       if 0 < ct_active (up_store p i) then p\<lparr>up_draining := up_draining p @ [i]\<rparr> else p)"

definition transport_locked :: "int \<Rightarrow> upstream_key \<Rightarrow> upstream_pool \<Rightarrow> nat option \<times> upstream_pool" where
  "transport_locked now key p =
    (if up_closed p then (None, p) else
     case map_of (up_transports p) key of
       Some i \<Rightarrow> (Some i, update_transport i (\<lambda>t. t\<lparr>ct_last_used := now\<rparr>) p)
     | None \<Rightarrow>
         let p = (if max_cached_transports \<le> length (up_transports p) then evict_oldest p else p); i = up_next p in
         (Some i, p\<lparr>up_store := (up_store p)(i := \<lparr>ct_key = key, ct_last_used = now, ct_active = 0,
                      ct_draining = False, ct_idle_closed = True\<rparr>),
                    up_next := Suc i, up_transports := up_transports p @ [(key, i)]\<rparr>))"

definition acquire_transport :: "int \<Rightarrow> string \<Rightarrow> string \<Rightarrow> ip_addr \<Rightarrow> int \<Rightarrow> upstream_pool \<Rightarrow> nat option \<times> upstream_pool" where
  "acquire_transport now scheme host ip port p =
    (case transport_locked now (upstream_key_for scheme host ip port) p of
       (None, p) \<Rightarrow> (None, p)
     | (Some i, p) \<Rightarrow> (Some i, update_transport i (\<lambda>t. t\<lparr>ct_active := ct_active t + 1\<rparr>) p))"

definition remove_draining :: "nat \<Rightarrow> upstream_pool \<Rightarrow> upstream_pool" where
  "remove_draining i p = p\<lparr>up_draining := remove1 i (up_draining p)\<rparr>"

definition release_transport :: "nat \<Rightarrow> upstream_pool \<Rightarrow> upstream_pool" where
  "release_transport i p =
    (let p = update_transport i (\<lambda>t. t\<lparr>ct_active := ct_active t - 1\<rparr>) p;
         t = up_store p i;
         drained = (ct_draining t \<and> ct_active t = 0);
         p = (if drained then remove_draining i p else p) in
     if up_closed p \<or> drained then close_idle i p else p)"

definition close_transports :: "upstream_pool \<Rightarrow> upstream_pool" where
  "close_transports p =
    fold close_idle (map snd (up_transports p) @ up_draining p)
      (p\<lparr>up_closed := True, up_transports := [], up_draining := []\<rparr>)"

subsection \<open>Use of the pool\<close>

text \<open>A request holds a transport from \<open>acquireUpstreamTransport\<close> until its response has been read
  or closed, which releases it once (\<open>trackedResponseBody\<close>). While it is held connections may be
  opened. \<open>held\<close> lists the transports of the requests under way.\<close>

definition mark_used :: "nat \<Rightarrow> upstream_pool \<Rightarrow> upstream_pool" where
  "mark_used i p = update_transport i (\<lambda>t. t\<lparr>ct_idle_closed := False\<rparr>) p"

inductive pool_step :: "upstream_pool \<times> nat multiset \<Rightarrow> upstream_pool \<times> nat multiset \<Rightarrow> bool" where
  acquired: "acquire_transport now scheme host ip port p = (Some i, p') \<Longrightarrow>
    pool_step (p, held) (p', add_mset i held)"
| refused: "acquire_transport now scheme host ip port p = (None, p') \<Longrightarrow> pool_step (p, held) (p', held)"
| used: "i \<in># held \<Longrightarrow> pool_step (p, held) (mark_used i p, held)"
| released: "i \<in># held \<Longrightarrow> pool_step (p, held) (release_transport i p, held - {#i#})"
| closed: "pool_step (p, held) (close_transports p, held)"

definition empty_pool :: upstream_pool where
  "empty_pool = \<lparr>up_store = (\<lambda>_. \<lparr>ct_key = upstream_key_for [] [] Ip_Invalid 0, ct_last_used = 0, ct_active = 0,
     ct_draining = False, ct_idle_closed = True\<rparr>), up_next = 0, up_transports = [], up_draining = [], up_closed = False\<rparr>"

definition cached_ids :: "upstream_pool \<Rightarrow> nat set" where
  "cached_ids p = snd ` set (up_transports p)"

lemma cached_ids_store [simp]:
  "cached_ids (p\<lparr>up_store := s\<rparr>) = cached_ids p"
  "cached_ids (p\<lparr>up_draining := d\<rparr>) = cached_ids p"
  by (simp_all add: cached_ids_def)

definition pool_ok :: "upstream_pool \<times> nat multiset \<Rightarrow> bool" where
  "pool_ok s \<longleftrightarrow> (case s of (p, held) \<Rightarrow>
     length (up_transports p) \<le> max_cached_transports \<and>
     distinct (map fst (up_transports p)) \<and> distinct (map snd (up_transports p)) \<and>
     (\<forall>(k, i) \<in> set (up_transports p). i < up_next p \<and> ct_key (up_store p i) = k \<and> \<not> ct_draining (up_store p i)) \<and>
     (\<forall>i. ct_active (up_store p i) = count held i) \<and> (\<forall>i. i \<in># held \<longrightarrow> i < up_next p) \<and>
     distinct (up_draining p) \<and>
     (\<forall>i \<in> set (up_draining p). i \<in># held \<and> i \<notin> cached_ids p) \<and>
     (up_closed p \<longrightarrow> up_transports p = [] \<and> up_draining p = []) \<and>
     (\<not> up_closed p \<longrightarrow> (\<forall>i. i \<in># held \<longrightarrow> i \<in> cached_ids p \<or> i \<in> set (up_draining p))) \<and>
     (\<not> up_closed p \<longrightarrow> (\<forall>i < up_next p. i \<notin> cached_ids p \<longrightarrow> ct_draining (up_store p i))) \<and>
     (\<forall>i. i \<notin># held \<longrightarrow> i \<notin> cached_ids p \<longrightarrow> ct_idle_closed (up_store p i)))"


lemma pool_okD:
  assumes "pool_ok (p, held)"
  shows "length (up_transports p) \<le> max_cached_transports"
    and "distinct (map fst (up_transports p))" and "distinct (map snd (up_transports p))"
    and "\<And>k i. (k, i) \<in> set (up_transports p) \<Longrightarrow> i < up_next p \<and> ct_key (up_store p i) = k \<and> \<not> ct_draining (up_store p i)"
    and "\<And>i. ct_active (up_store p i) = count held i" and "\<And>i. i \<in># held \<Longrightarrow> i < up_next p"
    and "distinct (up_draining p)" and "\<And>i. i \<in> set (up_draining p) \<Longrightarrow> i \<in># held \<and> i \<notin> cached_ids p"
    and "up_closed p \<Longrightarrow> up_transports p = [] \<and> up_draining p = []"
    and "\<And>i. \<not> up_closed p \<Longrightarrow> i \<in># held \<Longrightarrow> i \<in> cached_ids p \<or> i \<in> set (up_draining p)"
    and "\<And>i. \<not> up_closed p \<Longrightarrow> i < up_next p \<Longrightarrow> i \<notin> cached_ids p \<Longrightarrow> ct_draining (up_store p i)"
    and "\<And>i. i \<notin># held \<Longrightarrow> i \<notin> cached_ids p \<Longrightarrow> ct_idle_closed (up_store p i)"
  using assms unfolding pool_ok_def by blast+

lemma pool_okI:
  assumes "length (up_transports p) \<le> max_cached_transports"
    and "distinct (map fst (up_transports p))" and "distinct (map snd (up_transports p))"
    and "\<And>k i. (k, i) \<in> set (up_transports p) \<Longrightarrow> i < up_next p \<and> ct_key (up_store p i) = k \<and> \<not> ct_draining (up_store p i)"
    and "\<And>i. ct_active (up_store p i) = count held i" and "\<And>i. i \<in># held \<Longrightarrow> i < up_next p"
    and "distinct (up_draining p)" and "\<And>i. i \<in> set (up_draining p) \<Longrightarrow> i \<in># held \<and> i \<notin> cached_ids p"
    and "up_closed p \<Longrightarrow> up_transports p = [] \<and> up_draining p = []"
    and "\<And>i. \<not> up_closed p \<Longrightarrow> i \<in># held \<Longrightarrow> i \<in> cached_ids p \<or> i \<in> set (up_draining p)"
    and "\<And>i. \<not> up_closed p \<Longrightarrow> i < up_next p \<Longrightarrow> i \<notin> cached_ids p \<Longrightarrow> ct_draining (up_store p i)"
    and "\<And>i. i \<notin># held \<Longrightarrow> i \<notin> cached_ids p \<Longrightarrow> ct_idle_closed (up_store p i)"
  shows "pool_ok (p, held)"
  unfolding pool_ok_def using assms by blast

text \<open>A change of the store that keeps keys and draining flags.\<close>

lemma pool_ok_store:
  assumes "pool_ok (p, held)" and "\<And>j. ct_key (s j) = ct_key (up_store p j) \<and> ct_draining (s j) = ct_draining (up_store p j)"
    and "\<And>j. ct_active (s j) = count held' j" and "\<And>j. j \<in># held' \<Longrightarrow> j < up_next p"
    and "\<And>j. j \<in> set (up_draining p) \<Longrightarrow> j \<in># held'"
    and "\<And>j. \<not> up_closed p \<Longrightarrow> j \<in># held' \<Longrightarrow> j \<in> cached_ids p \<or> j \<in> set (up_draining p)"
    and "\<And>j. j \<notin># held' \<Longrightarrow> j \<notin> cached_ids p \<Longrightarrow> ct_idle_closed (s j)"
  shows "pool_ok (p\<lparr>up_store := s\<rparr>, held')"
proof -
  note D = pool_okD [OF assms(1)]
  show ?thesis
    by (rule pool_okI, unfold cached_ids_store)
      (simp_all add: D(1-3,7) assms(2-) D(4) D(8) D(9) D(11))
qed

lemma oldest_transport_in:
  "oldest_transport s ts best = Some e \<Longrightarrow> e \<in> set ts \<or> best = Some e"
  by (induction s ts best rule: oldest_transport.induct) (auto split: option.splits if_splits)

lemma oldest_transport_None: "oldest_transport s ts best = None \<longleftrightarrow> ts = [] \<and> best = None"
  by (induction s ts best rule: oldest_transport.induct) (auto split: option.splits if_splits)

lemma evict_oldest_ok:
  assumes ok: "pool_ok (p, held)" and "\<not> up_closed p" and "up_transports p \<noteq> []"
  shows "pool_ok (evict_oldest p, held)" and "length (up_transports (evict_oldest p)) < length (up_transports p)"
    and "\<not> up_closed (evict_oldest p)" and "set (up_transports (evict_oldest p)) \<subseteq> set (up_transports p)"
    and "up_next (evict_oldest p) = up_next p"
proof -
  obtain k i where o: "oldest_transport (up_store p) (up_transports p) None = Some (k, i)"
    using oldest_transport_None [of "up_store p" "up_transports p" None] assms(3) by auto
  then have ki: "(k, i) \<in> set (up_transports p)" using oldest_transport_in by fastforce
  note D = pool_okD [OF ok]
  define ts where "ts = filter (\<lambda>e. fst e \<noteq> k) (up_transports p)"
  have set_ts: "set ts = set (up_transports p) - {(k, i)}"
    using ki eq_key_imp_eq_value [OF D(2)] by (auto simp: ts_def)
  have ids: "snd ` set ts = cached_ids p - {i}"
  proof -
    have "inj_on snd (set (up_transports p))" using D(3) by (simp add: distinct_map)
    from inj_on_image_set_diff [OF this, of "set (up_transports p)" "{(k, i)}"] ki
    show ?thesis by (simp add: set_ts cached_ids_def)
  qed
  have e: "evict_oldest p = p\<lparr>up_transports := ts,
      up_store := (up_store p)(i := (up_store p i)\<lparr>ct_draining := True, ct_idle_closed := True\<rparr>),
      up_draining := (if i \<in># held then up_draining p @ [i] else up_draining p)\<rparr>"
    using D(5) [of i] o by (auto simp: evict_oldest_def ts_def close_idle_def)
  have i: "i \<in> cached_ids p" using ki by (force simp: cached_ids_def)
  show len: "length (up_transports (evict_oldest p)) < length (up_transports p)"
    unfolding e ts_def using ki by (auto intro: length_filter_less)
  show "pool_ok (evict_oldest p, held)"
  proof (rule pool_okI)
    show "length (up_transports (evict_oldest p)) \<le> max_cached_transports" using len D(1) by simp
    show "distinct (map fst (up_transports (evict_oldest p)))" "distinct (map snd (up_transports (evict_oldest p)))"
      using D(2,3) by (auto simp: e ts_def distinct_map inj_on_def)
    show "j < up_next (evict_oldest p) \<and> ct_key (up_store (evict_oldest p) j) = k' \<and> \<not> ct_draining (up_store (evict_oldest p) j)"
      if "(k', j) \<in> set (up_transports (evict_oldest p))" for k' j
    proof -
      have "(k', j) \<in> set ts" using that by (simp add: e)
      then have "j \<in> snd ` set ts" "(k', j) \<in> set (up_transports p)" by (force, simp add: set_ts)
      then have "j \<noteq> i" using ids by simp
      then show ?thesis using D(4) [OF \<open>(k', j) \<in> set (up_transports p)\<close>] by (simp add: e)
    qed
    show "ct_active (up_store (evict_oldest p) j) = count held j" for j
      using D(5) [of j] by (cases "j = i") (simp_all add: e)
    show "j < up_next (evict_oldest p)" if "j \<in># held" for j using D(6) [OF that] by (simp add: e)
    show "distinct (up_draining (evict_oldest p))" using D(7,8) i by (auto simp: e)
    show "j \<in># held \<and> j \<notin> cached_ids (evict_oldest p)" if "j \<in> set (up_draining (evict_oldest p))" for j
      using that D(8) [of j] ids by (auto simp: e cached_ids_def split: if_splits)
    show "up_closed (evict_oldest p) \<Longrightarrow> up_transports (evict_oldest p) = [] \<and> up_draining (evict_oldest p) = []"
      using assms(2) by (simp add: e)
    show "j \<in> cached_ids (evict_oldest p) \<or> j \<in> set (up_draining (evict_oldest p))" if "j \<in># held" for j
      using D(10) [OF assms(2) that] that ids by (cases "j = i") (simp_all add: e cached_ids_def)
    show "ct_draining (up_store (evict_oldest p) j)" if "j < up_next (evict_oldest p)" "j \<notin> cached_ids (evict_oldest p)" for j
      using D(11) [OF assms(2), of j] that ids by (cases "j = i") (simp_all add: e cached_ids_def)
    show "ct_idle_closed (up_store (evict_oldest p) j)" if "j \<notin># held" "j \<notin> cached_ids (evict_oldest p)" for j
      using D(12) [of j] that ids by (cases "j = i") (simp_all add: e cached_ids_def)
  qed
  show "\<not> up_closed (evict_oldest p)" "set (up_transports (evict_oldest p)) \<subseteq> set (up_transports p)"
    "up_next (evict_oldest p) = up_next p"
    using assms(2) set_ts by (auto simp: e)
qed

text \<open>A lookup gives a transport of the key, cached and not draining.\<close>

lemma transport_locked_ok:
  assumes ok: "pool_ok (p, held)" and t: "transport_locked now key p = (Some i, p')"
  shows "pool_ok (p', held)" and "(key, i) \<in> set (up_transports p')" and "\<not> up_closed p'"
proof -
  have open_pool: "\<not> up_closed p" using t by (auto simp: transport_locked_def split: if_splits)
  have "pool_ok (p', held) \<and> (key, i) \<in> set (up_transports p') \<and> \<not> up_closed p'"
  proof (cases "map_of (up_transports p) key")
    case (Some j)
    then have p': "p' = p\<lparr>up_store := (up_store p)(i := (up_store p i)\<lparr>ct_last_used := now\<rparr>)\<rparr>" "j = i"
      using t open_pool by (auto simp: transport_locked_def)
    note D = pool_okD [OF ok]
    have ids: "cached_ids p' = cached_ids p" by (simp add: p' cached_ids_def)
    have "pool_ok (p', held)"
      unfolding p'(1) by (rule pool_ok_store [OF ok]) (use D in auto)
    with map_of_SomeD [OF Some] p' open_pool show ?thesis by simp
  next
    case None
    define q where "q = (if max_cached_transports \<le> length (up_transports p) then evict_oldest p else p)"
    have full: "max_cached_transports \<le> length (up_transports p) \<Longrightarrow> up_transports p \<noteq> []" by auto
    have q: "pool_ok (q, held)" "length (up_transports q) < max_cached_transports" "\<not> up_closed q"
      "set (up_transports q) \<subseteq> set (up_transports p)"
      using evict_oldest_ok [OF ok open_pool full] pool_okD(1) [OF ok] ok open_pool by (auto simp: q_def)
    note D = pool_okD [OF q(1)]
    have p': "p' = q\<lparr>up_store := (up_store q)(i := \<lparr>ct_key = key, ct_last_used = now, ct_active = 0,
          ct_draining = False, ct_idle_closed = True\<rparr>), up_next := Suc i, up_transports := up_transports q @ [(key, i)]\<rparr>"
      and i: "i = up_next q"
      using t open_pool None by (auto simp: transport_locked_def q_def [symmetric] Let_def)
    have fresh: "key \<notin> fst ` set (up_transports q)" using None q(4) by (auto simp: map_of_eq_None_iff)
    have new: "i \<notin># held" "i \<notin> snd ` set (up_transports q)" using D(6) D(4) i by (blast, fastforce)
    have ids: "cached_ids p' = insert i (cached_ids q)" by (auto simp: p' cached_ids_def)
    have "pool_ok (p', held)"
    proof (rule pool_okI)
      show "length (up_transports p') \<le> max_cached_transports" using q(2) by (simp add: p')
      show "distinct (map fst (up_transports p'))" "distinct (map snd (up_transports p'))"
        using D(2,3) fresh new(2) by (simp_all add: p')
      show "j < up_next p' \<and> ct_key (up_store p' j) = k \<and> \<not> ct_draining (up_store p' j)"
        if "(k, j) \<in> set (up_transports p')" for k j
      proof (cases "(k, j) = (key, i)")
        case False
        then have "(k, j) \<in> set (up_transports q)" using that by (auto simp: p')
        moreover from this have "j \<noteq> i" using new(2) by force
        ultimately show ?thesis using D(4) [of k j] i by (simp add: p')
      qed (simp add: p')
      show "ct_active (up_store p' j) = count held j" for j
        using D(5) [of j] new(1) by (auto simp: p' not_in_iff)
      show "j < up_next p'" if "j \<in># held" for j using D(6) [OF that] i by (simp add: p')
      show "distinct (up_draining p')" using D(7) by (simp add: p')
      show "j \<in># held \<and> j \<notin> cached_ids p'" if "j \<in> set (up_draining p')" for j
        using D(8) [of j] that new(1) by (auto simp: ids) (simp_all add: p')
      show "up_closed p' \<Longrightarrow> up_transports p' = [] \<and> up_draining p' = []" using q(3) by (simp add: p')
      show "j \<in> cached_ids p' \<or> j \<in> set (up_draining p')" if "j \<in># held" for j
        using D(10) [OF q(3) that] by (auto simp: ids) (simp add: p')
      show "ct_draining (up_store p' j)" if "j < up_next p'" "j \<notin> cached_ids p'" for j
        using D(11) [OF q(3), of j] that i by (auto simp: ids) (simp add: p')
      show "ct_idle_closed (up_store p' j)" if "j \<notin># held" "j \<notin> cached_ids p'" for j
        using D(12) [of j] that by (auto simp: ids) (simp add: p')
    qed
    then show ?thesis using q(3) by (simp add: p')
  qed
  then show "pool_ok (p', held)" "(key, i) \<in> set (up_transports p')" "\<not> up_closed p'" by auto
qed


lemma acquire_ok:
  assumes ok: "pool_ok (p, held)" and a: "acquire_transport now scheme host ip port p = (Some i, p')"
  shows "pool_ok (p', add_mset i held)"
    and "ct_key (up_store p' i) = upstream_key_for scheme host ip port"
proof -
  obtain q where q: "transport_locked now (upstream_key_for scheme host ip port) p = (Some i, q)"
    and p': "p' = q\<lparr>up_store := (up_store q)(i := (up_store q i)\<lparr>ct_active := ct_active (up_store q i) + 1\<rparr>)\<rparr>"
    using a by (auto simp: acquire_transport_def split: prod.splits option.splits)
  note t = transport_locked_ok [OF ok q]
  note D = pool_okD [OF t(1)]
  have cached: "i \<in> cached_ids q" "i < up_next q" using t(2) D(4) by (force simp: cached_ids_def, blast)
  show "pool_ok (p', add_mset i held)"
    unfolding p'
  proof (rule pool_ok_store [OF t(1)])
    show "j \<in> cached_ids q \<or> j \<in> set (up_draining q)" if "\<not> up_closed q" "j \<in># add_mset i held" for j
      using that cached D(10) [of j] by auto
    show "j < up_next q" if "j \<in># add_mset i held" for j using that cached D(6) [of j] by auto
    show "j \<in># add_mset i held" if "j \<in> set (up_draining q)" for j using D(8) [OF that] by simp
  qed (use D(5) D(12) cached in auto)
  show "ct_key (up_store p' i) = upstream_key_for scheme host ip port" using D(4) [OF t(2)] by (simp add: p')
qed

lemma refused_closed: "acquire_transport now scheme host ip port p = (None, p') \<Longrightarrow> p' = p \<and> up_closed p"
  by (auto simp: acquire_transport_def transport_locked_def Let_def split: prod.splits option.splits if_splits)

lemma mark_used_ok:
  assumes "pool_ok (p, held)" and "i \<in># held"
  shows "pool_ok (mark_used i p, held)"
  unfolding mark_used_def
  by (rule pool_ok_store [OF assms(1)]) (use pool_okD [OF assms(1)] assms(2) in auto)

lemma release_ok:
  assumes ok: "pool_ok (p, held)" and i: "i \<in># held"
  shows "pool_ok (release_transport i p, held - {#i#})"
proof -
  note D = pool_okD [OF ok]
  obtain n where n: "count held i = Suc n" using i by (metis count_greater_zero_iff gr0_implies_Suc)
  define last where "last = (n = 0)"
  have active: "ct_active (up_store p i) = Suc n" using D(5) [of i] n by simp
  define drained where "drained = (ct_draining (up_store p i) \<and> last)"
  have r: "release_transport i p = p\<lparr>up_store := (up_store p)(i := (up_store p i)\<lparr>ct_active := n,
        ct_idle_closed := (ct_idle_closed (up_store p i) \<or> up_closed p \<or> drained)\<rparr>),
      up_draining := (if drained then remove1 i (up_draining p) else up_draining p)\<rparr>"
    using active by (auto simp: release_transport_def Let_def drained_def last_def remove_draining_def close_idle_def)
  have ids: "cached_ids (release_transport i p) = cached_ids p" by (simp add: r cached_ids_def)
  have cached: "\<not> ct_draining (up_store p i)" if "i \<in> cached_ids p" using that D(4) by (auto simp: cached_ids_def)
  have held: "j \<in># held - {#i#} \<longleftrightarrow> j \<in># held \<and> (j = i \<longrightarrow> \<not> last)" for j
    using i n by (auto simp: last_def in_diff_count)
  show ?thesis
  proof (rule pool_okI)
    show "ct_active (up_store (release_transport i p) j) = count (held - {#i#}) j" for j
      using D(5) [of j] n by (cases "j = i") (simp_all add: r)
    show "j \<in># held - {#i#} \<and> j \<notin> cached_ids (release_transport i p)"
      if "j \<in> set (up_draining (release_transport i p))" for j
    proof -
      have j: "j \<in> set (up_draining p)" "j = i \<longrightarrow> \<not> drained"
        using that D(7) by (auto simp: r split: if_splits dest: notin_set_remove1)
      have "\<not> last" if "j = i"
      proof
        assume "last"
        have "\<not> up_closed p" using j(1) D(9) by auto
        then have "ct_draining (up_store p i)" using D(11) [of i] D(8) [OF j(1)] D(6) [OF i] that by auto
        with \<open>last\<close> j(2) that show False by (simp add: drained_def)
      qed
      then show ?thesis using D(8) [OF j(1)] by (auto simp: held ids)
    qed
    show "j \<in> cached_ids (release_transport i p) \<or> j \<in> set (up_draining (release_transport i p))"
      if "\<not> up_closed (release_transport i p)" "j \<in># held - {#i#}" for j
    proof -
      have "\<not> up_closed p" using that by (simp add: r)
      with D(10) [of j] that have "j \<in> cached_ids p \<or> j \<in> set (up_draining p)" "j = i \<longrightarrow> \<not> drained"
        by (auto simp: held drained_def)
      then show ?thesis by (cases drained) (auto simp: ids r in_set_remove1)
    qed
    show "ct_idle_closed (up_store (release_transport i p) j)"
      if "j \<notin># held - {#i#}" "j \<notin> cached_ids (release_transport i p)" for j
    proof (cases "j = i")
      case True
      then have "last" using that i by (auto simp: held)
      then show ?thesis using True that D(11) [of i] D(6) [OF i] by (auto simp: ids) (auto simp: r drained_def)
    next
      case False
      then show ?thesis using that D(12) [of j] by (auto simp: ids held) (simp add: r)
    qed
  qed (use D in \<open>auto simp: r cached_ids_def dest: in_diffD\<close>)
qed

lemma fold_close_idle:
  "fold close_idle is p = p\<lparr>up_store := (\<lambda>j. if j \<in> set is then (up_store p j)\<lparr>ct_idle_closed := True\<rparr> else up_store p j)\<rparr>"
  by (induction "is" arbitrary: p) (auto simp: close_idle_def fun_eq_iff)

lemma close_ok:
  assumes ok: "pool_ok (p, held)"
  shows "pool_ok (close_transports p, held)"
proof -
  note D = pool_okD [OF ok]
  have ids: "cached_ids (close_transports p) = {}" by (simp add: close_transports_def fold_close_idle cached_ids_def)
  show ?thesis
  proof (rule pool_okI)
    show "ct_idle_closed (up_store (close_transports p) i)" if "i \<notin># held" for i
      using D(12) [OF that] by (auto simp: close_transports_def fold_close_idle cached_ids_def)
  qed (use D in \<open>auto simp: close_transports_def fold_close_idle\<close>)
qed

lemma pool_step_ok: "pool_step s t \<Longrightarrow> pool_ok s \<Longrightarrow> pool_ok t"
  by (induction rule: pool_step.induct)
    (auto simp: acquire_ok mark_used_ok release_ok close_ok dest: refused_closed)

text \<open>C24. The pool under every sequence of requests, releases and closings: at most 64 transports are
  cached, under distinct keys; every transport in use is cached or draining, so that its release
  finds it, and is counted once per request; a draining transport is in use; and one that nobody
  uses any more and that the cache does not hold has had its idle connections closed since its last
  use, so no connection is leaked, not even by requests that outlive the closing of the handler.\<close>

theorem pool_invariant:
  assumes "pool_step\<^sup>*\<^sup>* (empty_pool, {#}) (p, held)"
  shows "length (up_transports p) \<le> 64 \<and> distinct (map fst (up_transports p)) \<and>
    (\<forall>i. ct_active (up_store p i) = count held i) \<and>
    (\<not> up_closed p \<longrightarrow> (\<forall>i. i \<in># held \<longrightarrow> i \<in> cached_ids p \<or> i \<in> set (up_draining p))) \<and>
    (\<forall>i \<in> set (up_draining p). i \<in># held \<and> i \<notin> cached_ids p) \<and>
    (\<forall>i. i \<notin># held \<and> i \<notin> cached_ids p \<longrightarrow> ct_idle_closed (up_store p i))"
proof -
  have start: "pool_ok (empty_pool, {#})" by (simp add: pool_ok_def empty_pool_def cached_ids_def)
  have "pool_ok (p, held)"
    using assms by (induction rule: rtranclp_induct) (auto simp: start pool_step_ok)
  note D = pool_okD [OF this]
  show ?thesis using D(1,2,5,8,10,12) by blast
qed

text \<open>C25. A request uses a transport of its own destination only: whatever was acquired before, the
  transport that \<open>acquireUpstreamTransport\<close> returns dials the address that was resolved and
  checked for this request, on its port.\<close>

theorem acquired_transport_pinned:
  assumes "pool_step\<^sup>*\<^sup>* (empty_pool, {#}) (p, held)"
    and "acquire_transport now scheme host ip port p = (Some i, p')"
  shows "transport_dials (up_store p' i) = dial_address (ip_unmap ip) port \<and>
    uk_host (ct_key (up_store p' i)) = to_lower (trim_suffix host ''.'')"
proof -
  have start: "pool_ok (empty_pool, {#})" by (simp add: pool_ok_def empty_pool_def cached_ids_def)
  have "pool_ok (p, held)"
    using assms(1) by (induction rule: rtranclp_induct) (auto simp: start pool_step_ok)
  from acquire_ok(2) [OF this assms(2)] show ?thesis by (simp add: transport_dials_def upstream_key_for_def)
qed


subsection \<open>Examples\<close>

definition example_ip :: ip_addr where "example_ip = Ip4 0x5DB8D822"

lemma example_acquire:
  "\<exists>p. acquire_transport 0 ''https'' ''example.com.'' example_ip 443 empty_pool = (Some 0, p)"
  by (simp add: acquire_transport_def transport_locked_def empty_pool_def)

theorem pool_invariant_witness:
  "\<exists>p. pool_step\<^sup>*\<^sup>* (empty_pool, {#}) (release_transport 0 p, {#}) \<and>
     ct_active (up_store (release_transport 0 p) 0) = 0"
proof -
  obtain p where p: "acquire_transport 0 ''https'' ''example.com.'' example_ip 443 empty_pool = (Some 0, p)"
    using example_acquire by blast
  have "pool_step\<^sup>*\<^sup>* (empty_pool, {#}) (p, {#0#})"
    using pool_step.acquired [OF p, of "{#}"] by (rule r_into_rtranclp)
  also have "pool_step (p, {#0#}) (release_transport 0 p, {#})"
    using pool_step.released [of 0 "{#0#}" p] by simp
  finally have run: "pool_step\<^sup>*\<^sup>* (empty_pool, {#}) (release_transport 0 p, {#})" .
  with pool_invariant [OF run] show ?thesis by auto
qed

theorem acquired_transport_pinned_witness:
  "\<exists>p. acquire_transport 0 ''https'' ''example.com.'' example_ip 443 empty_pool = (Some 0, p) \<and>
     transport_dials (up_store p 0) = dial_address example_ip 443"
proof -
  obtain p where p: "acquire_transport 0 ''https'' ''example.com.'' example_ip 443 empty_pool = (Some 0, p)"
    using example_acquire by blast
  from acquired_transport_pinned [OF rtranclp.rtrancl_refl p] p show ?thesis
    by (auto simp: example_ip_def)
qed

end
