(* ===== verification/Flow_Recorder.thy ===== *)
theory Flow_Recorder
  imports Capture Flow_Store "HOL-Library.Multiset"
begin

text \<open>
  The recording of flows (\<open>internal/proxy/proxy.go\<close>: \<open>recordFlow\<close> and its workers, and
  \<open>Handler.Close\<close> in \<open>transport.go\<close>). Every finished flow is submitted to a bounded channel
  that workers empty; a flow that finds the channel full is dropped and counted, a denied one only
  after it has waited. Closing the handler stops submissions, waits for those under way, and then
  closes the channel. Submitters, workers and \<open>Close\<close> interleave, so this is a step relation: each
  step is one critical section or one channel operation.
\<close>

definition default_record_queue_capacity :: nat where "default_record_queue_capacity = 256"
definition default_record_worker_count :: nat where "default_record_worker_count = 4"

definition record_queue_capacity :: "int \<Rightarrow> nat" where
  "record_queue_capacity configured = (if 0 < configured then nat configured else default_record_queue_capacity)"

definition record_worker_count :: "int \<Rightarrow> nat" where
  "record_worker_count configured = (if 0 < configured then nat configured else default_record_worker_count)"

subsection \<open>The work of a worker\<close>

text \<open>\<open>recordFlowJob\<close>: the flow is sanitized, stored, and handed to the recorder with the identifier
  that the store gave it. \<open>store\<close> is \<open>Store.Add\<close> on the store's state, absent without a store.\<close>

definition sanitize_flow :: "secret_broker option \<Rightarrow> flow \<Rightarrow> flow" where
  "sanitize_flow broker item = (case broker of
     None \<Rightarrow> item
   | Some _ \<Rightarrow> item\<lparr>fl_path := sanitize_text broker (fl_path item), fl_reason := sanitize_text broker (fl_reason item),
       fl_trace := map (\<lambda>s. s\<lparr>ps_detail := sanitize_text broker (ps_detail s)\<rparr>) (fl_trace item)\<rparr>)"

definition record_flow_job :: "secret_broker option \<Rightarrow> (flow \<Rightarrow> 's \<Rightarrow> (string, flow) result \<times> 's) option
    \<Rightarrow> flow \<Rightarrow> 's \<Rightarrow> flow \<times> 's" where
  "record_flow_job broker store item s =
    (let item = sanitize_flow broker item in
     case store of None \<Rightarrow> (item, s)
     | Some f \<Rightarrow> (case f item s of (Inl _, s) \<Rightarrow> (item, s) | (Inr stored, s) \<Rightarrow> (stored, s)))"

subsection \<open>Submission, workers and closing\<close>

text \<open>The channel and the goroutines around it. \<open>rr_submitting\<close> are the flows of calls between
  \<open>recordSubmitWG.Add\<close> and \<open>Done\<close>, \<open>rr_working\<close> those that workers have received,
  \<open>rr_panicked\<close> a send on the closed channel. \<open>rr_accepted\<close> lists the flows of all calls that
  were not turned away by the closed handler.\<close>

record recorder =
  rr_closed :: bool
  rr_queue :: "flow list option"
  rr_channel_closed :: bool
  rr_submitting :: "flow multiset"
  rr_working :: "flow multiset"
  rr_recorded :: "flow multiset"
  rr_dropped :: "flow multiset"
  rr_accepted :: "flow multiset"
  rr_panicked :: bool

definition recorder_start :: recorder where
  "recorder_start = \<lparr>rr_closed = False, rr_queue = None, rr_channel_closed = False, rr_submitting = {#},
     rr_working = {#}, rr_recorded = {#}, rr_dropped = {#}, rr_accepted = {#}, rr_panicked = False\<rparr>"

text \<open>The critical section of \<open>recordFlow\<close>: the channel is made at the first call.\<close>

definition submit_flow :: "flow \<Rightarrow> recorder \<Rightarrow> recorder" where
  "submit_flow item r =
    (if rr_closed r then r
     else r\<lparr>rr_queue := (case rr_queue r of None \<Rightarrow> Some [] | Some q \<Rightarrow> Some q),
            rr_submitting := add_mset item (rr_submitting r), rr_accepted := add_mset item (rr_accepted r)\<rparr>)"

text \<open>The send, and giving it up.\<close>

definition enqueue_flow :: "flow \<Rightarrow> recorder \<Rightarrow> recorder" where
  "enqueue_flow item r = (let r = r\<lparr>rr_submitting := rr_submitting r - {#item#}\<rparr> in
     if rr_channel_closed r then r\<lparr>rr_panicked := True\<rparr>
     else r\<lparr>rr_queue := map_option (\<lambda>q. q @ [item]) (rr_queue r)\<rparr>)"

definition drop_flow :: "flow \<Rightarrow> recorder \<Rightarrow> recorder" where
  "drop_flow item r = r\<lparr>rr_submitting := rr_submitting r - {#item#}, rr_dropped := add_mset item (rr_dropped r)\<rparr>"

inductive record_step :: "int \<Rightarrow> int \<Rightarrow> recorder \<Rightarrow> recorder \<Rightarrow> bool" for cap workers where
  submit: "record_step cap workers r (submit_flow item r)"
| enqueue: "item \<in># rr_submitting r \<Longrightarrow> rr_queue r = Some q \<Longrightarrow> length q < record_queue_capacity cap \<Longrightarrow>
    record_step cap workers r (enqueue_flow item r)"
| overflow: "item \<in># rr_submitting r \<Longrightarrow> rr_queue r = Some q \<Longrightarrow> record_queue_capacity cap \<le> length q \<Longrightarrow>
    fl_decision item \<noteq> ''denied'' \<Longrightarrow> record_step cap workers r (drop_flow item r)"
| timeout: "item \<in># rr_submitting r \<Longrightarrow> fl_decision item = ''denied'' \<Longrightarrow> record_step cap workers r (drop_flow item r)"
| receive: "rr_queue r = Some (item # q) \<Longrightarrow> size (rr_working r) < record_worker_count workers \<Longrightarrow>
    record_step cap workers r (r\<lparr>rr_queue := Some q, rr_working := add_mset item (rr_working r)\<rparr>)"
| recorded: "item \<in># rr_working r \<Longrightarrow>
    record_step cap workers r (r\<lparr>rr_working := rr_working r - {#item#}, rr_recorded := add_mset item (rr_recorded r)\<rparr>)"
| close_begin: "record_step cap workers r (r\<lparr>rr_closed := True\<rparr>)"
| close_channel: "rr_closed r \<Longrightarrow> rr_submitting r = {#} \<Longrightarrow> record_step cap workers r (r\<lparr>rr_channel_closed := True\<rparr>)"

definition queued :: "recorder \<Rightarrow> flow list" where
  "queued r = (case rr_queue r of None \<Rightarrow> [] | Some q \<Rightarrow> q)"

definition recorder_ok :: "int \<Rightarrow> int \<Rightarrow> recorder \<Rightarrow> bool" where
  "recorder_ok cap workers r \<longleftrightarrow> \<not> rr_panicked r \<and> length (queued r) \<le> record_queue_capacity cap \<and>
     size (rr_working r) \<le> record_worker_count workers \<and>
     (rr_channel_closed r \<longrightarrow> rr_closed r \<and> rr_submitting r = {#}) \<and>
     (rr_submitting r \<noteq> {#} \<longrightarrow> rr_queue r \<noteq> None) \<and>
     rr_accepted r = rr_submitting r + mset (queued r) + rr_working r + rr_recorded r + rr_dropped r"

lemma record_step_ok:
  "record_step cap workers r s \<Longrightarrow> recorder_ok cap workers r \<Longrightarrow> recorder_ok cap workers s"
proof (induction rule: record_step.induct)
  case (submit r item)
  then show ?case by (auto simp: recorder_ok_def submit_flow_def queued_def split: option.splits)
next
  case (enqueue item r q)
  then obtain s where s: "rr_submitting r = add_mset item s" by (auto dest: multi_member_split)
  with enqueue show ?case by (auto simp: recorder_ok_def enqueue_flow_def queued_def)
next
  case (overflow item r q)
  then obtain s where s: "rr_submitting r = add_mset item s" by (auto dest: multi_member_split)
  with overflow show ?case by (auto simp: recorder_ok_def drop_flow_def queued_def)
next
  case (timeout item r)
  then obtain s where s: "rr_submitting r = add_mset item s" by (auto dest: multi_member_split)
  with timeout show ?case by (auto simp: recorder_ok_def drop_flow_def queued_def)
next
  case (receive r item q)
  then show ?case by (auto simp: recorder_ok_def queued_def)
next
  case (recorded item r)
  then obtain s where s: "rr_working r = add_mset item s" by (auto dest: multi_member_split)
  with recorded show ?case by (auto simp: recorder_ok_def queued_def)
next
  case (close_begin r)
  then show ?case by (auto simp: recorder_ok_def queued_def)
next
  case (close_channel r)
  then show ?case by (auto simp: recorder_ok_def queued_def)
qed



end
