(* ===== verification/Proxy_Handler.thy ===== *)
theory Proxy_Handler
  imports Streaming Web_Socket Upstream_Pool Flow_Recorder
begin

text \<open>
  The handler of the gateway (\<open>internal/proxy/proxy.go\<close>, \<open>http2.go\<close>): one proxy request from
  authentication to its reply, and the requests inside an intercepted session. The network is an
  argument: a record of the results that dialing, transports, writers and random numbers give, and
  every use of an upstream connection is listed in the result. The state of the OAuth broker, which
  token responses change, is passed along. Time stamps and log messages are left out.
\<close>

text \<open>The handler with its policies: the configured one and the one that \<open>SetPolicy\<close> stored last.\<close>

record 'o proxy = "'o handler" +
  px_policy :: "policy option"
  px_reloaded :: "policy option"
  px_resolver :: "(string \<Rightarrow> (string, ip_addr) result) option"
  px_interceptor :: bool

definition set_policy :: "policy option \<Rightarrow> ('o, 'z) proxy_scheme \<Rightarrow> ('o, 'z) proxy_scheme" where
  "set_policy policy h = h\<lparr>px_reloaded := policy\<rparr>"

definition policy_in_force :: "('o, 'z) proxy_scheme \<Rightarrow> policy option" where
  "policy_in_force h = (case px_reloaded h of Some f \<Rightarrow> Some f | None \<Rightarrow> px_policy h)"

record tunnel_network =
  tn_dial :: "(string, unit) result"
  tn_hijack :: "(string, unit) result"
  tn_acknowledge :: "(string, unit) result"
  tn_first :: "string \<times> int \<times> string option"
  tn_second :: "string \<times> int \<times> string option"

record network =
  nw_session_id :: "string option"
  nw_lookup :: "string \<Rightarrow> (string, ip_addr list) result"
  nw_tunnel :: tunnel_network
  nw_round_trip :: "request \<Rightarrow> (string, response) result \<times> int"
  nw_codecs :: stream_codecs
  nw_down :: "string list \<Rightarrow> string \<Rightarrow> string option"
  nw_stream_close :: "string list \<Rightarrow> string option"
  nw_pulled :: int
  nw_received :: int
  nw_head :: "string option"
  nw_chunk_close :: "string option"
  nw_trailer :: "string option"
  nw_write :: "response \<Rightarrow> int \<times> string option"
  nw_sha1 :: "string \<Rightarrow> string"
  nw_inflate :: "string \<Rightarrow> stream"
  nw_digest :: "string \<Rightarrow> string"
  nw_socket :: ws_network

datatype upstream_call =
    Tunnel_To (call_ip: ip_addr) (call_port: int)
  | Request_To (call_ip: ip_addr) (call_port: int) (call_request: request)
  | Socket_To (call_ip: ip_addr) (call_port: int) (call_request: request)

datatype reply =
    Error_Reply int headers string
  | Response_Reply response
  | Stream_Reply int headers "string list"
  | Taken_Over

text \<open>The result of serving: the flow to record, what is sent to the client, the uses of upstream
  connections, and for a request inside a session whether its connection is closed.\<close>

record 'o served =
  sv_flow :: flow
  sv_reply :: reply
  sv_calls :: "upstream_call list"
  sv_close :: bool
  sv_state :: 'o

definition finish_flow :: "int \<Rightarrow> int \<Rightarrow> int \<Rightarrow> string \<Rightarrow> flow \<Rightarrow> flow" where
  "finish_flow status sent received reason item =
    item\<lparr>fl_status := status, fl_sent := sent, fl_received := received, fl_reason := reason\<rparr>"

subsection \<open>Upstream\<close>

definition handler_resolve :: "('o, 'z) proxy_scheme \<Rightarrow> network \<Rightarrow> string \<Rightarrow> (string, ip_addr) result" where
  "handler_resolve h net host = (case px_resolver h of
     Some r \<Rightarrow> r host
   | None \<Rightarrow>
       (case nw_lookup net host of
          Inl e \<Rightarrow> Inl (''resolve destination: '' @ e)
        | Inr addrs \<Rightarrow> wrap_error (\<lambda>_. ''destination has no permitted public address'') (resolve (Some addrs))))"

text \<open>\<open>roundTrip\<close>: the request that is sent, and the bytes of its body that were.\<close>

definition upstream_request :: "request \<Rightarrow> int \<Rightarrow> string \<Rightarrow> request" where
  "upstream_request r port scheme =
    r\<lparr>rq_url := map_option (\<lambda>u. u\<lparr>u_scheme := scheme, u_host := destination_authority (rq_host r) port scheme\<rparr>) (rq_url r),
      rq_header := header_del ''Proxy-Connection'' (remove_hop_headers (rq_header r)), rq_close := False\<rparr>"

definition round_trip :: "network \<Rightarrow> request \<Rightarrow> ip_addr \<Rightarrow> int \<Rightarrow> string
    \<Rightarrow> (string, response) result \<times> int \<times> upstream_call list" where
  "round_trip net r ip port scheme =
    (let out = upstream_request r port scheme; (resp, sent) = nw_round_trip net out in
     (resp, sent, [Request_To ip port out]))"

definition tunnel :: "network \<Rightarrow> ip_addr \<Rightarrow> int \<Rightarrow> flow \<Rightarrow> flow \<times> reply \<times> upstream_call list" where
  "tunnel net ip port item =
    (let t = nw_tunnel net; call = [Tunnel_To ip port] in
     case tn_dial t of
       Inl e \<Rightarrow> (finish_flow 502 0 0 (safe_reason e) item, Error_Reply 502 [] ''upstream connection failed'', call)
     | Inr _ \<Rightarrow>
     case tn_hijack t of
       Inl e \<Rightarrow> (finish_flow 500 0 0 (safe_reason e) item, Error_Reply 500 [] ''connection hijacking unavailable'', call)
     | Inr _ \<Rightarrow>
     case tn_acknowledge t of
       Inl e \<Rightarrow> (finish_flow 200 0 0 (safe_reason e) item, Taken_Over, call)
     | Inr _ \<Rightarrow>
       let (d1, n1, e1) = tn_first t; (d2, n2, e2) = tn_second t;
           sent = (if d2 = ''upload'' then n2 else if d1 = ''upload'' then n1 else 0);
           received = (if d2 \<noteq> ''upload'' then n2 else if d1 \<noteq> ''upload'' then n1 else 0);
           reason = (case e1 of None \<Rightarrow> []
             | Some e \<Rightarrow> if has_suffix e ''use of closed network connection'' then [] else safe_reason e) in
       (finish_flow 200 sent received reason item, Taken_Over, call))"

subsection \<open>Plain HTTP\<close>

text \<open>\<open>forwardHTTP\<close>: the response is streamed or mediated, then copied to the client. The flow, the
  reply, the calls and the state of the OAuth broker.\<close>

definition forward_stream :: "('o, 'z) proxy_scheme \<Rightarrow> 'o \<Rightarrow> network \<Rightarrow> response \<Rightarrow> int \<Rightarrow> string \<Rightarrow> string \<Rightarrow> flow
    \<Rightarrow> flow \<times> reply" where
  "forward_stream h s net resp sent client host item =
    (case prepare_streaming_response h (hd_secrets h s) resp client host item of
       (item, Inl e) \<Rightarrow>
         (finish_flow 502 sent 0 (safe_reason e) (trace_step ''response-streaming'' ''fail'' (safe_reason e) item),
          Error_Reply 502 [] ''upstream response failed mediation'')
     | (item, Inr (resp, encoding, sse)) \<Rightarrow>
         let header = copy_streaming_response_headers [] resp;
             resp = resp\<lparr>rs_header := remove_hop_headers (rs_header resp)\<rparr>;
             (item, records, err) = stream_response_body h (nw_codecs net) (hd_secrets h s) resp encoding sse client host
               (nw_down net) (nw_stream_close net) (nw_pulled net) item;
             (resp, names) = scrub_response_metadata (hd_secrets h s) resp client host;
             item = item\<lparr>fl_response_secrets := merge_names [fl_response_secrets item, names]\<rparr>;
             reply = Stream_Reply (rs_code resp) (copy_response_trailers header resp) records in
         (case err of
            Some e \<Rightarrow> (finish_flow (rs_code resp) sent (nw_received net) (safe_reason e)
              (trace_step ''response-streaming'' ''fail'' (safe_reason e) item), reply)
          | None \<Rightarrow> (finish_flow (rs_code resp) sent (nw_received net) []
              (trace_step ''response-streaming'' ''pass'' ''records scrubbed and flushed incrementally'' item), reply)))"

definition forward_http :: "('o, 'z) proxy_scheme \<Rightarrow> 'o \<Rightarrow> network \<Rightarrow> request \<Rightarrow> ip_addr \<Rightarrow> int \<Rightarrow> string \<Rightarrow> string
    \<Rightarrow> flow \<Rightarrow> flow \<times> reply \<times> upstream_call list \<times> 'o" where
  "forward_http h s net r ip port client host item =
    (case round_trip net r ip port ''http'' of
       (Inl e, sent, calls) \<Rightarrow>
         (finish_flow 502 sent 0 (safe_reason e) item, Error_Reply 502 [] ''upstream request failed'', calls, s)
     | (Inr resp, sent, calls) \<Rightarrow>
         let item = item\<lparr>fl_upstream := protocol_label (rs_major resp) (rs_minor resp)\<rparr> in
         if fst (should_stream_response (rq_method r) (rs_code resp) (header_get (rs_header resp) ''Content-Type'')) then
           let (item, reply) = forward_stream h s net resp sent client host item in (item, reply, calls, s)
         else
           (case mediate_response h s resp client host item of
              (item, Inl (Mediation_Error _ e), s) \<Rightarrow>
                (finish_flow 502 sent 0 (safe_reason e) (trace_step ''response-scrubbing'' ''fail'' (safe_reason e) item),
                 Error_Reply 502 [] ''upstream response failed mediation'', calls, s)
            | (item, Inr resp, s) \<Rightarrow>
                let item = trace_step ''response-scrubbing'' ''pass'' (secret_trace_detail (fl_response_secrets item)) item;
                    resp = resp\<lparr>rs_header := copy_headers [] (remove_hop_headers (rs_header resp))\<rparr>;
                    (received, err) = nw_write net resp in
                (finish_flow (rs_code resp) sent received (case err of None \<Rightarrow> [] | Some e \<Rightarrow> safe_reason e) item,
                 Response_Reply resp, calls, s)))"

subsection \<open>Requests inside an intercepted session\<close>

text \<open>The checks that come first for HTTP/1.1 and HTTP/2 alike: the authority, the policy in force
  now, and the address of the destination. A refusal is a status and a reason.\<close>

definition check_destination :: "('o, 'z) proxy_scheme \<Rightarrow> network \<Rightarrow> request \<Rightarrow> client \<Rightarrow> string \<Rightarrow> int \<Rightarrow> string \<Rightarrow> flow
    \<Rightarrow> flow \<times> (int \<times> string, client \<times> ip_addr) result" where
  "check_destination h net req identity host port authority item =
    (case validate_intercepted_request req host port of
       Inl e \<Rightarrow> (trace_step ''request-authority'' ''fail'' (safe_reason e) item, Inl (421, safe_reason e))
     | Inr _ \<Rightarrow>
     let item = trace_step ''request-authority'' ''pass'' authority item;
         refused = (let reason = ''destination is no longer allowed by client policy'' in
           (trace_step ''destination-acl'' ''fail'' reason item, Inl (403, reason))) in
     case current_client (policy_in_force h) identity of
       None \<Rightarrow> refused
     | Some current \<Rightarrow>
         if \<not> allows current host port then refused
         else
           let item = trace_step ''destination-acl'' ''pass'' (destination_policy_detail current) item in
           case handler_resolve h net host of
             Inl e \<Rightarrow> (trace_step ''destination-ip'' ''fail'' (safe_reason e) item, Inl (403, safe_reason e))
           | Inr ip \<Rightarrow> (trace_step ''destination-ip'' ''pass'' (ip_text ip) (item\<lparr>fl_destination := ip_text ip\<rparr>),
               Inr (current, ip)))"

text \<open>What remains of a response that is not streamed: header mediation or full mediation.\<close>

definition mediate_session_response :: "('o, 'z) proxy_scheme \<Rightarrow> 'o \<Rightarrow> bool \<Rightarrow> response \<Rightarrow> string \<Rightarrow> string \<Rightarrow> flow
    \<Rightarrow> flow \<times> (string, response) result \<times> 'o" where
  "mediate_session_response h s inspect resp client host item =
    (if inspect then
       let (item, resp) = inspect_response h (hd_secrets h s) resp client host item in
       (trace_step ''response-passthrough'' ''pass'' ''response body streamed without buffering'' item, Inr resp, s)
     else
       case mediate_response h s resp client host item of
         (item, Inl (Mediation_Error _ e), s) \<Rightarrow>
           (trace_step ''response-scrubbing'' ''fail'' (safe_reason e) item, Inl (safe_reason e), s)
       | (item, Inr resp, s) \<Rightarrow>
           (trace_step ''response-scrubbing'' ''pass'' (secret_trace_detail (fl_response_secrets item)) item, Inr resp, s))"

definition refuse :: "'o \<Rightarrow> upstream_call list \<Rightarrow> flow \<Rightarrow> int \<Rightarrow> int \<Rightarrow> string \<Rightarrow> string \<Rightarrow> 'o served" where
  "refuse s calls item status sent reason message =
    \<lparr>sv_flow = finish_flow status sent 0 reason item, sv_reply = Error_Reply status [] message,
     sv_calls = calls, sv_close = True, sv_state = s\<rparr>"

text \<open>A streamed response of an HTTP/1.1 session.\<close>

definition session_stream :: "('o, 'z) proxy_scheme \<Rightarrow> 'o \<Rightarrow> network \<Rightarrow> request \<Rightarrow> response \<Rightarrow> int \<Rightarrow> upstream_call list
    \<Rightarrow> string \<Rightarrow> string \<Rightarrow> flow \<Rightarrow> 'o served" where
  "session_stream h s net req resp sent calls client host item =
    (let resp = resp\<lparr>rs_close := (rq_close req \<or> rs_close resp)\<rparr> in
     case prepare_streaming_response h (hd_secrets h s) resp client host item of
       (item, Inl e) \<Rightarrow>
         refuse s calls (trace_step ''response-streaming'' ''fail'' (safe_reason e) item) 502 sent (safe_reason e) (safe_reason e)
     | (item, Inr (resp, encoding, sse)) \<Rightarrow>
         let (status, header) = http1_streaming_head resp; resp = resp\<lparr>rs_header := header\<rparr> in
         case nw_head net of
           Some e \<Rightarrow> \<lparr>sv_flow = finish_flow (rs_code resp) sent 0 (safe_reason e) item,
             sv_reply = Stream_Reply status header [], sv_calls = calls, sv_close = True, sv_state = s\<rparr>
         | None \<Rightarrow>
         let (item, records, err) = stream_response_body h (nw_codecs net) (hd_secrets h s) resp encoding sse client host
               (nw_down net) (nw_stream_close net) (nw_pulled net) item;
             (resp', names) = scrub_response_metadata (hd_secrets h s) resp client host;
             item = item\<lparr>fl_response_secrets := merge_names [fl_response_secrets item, names]\<rparr>;
             reply = Stream_Reply status header records in
         case concat (map (\<lambda>e. case e of None \<Rightarrow> [] | Some e \<Rightarrow> [e]) [err, nw_chunk_close net, nw_trailer net]) of
           e # _ \<Rightarrow> \<lparr>sv_flow = finish_flow (rs_code resp) sent (nw_received net) (safe_reason e)
               (trace_step ''response-streaming'' ''fail'' (safe_reason e) item),
             sv_reply = reply, sv_calls = calls, sv_close = True, sv_state = s\<rparr>
         | [] \<Rightarrow> \<lparr>sv_flow = finish_flow (rs_code resp) sent (nw_received net) []
               (trace_step ''response-streaming'' ''pass'' ''records scrubbed and flushed incrementally'' item),
             sv_reply = reply, sv_calls = calls, sv_close = rs_close resp, sv_state = s\<rparr>)"

text \<open>A response of an HTTP/1.1 session.\<close>

definition session_response :: "('o, 'z) proxy_scheme \<Rightarrow> 'o \<Rightarrow> network \<Rightarrow> request \<Rightarrow> response \<Rightarrow> bool \<Rightarrow> int
    \<Rightarrow> upstream_call list \<Rightarrow> string \<Rightarrow> string \<Rightarrow> flow \<Rightarrow> 'o served" where
  "session_response h s net req resp inspect sent calls client host item =
    (if fst (should_stream_response (rq_method req) (rs_code resp) (header_get (rs_header resp) ''Content-Type'')) \<and> \<not> inspect
     then session_stream h s net req resp sent calls client host item
     else
       case mediate_session_response h s inspect resp client host item of
         (item, Inl reason, s) \<Rightarrow> refuse s calls item 502 sent reason reason
       | (item, Inr resp, s) \<Rightarrow>
           let resp = resp\<lparr>rs_header := remove_hop_headers (rs_header resp), rs_close := rq_close req,
                 rs_major := 1, rs_minor := 1\<rparr>;
               resp = frame_streamed_response req resp;
               (received, err) = nw_write net resp in
           \<lparr>sv_flow = finish_flow (rs_code resp) sent received (case err of None \<Rightarrow> [] | Some e \<Rightarrow> safe_reason e) item,
            sv_reply = Response_Reply resp, sv_calls = calls,
            sv_close = (err \<noteq> None \<or> rq_close req \<or> rs_close resp), sv_state = s\<rparr>)"

text \<open>A WebSocket session, which takes the connection over.\<close>

definition session_socket :: "('o, 'z) proxy_scheme \<Rightarrow> 'o \<Rightarrow> network \<Rightarrow> request \<Rightarrow> string \<Rightarrow> string \<Rightarrow> int \<Rightarrow> ip_addr
    \<Rightarrow> flow \<Rightarrow> 'o served" where
  "session_socket h s net req client host port ip item =
    (let calls = (case validate_web_socket_request req of Inl _ \<Rightarrow> [] | Inr _ \<Rightarrow> [Socket_To ip port (upgrade_request req port)]) in
     case proxy_web_socket h (hd_secrets h s) (nw_sha1 net) (nw_inflate net) (nw_digest net) (nw_socket net)
         req client host port item of
       (item, failed, status, sent, received, reason) \<Rightarrow>
         \<lparr>sv_flow = finish_flow status sent received reason item,
          sv_reply = (case failed of None \<Rightarrow> Taken_Over | Some (failed_status, message) \<Rightarrow> Error_Reply failed_status [] message),
          sv_calls = calls, sv_close = True, sv_state = s\<rparr>)"

text \<open>\<open>handleInterceptedRequest\<close>.\<close>

definition handle_intercepted_request :: "('o, 'z) proxy_scheme \<Rightarrow> 'o \<Rightarrow> network \<Rightarrow> request \<Rightarrow> client \<Rightarrow> string \<Rightarrow> int
    \<Rightarrow> flow \<Rightarrow> 'o served" where
  "handle_intercepted_request h s net req identity host port item =
    (case check_destination h net req identity host port ''Host matches CONNECT authority and TLS SNI'' item of
       (item, Inl (status, reason)) \<Rightarrow> refuse s [] item status 0 reason reason
     | (item, Inr (current, ip)) \<Rightarrow>
     let no_upgrade = (\<lambda>reason item. refuse s [] (trace_step ''websocket-handshake'' ''fail'' reason item) 400 0 reason reason) in
     if is_unsupported_upgrade req then no_upgrade ''unsupported HTTP upgrade'' item else
     let inspect = (handling_for (hd_secrets h s) current host = Inspect);
         item = (if inspect then item\<lparr>fl_mode := ''inspected''\<rparr> else item) in
     if inspect \<and> is_web_socket_upgrade req
       then no_upgrade ''WebSocket upgrades are not supported on inspect-only hosts'' item else
     case admit_intercepted_request h (hd_secrets h s) req current (c_name identity) host inspect item of
       (item, Inl (Mediation_Error status e)) \<Rightarrow>
         refuse s [] (trace_step ''request-mediation'' ''fail'' (safe_reason e) item) status 0 (safe_reason e) (safe_reason e)
     | (item, Inr req) \<Rightarrow>
     let item = trace_step ''secret-policy'' ''pass'' (secret_trace_detail (fl_secrets item)) item;
         item = trace_step ''request-capture'' ''pass'' ''bounded sanitized capture prepared'' item;
         item = item\<lparr>fl_decision := ''allowed''\<rparr> in
     if is_web_socket_upgrade req
       then session_socket h s net req (c_name identity) host port ip (item\<lparr>fl_mode := ''websocket''\<rparr>) else
     case round_trip net req ip port ''https'' of
       (Inl e, sent, calls) \<Rightarrow>
         let reason = sanitize_text (hd_secrets h s) (safe_reason e) in
         refuse s calls (trace_step ''upstream'' ''fail'' reason item) 502 sent reason ''upstream request failed''
     | (Inr resp, sent, calls) \<Rightarrow>
         let upstream = protocol_label (rs_major resp) (rs_minor resp);
             item = trace_step ''upstream'' ''pass'' (''response received over '' @ upstream) (item\<lparr>fl_upstream := upstream\<rparr>) in
         session_response h s net req resp inspect sent calls (c_name identity) host item)"


text \<open>The handler of an HTTP/2 stream (\<open>interceptHTTP2\<close>).\<close>

definition http2_max_streams :: "('o, 'z) handler_scheme \<Rightarrow> int" where
  "http2_max_streams h = min (max (536870912 div mediation_limit h div 2) 1) 64"

definition http2_response :: "('o, 'z) proxy_scheme \<Rightarrow> 'o \<Rightarrow> network \<Rightarrow> request \<Rightarrow> response \<Rightarrow> bool \<Rightarrow> int
    \<Rightarrow> upstream_call list \<Rightarrow> string \<Rightarrow> string \<Rightarrow> flow \<Rightarrow> 'o served" where
  "http2_response h s net req resp inspect sent calls client host item =
    (if fst (should_stream_response (rq_method req) (rs_code resp) (header_get (rs_header resp) ''Content-Type'')) \<and> \<not> inspect
     then
       (case prepare_streaming_response h (hd_secrets h s) resp client host item of
          (item, Inl e) \<Rightarrow>
            refuse s calls (trace_step ''response-streaming'' ''fail'' (safe_reason e) item) 502 sent (safe_reason e) (safe_reason e)
        | (item, Inr (resp, encoding, sse)) \<Rightarrow>
            let header = copy_streaming_response_headers [] resp;
                resp = resp\<lparr>rs_header := remove_hop_headers (rs_header resp)\<rparr>;
                (item, records, err) = stream_response_body h (nw_codecs net) (hd_secrets h s) resp encoding sse client host
                  (nw_down net) (nw_stream_close net) (nw_pulled net) item;
                (resp, names) = scrub_response_metadata (hd_secrets h s) resp client host;
                item = item\<lparr>fl_response_secrets := merge_names [fl_response_secrets item, names]\<rparr>;
                item = (case err of
                  Some e \<Rightarrow> finish_flow (rs_code resp) sent (nw_received net) (safe_reason e)
                    (trace_step ''response-streaming'' ''fail'' (safe_reason e) item)
                | None \<Rightarrow> finish_flow (rs_code resp) sent (nw_received net) []
                    (trace_step ''response-streaming'' ''pass'' ''records scrubbed and flushed incrementally'' item)) in
            \<lparr>sv_flow = item, sv_reply = Stream_Reply (rs_code resp) (copy_response_trailers header resp) records,
             sv_calls = calls, sv_close = False, sv_state = s\<rparr>)
     else
       case mediate_session_response h s inspect resp client host item of
         (item, Inl reason, s) \<Rightarrow> refuse s calls item 502 sent reason reason
       | (item, Inr resp, s) \<Rightarrow>
           let resp = resp\<lparr>rs_header := copy_response_trailers (copy_streaming_response_headers [] resp) resp\<rparr>;
               (received, err) = nw_write net resp in
           \<lparr>sv_flow = finish_flow (rs_code resp) sent received (case err of None \<Rightarrow> [] | Some e \<Rightarrow> safe_reason e) item,
            sv_reply = Response_Reply resp, sv_calls = calls, sv_close = False, sv_state = s\<rparr>)"

definition handle_http2_request :: "('o, 'z) proxy_scheme \<Rightarrow> 'o \<Rightarrow> network \<Rightarrow> request \<Rightarrow> client \<Rightarrow> string \<Rightarrow> int
    \<Rightarrow> flow \<Rightarrow> 'o served" where
  "handle_http2_request h s net req identity host port item =
    (case check_destination h net req identity host port ''HTTP/2 authority matches CONNECT authority and TLS SNI'' item of
       (item, Inl (status, reason)) \<Rightarrow> refuse s [] item status 0 reason reason
     | (item, Inr (current, ip)) \<Rightarrow>
     let inspect = (handling_for (hd_secrets h s) current host = Inspect);
         item = (if inspect then item\<lparr>fl_mode := ''inspected-h2''\<rparr> else item) in
     case admit_intercepted_request h (hd_secrets h s) req current (c_name identity) host inspect item of
       (item, Inl (Mediation_Error status e)) \<Rightarrow>
         refuse s [] (trace_step ''request-mediation'' ''fail'' (safe_reason e) item) status 0 (safe_reason e) (safe_reason e)
     | (item, Inr req) \<Rightarrow>
     let item = trace_step ''secret-policy'' ''pass'' (secret_trace_detail (fl_secrets item)) item;
         item = trace_step ''request-capture'' ''pass'' ''bounded sanitized capture prepared'' item;
         item = item\<lparr>fl_decision := ''allowed''\<rparr> in
     case round_trip net req ip port ''https'' of
       (Inl e, sent, calls) \<Rightarrow>
         let reason = sanitize_text (hd_secrets h s) (safe_reason e) in
         refuse s calls (trace_step ''upstream'' ''fail'' reason item) 502 sent reason ''upstream request failed''
     | (Inr resp, sent, calls) \<Rightarrow>
         let upstream = protocol_label (rs_major resp) (rs_minor resp);
             item = trace_step ''upstream'' ''pass'' (''response received over '' @ upstream) (item\<lparr>fl_upstream := upstream\<rparr>) in
         http2_response h s net req resp inspect sent calls (c_name identity) host item)"

text \<open>The flow with which a request inside a session starts.\<close>

definition session_flow :: "secret_broker option \<Rightarrow> string \<Rightarrow> string \<Rightarrow> request \<Rightarrow> client \<Rightarrow> string \<Rightarrow> int \<Rightarrow> string \<Rightarrow> flow" where
  "session_flow broker session mode req identity host port downstream = empty_flow\<lparr>fl_session := session,
     fl_downstream := downstream, fl_client := c_name identity, fl_method := rq_method req, fl_scheme := ''https'',
     fl_host := host, fl_port := port, fl_path := sanitize_text broker (sanitized_path (rq_url req)),
     fl_mode := mode, fl_decision := ''denied''\<rparr>"

subsection \<open>Intercepted sessions\<close>

text \<open>What a session reads next: a request, with the handler and the network as they are when it is
  served (the policy may have been reloaded), or the end of the connection.\<close>

datatype ('o, 'z) arrival =
    Ar_Request "('o, 'z) proxy_scheme" network request "string option"
  | Ar_End
  | Ar_Failed string

text \<open>The loop of \<open>intercept\<close> over HTTP/1.1 requests. The last component of an arrival is the error
  of the interim response, if one is due and fails. The result lists what was served, and gives the
  totals and the reason.\<close>

fun intercept_loop :: "client \<Rightarrow> string \<Rightarrow> int \<Rightarrow> string \<Rightarrow> 'o \<Rightarrow> int \<Rightarrow> int \<Rightarrow> ('o, 'z) arrival list
    \<Rightarrow> 'o served list \<times> int \<times> int \<times> string" where
  "intercept_loop identity host port session s sent received [] = ([], sent, received, [])"
| "intercept_loop identity host port session s sent received (Ar_End # as) = ([], sent, received, [])"
| "intercept_loop identity host port session s sent received (Ar_Failed e # as) =
    ([], sent, received, safe_reason (''read intercepted request: '' @ e))"
| "intercept_loop identity host port session s sent received (Ar_Request h net req interim # as) =
    (case (if equal_fold (trim_space (header_get (rq_header req) ''Expect'')) ''100-continue'' then interim else None) of
       Some e \<Rightarrow> ([], sent, received, safe_reason e)
     | None \<Rightarrow>
         let r = handle_intercepted_request h s net req identity host port
               (session_flow (hd_secrets h s) session ''intercepted'' req identity host port
                 (protocol_label (rq_major req) (rq_minor req)));
             sent = sent + fl_sent (sv_flow r); received = received + fl_received (sv_flow r) in
         if sv_close r then ([r], sent, received, fl_reason (sv_flow r))
         else let (rs, sent, received, reason) = intercept_loop identity host port session (sv_state r) sent received as in
           (r # rs, sent, received, reason))"

text \<open>\<open>intercept\<close> up to the requests: taking the connection over, its acknowledgement, the TLS
  configuration for the host and the handshake, which selects the protocol. The streams of an HTTP/2
  session run concurrently; here they take effect in the order of the list.\<close>

record ('o, 'z) interception =
  ic_hijack :: "(string, unit) result"
  ic_acknowledge :: "(string, unit) result"
  ic_tls_config :: "(string, unit) result"
  ic_handshake :: "(string, bool) result"
  ic_requests :: "('o, 'z) arrival list"

fun serve_http2 :: "client \<Rightarrow> string \<Rightarrow> int \<Rightarrow> string \<Rightarrow> 'o \<Rightarrow> ('o, 'z) arrival list \<Rightarrow> 'o served list" where
  "serve_http2 identity host port session s [] = []"
| "serve_http2 identity host port session s (Ar_Request h net req interim # as) =
    (let r = handle_http2_request h s net req identity host port
           (session_flow (hd_secrets h s) session ''intercepted-h2'' req identity host port ''h2'') in
     r # serve_http2 identity host port session (sv_state r) as)"
| "serve_http2 identity host port session s (a # as) = serve_http2 identity host port session s as"

definition intercept :: "('o, 'z) interception \<Rightarrow> 'o \<Rightarrow> client \<Rightarrow> string \<Rightarrow> int \<Rightarrow> string \<Rightarrow> flow
    \<Rightarrow> flow \<times> reply \<times> 'o served list" where
  "intercept i s identity host port session item =
    (case ic_hijack i of
       Inl e \<Rightarrow> (finish_flow 500 0 0 (safe_reason e) item, Error_Reply 500 [] ''connection hijacking unavailable'', [])
     | Inr _ \<Rightarrow>
     case ic_acknowledge i of Inl e \<Rightarrow> (finish_flow 200 0 0 (safe_reason e) item, Taken_Over, []) | Inr _ \<Rightarrow>
     case ic_tls_config i of Inl e \<Rightarrow> (finish_flow 200 0 0 (safe_reason e) item, Taken_Over, []) | Inr _ \<Rightarrow>
     case ic_handshake i of
       Inl e \<Rightarrow> (finish_flow 200 0 0 (safe_reason (''intercept TLS handshake: '' @ e)) item, Taken_Over, [])
     | Inr True \<Rightarrow>
         let rs = serve_http2 identity host port session s (ic_requests i) in
         (finish_flow 200 (sum_list (map (\<lambda>r. fl_sent (sv_flow r)) rs)) (sum_list (map (\<lambda>r. fl_received (sv_flow r)) rs))
            [] item, Taken_Over, rs)
     | Inr False \<Rightarrow>
         let (rs, sent, received, reason) = intercept_loop identity host port session s 0 0 (ic_requests i) in
         (finish_flow 200 sent received reason item, Taken_Over, rs))"

subsection \<open>Proxy requests\<close>

text \<open>The result of a proxy request: its flow and reply, its uses of upstream connections, and the
  requests served inside its session.\<close>

record 'o outcome =
  oc_flow :: flow
  oc_reply :: reply
  oc_calls :: "upstream_call list"
  oc_session :: "'o served list"
  oc_state :: 'o

definition deny :: "'o \<Rightarrow> flow \<Rightarrow> int \<Rightarrow> headers \<Rightarrow> string \<Rightarrow> 'o outcome" where
  "deny s f status headers reason = \<lparr>oc_flow = f\<lparr>fl_reason := reason\<rparr>, oc_reply = Error_Reply status headers reason,
     oc_calls = [], oc_session = [], oc_state = s\<rparr>"

text \<open>A CONNECT to an allowed destination.\<close>

definition serve_connect :: "('o, 'z) proxy_scheme \<Rightarrow> 'o \<Rightarrow> network \<Rightarrow> ('o, 'z) interception \<Rightarrow> client \<Rightarrow> string \<Rightarrow> int
    \<Rightarrow> ip_addr \<Rightarrow> flow \<Rightarrow> 'o outcome" where
  "serve_connect h s net i client host port ip f =
    (let mode = handling_for (hd_secrets h s) client host; opq = (mode = Opaque) in
     if px_interceptor h \<and> \<not> opq then
       let f = f\<lparr>fl_mode := if mode = Inspect then ''inspected-session'' else ''intercepted-session''\<rparr>;
           f = trace_step ''tls-mediation'' ''pass'' (if mode = Inspect
             then ''metadata-only interception selected; bodies stream unmodified''
             else ''HTTP/2 or HTTP/1.1 interception selected'') f;
           (f, reply, served) = intercept i s client host port (fl_session f) f in
       \<lparr>oc_flow = f, oc_reply = reply, oc_calls = [], oc_session = served,
        oc_state = (case rev served of [] \<Rightarrow> s | r # _ \<Rightarrow> sv_state r)\<rparr>
     else if hd_secrets h s \<noteq> None \<and> \<not> opq \<or> mode = Inspect then
       let reason = (if hd_secrets h s = None then ''allowed_rules and inspect_hosts require TLS interception''
             else ''secret broker requires TLS interception'') in
       deny s (trace_step ''tls-mediation'' ''fail'' reason (f\<lparr>fl_decision := ''denied'', fl_status := 503\<rparr>)) 503 [] reason
     else
       let f = trace_step ''tls-mediation'' ''pass'' (if opq then ''opaque tunnel selected by client policy''
             else ''opaque tunnel selected'') (f\<lparr>fl_mode := ''opaque-tunnel''\<rparr>);
           (f, reply, calls) = tunnel net ip port f in
       \<lparr>oc_flow = f, oc_reply = reply, oc_calls = calls, oc_session = [], oc_state = s\<rparr>)"

text \<open>A plain request to an allowed destination.\<close>

definition serve_plain :: "('o, 'z) proxy_scheme \<Rightarrow> 'o \<Rightarrow> network \<Rightarrow> request \<Rightarrow> client \<Rightarrow> string \<Rightarrow> int \<Rightarrow> ip_addr
    \<Rightarrow> flow \<Rightarrow> 'o outcome" where
  "serve_plain h s net r client host port ip f =
    (case enforce_request_rules (hd_secrets h s) r client host f of
       (f, Inl (Mediation_Error status e)) \<Rightarrow>
         deny s (f\<lparr>fl_decision := ''denied'', fl_status := status\<rparr>) status [] (safe_reason e)
     | (f, Inr r) \<Rightarrow>
     case (if hd_secrets h s = None then (empty_flow, Inr r)
           else mediate_request h (hd_secrets h s) r (c_name client) host False empty_flow) of
       (_, Inl (Mediation_Error _ e)) \<Rightarrow>
         deny s (trace_step ''secret-policy'' ''fail'' (safe_reason e) (f\<lparr>fl_decision := ''denied'', fl_status := 403\<rparr>))
           403 [] (safe_reason e)
     | (discarded, Inr r) \<Rightarrow>
     let f = (if hd_secrets h s = None then f
           else trace_step ''secret-policy'' ''pass'' (secret_trace_detail (fl_secrets discarded))
             (f\<lparr>fl_secrets := fl_secrets discarded\<rparr>));
         (f, reply, calls, s) = forward_http h s net r ip port (c_name client) host f;
         f = (if fl_reason f \<noteq> [] then trace_step ''upstream'' ''fail'' (fl_reason f) f
           else trace_step ''upstream'' ''pass'' ''response received'' f) in
     \<lparr>oc_flow = f, oc_reply = reply, oc_calls = calls, oc_session = [], oc_state = s\<rparr>)"

definition proxy_challenges :: headers where
  "proxy_challenges = [(''Proxy-Authenticate'', [''Bearer realm=\"veilgate\"'', ''Basic realm=\"veilgate\"''])]"

text \<open>\<open>ServeHTTP\<close> up to the address of the destination: the outcome of a denied request, or the
  request with its client, destination and flow.\<close>

definition serve_checks :: "('o, 'z) proxy_scheme \<Rightarrow> 'o \<Rightarrow> network \<Rightarrow> request
    \<Rightarrow> ('o outcome, request \<times> client \<times> string \<times> int \<times> ip_addr \<times> flow) result" where
  "serve_checks h s net r =
    (let f = empty_flow\<lparr>fl_method := rq_method r, fl_decision := ''denied'', fl_mode := ''direct'',
           fl_downstream := protocol_label (rq_major r) (rq_minor r)\<rparr> in
     case authenticate_request (policy_in_force h) r of
       (r, None) \<Rightarrow> Inl (deny s (trace_step ''proxy-authentication'' ''fail'' ''credential rejected'' f) 407 proxy_challenges
         ''proxy authentication required'')
     | (r, Some client) \<Rightarrow>
     let f = trace_step ''proxy-authentication'' ''pass'' (''client '' @ c_name client) (f\<lparr>fl_client := c_name client\<rparr>) in
     case request_target r of
       Inl e \<Rightarrow> Inl (deny s (trace_step ''request-target'' ''fail'' (safe_reason e) f) 400 [] (safe_reason e))
     | Inr (host, port, scheme) \<Rightarrow>
     let f = trace_step ''request-target'' ''pass'' (join_host_port host (port_text port))
           (f\<lparr>fl_host := host, fl_port := port, fl_scheme := scheme\<rparr>);
         connect = (rq_method r = ''CONNECT'') in
     if connect \<and> nw_session_id net = None then Inl (deny s f 500 [] ''generate CONNECT session identifier'') else
     let f = (if connect then f\<lparr>fl_session := the (nw_session_id net)\<rparr>
           else if rq_url r \<noteq> None then f\<lparr>fl_path := sanitize_text (hd_secrets h s) (sanitized_path (rq_url r))\<rparr> else f) in
     if \<not> allows client host port then
       Inl (deny s (trace_step ''destination-acl'' ''fail'' ''client policy denied destination'' f) 403 []
         ''destination is not allowed by client policy'')
     else
     let f = trace_step ''destination-acl'' ''pass'' (destination_policy_detail client) f in
     case handler_resolve h net host of
       Inl e \<Rightarrow> Inl (deny s (trace_step ''destination-ip'' ''fail'' (safe_reason e) f) 403 [] (safe_reason e))
     | Inr ip \<Rightarrow>
     let f = trace_step ''destination-ip'' ''pass'' (ip_text ip) (f\<lparr>fl_destination := ip_text ip\<rparr>) in
     Inr (r, client, host, port, ip, f\<lparr>fl_decision := ''allowed''\<rparr>))"

text \<open>\<open>ServeHTTP\<close>.\<close>

definition serve_http :: "('o, 'z) proxy_scheme \<Rightarrow> 'o \<Rightarrow> network \<Rightarrow> ('o, 'z) interception \<Rightarrow> request \<Rightarrow> 'o outcome" where
  "serve_http h s net i r = (case serve_checks h s net r of
     Inl denied \<Rightarrow> denied
   | Inr (r, client, host, port, ip, f) \<Rightarrow>
       if rq_method r = ''CONNECT'' then serve_connect h s net i client host port ip f
       else serve_plain h s net r client host port ip f)"

subsection \<open>Nothing reaches upstream unchecked\<close>

lemma tunnel_calls: "tunnel net ip port f = (f', reply, calls) \<Longrightarrow> calls = [Tunnel_To ip port]"
  by (auto simp: tunnel_def Let_def split: sum.splits prod.splits)

lemma round_trip_calls: "round_trip net r ip port scheme = (resp, sent, calls) \<Longrightarrow> calls = [Request_To ip port (upstream_request r port scheme)]"
  by (auto simp: round_trip_def Let_def split: prod.splits)

lemma forward_http_calls:
  assumes "forward_http h s net r ip port client host f = (f', reply, calls, s')"
  shows "calls = [Request_To ip port (upstream_request r port ''http'')]"
proof -
  obtain resp sent calls0 where t: "round_trip net r ip port ''http'' = (resp, sent, calls0)"
    by (cases "round_trip net r ip port ''http''") auto
  have "calls = calls0" using assms
    by (auto simp: forward_http_def t Let_def split: sum.splits prod.splits mediation_error.splits if_splits)
  with round_trip_calls [OF t] show ?thesis by simp
qed

lemma serve_connect_calls:
  assumes "c \<in> set (oc_calls (serve_connect h s net i client host port ip f))"
  shows "c = Tunnel_To ip port \<and> (handling_for (hd_secrets h s) client host = Opaque \<or>
    handling_for (hd_secrets h s) client host = Full \<and> \<not> px_interceptor h \<and> hd_secrets h s = None)"
  using assms
  by (cases "handling_for (hd_secrets h s) client host")
    (auto simp: serve_connect_def deny_def Let_def split: prod.splits if_splits dest!: tunnel_calls)

lemma serve_plain_calls:
  assumes "c \<in> set (oc_calls (serve_plain h s net r client host port ip f))"
  shows "\<exists>f1 r1 r2. enforce_request_rules (hd_secrets h s) r client host f = (f1, Inr r1) \<and>
    c = Request_To ip port (upstream_request r2 port ''http'') \<and>
    (if hd_secrets h s = None then r2 = r1
     else \<exists>f2. mediate_request h (hd_secrets h s) r1 (c_name client) host False empty_flow = (f2, Inr r2))"
proof -
  obtain f1 e where e: "enforce_request_rules (hd_secrets h s) r client host f = (f1, e)"
    by (cases "enforce_request_rules (hd_secrets h s) r client host f")
  obtain r1 where r1: "e = Inr r1"
    using assms e by (cases e) (auto simp: serve_plain_def deny_def split: mediation_error.splits)
  define m where "m = (if hd_secrets h s = None then (empty_flow, Inr r1)
    else mediate_request h (hd_secrets h s) r1 (c_name client) host False empty_flow)"
  obtain f2 e2 where m2: "m = (f2, e2)" by (cases m)
  obtain r2 where r2: "e2 = Inr r2"
    using assms e r1 m2 by (cases e2) (auto simp: serve_plain_def deny_def m_def [symmetric] split: mediation_error.splits)
  have "c \<in> set (fst (snd (snd (forward_http h s net r2 ip port (c_name client) host
      (if hd_secrets h s = None then f1 else trace_step ''secret-policy'' ''pass'' (secret_trace_detail (fl_secrets f2))
             (f1\<lparr>fl_secrets := fl_secrets f2\<rparr>))))))"
    using assms e r1 m2 r2 by (auto simp: serve_plain_def m_def [symmetric] Let_def split: prod.splits)
  then have "c = Request_To ip port (upstream_request r2 port ''http'')"
    using forward_http_calls by (metis (no_types, lifting) prod.collapse list.set(1) list.set(2) singletonD)
  then show ?thesis using e r1 m2 r2 by (auto simp: m_def split: if_splits)
qed

text \<open>A request that does not carry the credential of the client.\<close>

definition no_proxy_credentials :: "request \<Rightarrow> bool" where
  "no_proxy_credentials r \<longleftrightarrow> header_get (rq_header r) ''Proxy-Authorization'' = []"

lemma upstream_request_clean: "no_proxy_credentials (upstream_request r port scheme)"
proof -
  have "map_of (remove_hop_headers h) (canonical_key ''Proxy-Authorization'') = None" for h
    unfolding remove_hop_headers_def Let_def by (rule headers_del_removed) simp
  then show ?thesis
    by (simp add: no_proxy_credentials_def upstream_request_def header_get_def header_values_def)
qed

lemma upgrade_request_clean: "no_proxy_credentials (upgrade_request req port)"
proof -
  have "canonical_key ''Proxy-Authorization'' = ''Proxy-Authorization''" "canonical_key ''Accept-Encoding'' = ''Accept-Encoding''"
    "canonical_key ''Sec-WebSocket-Extensions'' = ''Sec-Websocket-Extensions''" "canonical_key ''Proxy-Connection'' = ''Proxy-Connection''"
    by (simp_all add: evaluate)
  then show ?thesis
    by (simp add: no_proxy_credentials_def upgrade_request_def header_get_def header_values_def header_set_def Let_def)
qed

text \<open>A request that is served, and what the guards have established by then.\<close>

definition admitted :: "('o, 'z) proxy_scheme \<Rightarrow> network \<Rightarrow> request \<Rightarrow> client \<Rightarrow> string \<Rightarrow> int \<Rightarrow> ip_addr \<Rightarrow> bool" where
  "admitted h net r client host port ip \<longleftrightarrow>
     snd (authenticate_request (policy_in_force h) r) = Some client \<and>
     (\<exists>scheme. request_target (fst (authenticate_request (policy_in_force h) r)) = Inr (host, port, scheme)) \<and>
     allows client host port \<and> handler_resolve h net host = Inr ip"

lemma serve_checks_Inr:
  assumes "serve_checks h s net r = Inr (r', client, host, port, ip, f)"
  shows "admitted h net r client host port ip" and "r' = fst (authenticate_request (policy_in_force h) r)"
    and "rq_method r' = rq_method r" and "fl_decision f = ''allowed''"
proof -
  obtain r1 c where a: "authenticate_request (policy_in_force h) r = (r1, c)"
    by (cases "authenticate_request (policy_in_force h) r")
  have meth: "rq_method r1 = rq_method r"
    using a by (auto simp: authenticate_request_def split: option.splits)
  note unfold = assms [unfolded serve_checks_def a Let_def]
  obtain k where c: "c = Some k" using unfold by (cases c) simp_all
  obtain hs pt sc where t: "request_target r1 = Inr (hs, pt, sc)"
    using unfold c by (cases "request_target r1") auto
  note u1 = unfold [unfolded c t prod.case option.case sum.case]
  have session: "\<not> (rq_method r1 = ''CONNECT'' \<and> nw_session_id net = None)"
  proof
    assume "rq_method r1 = ''CONNECT'' \<and> nw_session_id net = None"
    from u1 [unfolded if_P [OF this]] show False by simp
  qed
  note u2 = u1 [unfolded if_not_P [OF session]]
  have al: "allows k hs pt"
  proof (rule ccontr)
    assume "\<not> allows k hs pt"
    from u2 [unfolded if_P [OF this]] show False by simp
  qed
  then have "\<not> \<not> allows k hs pt" by simp
  note u3 = u2 [unfolded if_not_P [OF this]]
  obtain a where ip: "handler_resolve h net hs = Inr a"
    using u3 by (cases "handler_resolve h net hs") simp_all
  note u4 = u3 [unfolded ip sum.case]
  have r: "r' = r1" "client = k" "host = hs" "port = pt" "ip = a" and "fl_decision f = ''allowed''"
    using u4 by auto
  then show "admitted h net r client host port ip" "r' = fst (authenticate_request (policy_in_force h) r)"
    "rq_method r' = rq_method r" "fl_decision f = ''allowed''"
    using a c t al ip meth by (auto simp: admitted_def)
qed

lemma serve_checks_Inl:
  "serve_checks h s net r = Inl out \<Longrightarrow> oc_calls out = [] \<and> oc_session out = [] \<and> oc_state out = s"
  by (auto simp: serve_checks_def deny_def Let_def split: prod.splits option.splits sum.splits if_splits)

lemma serve_http_cases:
  assumes "oc_calls (serve_http h s net i r) \<noteq> [] \<or> oc_session (serve_http h s net i r) \<noteq> []"
  obtains client host port ip f where "admitted h net r client host port ip"
    and "serve_http h s net i r = (if rq_method r = ''CONNECT'' then serve_connect h s net i client host port ip f
      else serve_plain h s net (fst (authenticate_request (policy_in_force h) r)) client host port ip f)"
    and "fl_decision f = ''allowed''"
proof (cases "serve_checks h s net r")
  case (Inl out)
  then show ?thesis using assms serve_checks_Inl [OF Inl] by (simp add: serve_http_def)
next
  case (Inr x)
  then obtain r' client host port ip f where x: "serve_checks h s net r = Inr (r', client, host, port, ip, f)"
    by (cases x) auto
  note c = serve_checks_Inr [OF x]
  show ?thesis by (rule that [OF c(1) _ c(4)]) (simp add: serve_http_def x c(2) c(3) [symmetric, unfolded c(2)])
qed



subsection \<open>Sessions stay under the policy in force\<close>

lemma check_destination_Inr:
  assumes "check_destination h net req identity host port authority item = (item', Inr (current, ip))"
  shows "validate_intercepted_request req host port = Inr ()"
    and "current_client (policy_in_force h) identity = Some current" and "allows current host port"
    and "handler_resolve h net host = Inr ip"
  using assms
  by (auto simp: check_destination_def Let_def split: sum.splits option.splits if_splits)

lemma check_destination_Inl:
  "check_destination h net req identity host port authority item = (item', Inl (status, reason)) \<Longrightarrow> status = 403 \<or> status = 421"
  by (auto simp: check_destination_def Let_def split: sum.splits option.splits if_splits)

lemma admit_Inr:
  assumes "admit_intercepted_request h broker req current client host inspect item = (item', Inr req')"
  shows "\<exists>item1 req1. enforce_request_rules broker req current host item = (item1, Inr req1)"
  using assms by (auto simp: admit_intercepted_request_def split: prod.splits sum.splits)

lemma refuse_calls [simp]: "sv_calls (refuse s calls item status sent reason message) = calls"
  by (simp add: refuse_def)

lemma session_stream_calls: "sv_calls (session_stream h s net req resp sent calls client host item) = calls"
  by (simp add: session_stream_def Let_def split: prod.split sum.split option.split list.split)

lemma session_response_calls: "sv_calls (session_response h s net req resp inspect sent calls client host item) = calls"
  by (simp add: session_response_def session_stream_calls Let_def split: prod.split sum.split)

lemma http2_response_calls: "sv_calls (http2_response h s net req resp inspect sent calls client host item) = calls"
  by (simp add: http2_response_def Let_def split: prod.split sum.split)

lemma session_socket_calls:
  "c \<in> set (sv_calls (session_socket h s net req client host port ip item)) \<Longrightarrow>
   c = Socket_To ip port (upgrade_request req port)"
  by (auto simp: session_socket_def Let_def split: prod.splits sum.splits)

text \<open>What the guards of a request inside a session establish before it uses an upstream
  connection.\<close>

definition session_admitted :: "('o, 'z) proxy_scheme \<Rightarrow> 'o \<Rightarrow> network \<Rightarrow> request \<Rightarrow> client \<Rightarrow> string \<Rightarrow> int
    \<Rightarrow> upstream_call \<Rightarrow> bool" where
  "session_admitted h s net req identity host port c \<longleftrightarrow>
     (\<exists>current. current_client (policy_in_force h) identity = Some current \<and> allows current host port \<and>
       validate_intercepted_request req host port = Inr () \<and>
       (\<exists>item item1 req1. enforce_request_rules (hd_secrets h s) req current host item = (item1, Inr req1))) \<and>
     handler_resolve h net host = Inr (call_ip c) \<and> call_port c = port \<and>
     (px_resolver h = None \<longrightarrow> is_public (call_ip c)) \<and>
     (case c of Tunnel_To _ _ \<Rightarrow> False
        | Request_To _ _ out \<Rightarrow> no_proxy_credentials out | Socket_To _ _ out \<Rightarrow> no_proxy_credentials out)"

lemma resolve_public: "handler_resolve h net host = Inr ip \<Longrightarrow> px_resolver h = None \<Longrightarrow> is_public ip"
  by (auto simp: handler_resolve_def resolve_Inr_iff split: sum.splits)

lemma session_admittedI:
  assumes "check_destination h net req identity host port authority item = (item1, Inr (current, ip))"
    and "admit_intercepted_request h (hd_secrets h s) req current client host inspect item2 = (item3, Inr req1)"
    and "c = Request_To ip port x \<or> c = Socket_To ip port x" and "no_proxy_credentials x"
  shows "session_admitted h s net req identity host port c"
  using check_destination_Inr [OF assms(1)] admit_Inr [OF assms(2)] assms(3,4) resolve_public
  by (auto simp: session_admitted_def)

lemma intercepted_request_guarded:
  assumes "c \<in> set (sv_calls (handle_intercepted_request h s net req identity host port item))"
  shows "session_admitted h s net req identity host port c"
proof -
  obtain item1 d where d: "check_destination h net req identity host port ''Host matches CONNECT authority and TLS SNI'' item = (item1, d)"
    by (cases "check_destination h net req identity host port ''Host matches CONNECT authority and TLS SNI'' item")
  note u1 = assms [unfolded handle_intercepted_request_def d Let_def]
  obtain current ip where ok: "d = Inr (current, ip)" using u1 by (cases d) (auto split: prod.splits)
  note u2 = u1 [unfolded ok prod.case sum.case]
  let ?inspect = "handling_for (hd_secrets h s) current host = Inspect"
  let ?item = "if ?inspect then item1\<lparr>fl_mode := ''inspected''\<rparr> else item1"
  obtain item2 a where a: "admit_intercepted_request h (hd_secrets h s) req current (c_name identity) host ?inspect ?item = (item2, a)"
    by (cases "admit_intercepted_request h (hd_secrets h s) req current (c_name identity) host ?inspect ?item")
  have n1: "\<not> is_unsupported_upgrade req"
  proof
    assume "is_unsupported_upgrade req"
    from u2 [unfolded if_P [OF this]] show False by simp
  qed
  note u3 = u2 [unfolded if_not_P [OF n1]]
  have n2: "\<not> (?inspect \<and> is_web_socket_upgrade req)"
  proof
    assume "?inspect \<and> is_web_socket_upgrade req"
    from u3 [unfolded if_P [OF this]] show False by simp
  qed
  note u4 = u3 [unfolded if_not_P [OF n2] a prod.case]
  obtain req1 where req1: "a = Inr req1" using u4 by (cases a) (simp_all split: mediation_error.splits)
  note u5 = u4 [unfolded req1 sum.case]
  note g = session_admittedI [OF d [unfolded ok] a [unfolded req1]]
  show ?thesis
  proof (cases "is_web_socket_upgrade req1")
    case True
    from session_socket_calls [OF u5 [unfolded if_P [OF True]]] g upgrade_request_clean show ?thesis by simp
  next
    case False
    note u6 = u5 [unfolded if_not_P [OF False]]
    obtain resp sent calls where t: "round_trip net req1 ip port ''https'' = (resp, sent, calls)"
      by (cases "round_trip net req1 ip port ''https''") auto
    have "c \<in> set calls"
      using u6 [unfolded t prod.case] by (cases resp) (simp_all add: session_response_calls)
    then show ?thesis using g round_trip_calls [OF t] upstream_request_clean by simp
  qed
qed

lemma http2_request_guarded:
  assumes "c \<in> set (sv_calls (handle_http2_request h s net req identity host port item))"
  shows "session_admitted h s net req identity host port c"
proof -
  obtain item1 d where d: "check_destination h net req identity host port ''HTTP/2 authority matches CONNECT authority and TLS SNI'' item = (item1, d)"
    by (cases "check_destination h net req identity host port ''HTTP/2 authority matches CONNECT authority and TLS SNI'' item")
  note u1 = assms [unfolded handle_http2_request_def d Let_def]
  obtain current ip where ok: "d = Inr (current, ip)" using u1 by (cases d) (auto split: prod.splits)
  note u2 = u1 [unfolded ok prod.case sum.case]
  let ?inspect = "handling_for (hd_secrets h s) current host = Inspect"
  let ?item = "if ?inspect then item1\<lparr>fl_mode := ''inspected-h2''\<rparr> else item1"
  obtain item2 a where a: "admit_intercepted_request h (hd_secrets h s) req current (c_name identity) host ?inspect ?item = (item2, a)"
    by (cases "admit_intercepted_request h (hd_secrets h s) req current (c_name identity) host ?inspect ?item")
  obtain req1 where req1: "a = Inr req1" using u2 a by (cases a) (auto split: mediation_error.splits)
  note g = session_admittedI [OF d [unfolded ok] a [unfolded req1]]
  obtain resp sent calls where t: "round_trip net req1 ip port ''https'' = (resp, sent, calls)"
    by (cases "round_trip net req1 ip port ''https''") auto
  have "c \<in> set calls" using u2 a req1 t by (cases resp) (auto simp: http2_response_calls)
  then show ?thesis using g round_trip_calls [OF t] upstream_request_clean by auto
qed

text \<open>A request of a list of arrivals that was served by one of the two handlers.\<close>

definition served_in :: "('o, 'z) arrival list \<Rightarrow> client \<Rightarrow> string \<Rightarrow> int \<Rightarrow> 'o served \<Rightarrow> bool" where
  "served_in as identity host port r \<longleftrightarrow> (\<exists>h s net req interim item. Ar_Request h net req interim \<in> set as \<and>
     (r = handle_intercepted_request h s net req identity host port item \<or>
      r = handle_http2_request h s net req identity host port item))"

lemma served_in_first:
  "served_in (Ar_Request h net req interim # as) identity host port (handle_intercepted_request h s net req identity host port item)"
  "served_in (Ar_Request h net req interim # as) identity host port (handle_http2_request h s net req identity host port item)"
  unfolding served_in_def by (metis list.set_intros(1))+

lemma served_in_later: "served_in as identity host port r \<Longrightarrow> served_in (a # as) identity host port r"
  unfolding served_in_def by (metis list.set_intros(2))

lemma intercept_loop_served:
  "intercept_loop identity host port session s sent received as = (rs, sent', received', reason) \<Longrightarrow> r \<in> set rs \<Longrightarrow>
   served_in as identity host port r"
proof (induction identity host port session s sent received as arbitrary: rs sent' received' reason rule: intercept_loop.induct)
  case (4 identity host port session s sent received h net req interim as)
  let ?e = "if equal_fold (trim_space (header_get (rq_header req) ''Expect'')) ''100-continue'' then interim else None"
  let ?r = "handle_intercepted_request h s net req identity host port
    (session_flow (hd_secrets h s) session ''intercepted'' req identity host port (protocol_label (rq_major req) (rq_minor req)))"
  have none: "?e = None" using "4.prems" by (cases ?e) auto
  show ?case
  proof (cases "r = ?r")
    case True
    then show ?thesis by (simp add: served_in_first)
  next
    case False
    then have open_session: "\<not> sv_close ?r" using "4.prems" none by (auto simp: Let_def)
    obtain rs1 sent1 received1 reason1 where rest: "intercept_loop identity host port session (sv_state ?r)
        (sent + fl_sent (sv_flow ?r)) (received + fl_received (sv_flow ?r)) as = (rs1, sent1, received1, reason1)"
      by (cases "intercept_loop identity host port session (sv_state ?r)
        (sent + fl_sent (sv_flow ?r)) (received + fl_received (sv_flow ?r)) as") auto
    then have "r \<in> set rs1" using "4.prems" none open_session False by (auto simp: Let_def)
    from "4.IH" [OF none refl refl refl open_session rest this] show ?thesis by (rule served_in_later)
  qed
qed auto

lemma serve_http2_served:
  "r \<in> set (serve_http2 identity host port session s as) \<Longrightarrow> served_in as identity host port r"
  by (induction identity host port session s as rule: serve_http2.induct)
    (auto simp: Let_def served_in_first served_in_later)



text \<open>C12. Reloading the policy revokes: once \<open>SetPolicy\<close> has stored a policy that no longer has the
  client, or has it without the destination, every further request of its open sessions is refused
  with status 403 (or 421 for a wrong authority) without any use of an upstream connection, and an
  HTTP/1.1 session is closed.\<close>

theorem reload_revokes:
  assumes "\<forall>c. find_client f (c_name identity) = Some c \<longrightarrow> \<not> allows c host port"
  shows "(let r = handle_intercepted_request (set_policy (Some f) h) s net req identity host port item in
      sv_calls r = [] \<and> sv_close r \<and> (fl_status (sv_flow r) = 403 \<or> fl_status (sv_flow r) = 421)) \<and>
    (let r = handle_http2_request (set_policy (Some f) h) s net req identity host port item in
      sv_calls r = [] \<and> (fl_status (sv_flow r) = 403 \<or> fl_status (sv_flow r) = 421))"
proof -
  have p: "policy_in_force (set_policy (Some f) h) = Some f" by (simp add: policy_in_force_def set_policy_def)
  have refused: "\<exists>item1 status reason. check_destination (set_policy (Some f) h) net req identity host port authority item =
      (item1, Inl (status, reason)) \<and> (status = 403 \<or> status = 421)" for authority
  proof -
    obtain item1 d where d: "check_destination (set_policy (Some f) h) net req identity host port authority item = (item1, d)"
      by (cases "check_destination (set_policy (Some f) h) net req identity host port authority item")
    show ?thesis
    proof (cases d)
      case (Inl e)
      obtain status reason where "e = (status, reason)" by (cases e)
      with d Inl check_destination_Inl show ?thesis by metis
    next
      case (Inr x)
      then obtain current ip where "d = Inr (current, ip)" by (cases x) auto
      with check_destination_Inr [OF d [unfolded this]] p assms show ?thesis by (auto simp: current_client_def)
    qed
  qed
  show ?thesis
    using refused [of "''Host matches CONNECT authority and TLS SNI''"]
      refused [of "''HTTP/2 authority matches CONNECT authority and TLS SNI''"]
    by (auto simp: handle_intercepted_request_def handle_http2_request_def refuse_def finish_flow_def)
qed

subsection \<open>Examples\<close>

definition example_proxy :: "bool \<Rightarrow> unit proxy" where
  "example_proxy interceptor = \<lparr>hd_secrets = (\<lambda>_. None), hd_observe = None, hd_codecs = hd_codecs tiny_handler,
     hd_capture_limit = 0, hd_mediation_limit = 0, px_policy = Some [sample_client_ok], px_reloaded = None,
     px_resolver = None, px_interceptor = interceptor\<rparr>"

definition example_network :: network where
  "example_network = \<lparr>nw_session_id = Some ''00'', nw_lookup = (\<lambda>_. Inr [Ip4 0x0A000001, Ip4 0x08080808]),
     nw_tunnel = \<lparr>tn_dial = Inl ''refused'', tn_hijack = Inr (), tn_acknowledge = Inr (),
       tn_first = (''upload'', 0, None), tn_second = (''download'', 0, None)\<rparr>,
     nw_round_trip = (\<lambda>_. (Inl ''refused'', 0)), nw_codecs = plain_stream_codecs, nw_down = (\<lambda>_ _. None),
     nw_stream_close = (\<lambda>_. None), nw_pulled = 0, nw_received = 0, nw_head = None, nw_chunk_close = None,
     nw_trailer = None, nw_write = (\<lambda>_. (0, None)), nw_sha1 = id, nw_inflate = bytes_stream, nw_digest = id,
     nw_socket = \<lparr>wn_dial = Inr (), wn_handshake = Inr (), wn_write = (\<lambda>_. Inr ()), wn_response = (\<lambda>_. Inl ''EOF''),
       wn_reply = (\<lambda>_. Inr ()), wn_relays = (\<lambda>_ f. (f, (upward, 0, Ws_Closed), (downward, 0, Ws_Closed)))\<rparr>\<rparr>"

definition example_connect :: request where
  "example_connect = tiny_request\<lparr>rq_method := ''CONNECT'', rq_host := ''api.example.com:443'', rq_url := None,
     rq_header := [(''Proxy-Authorization'', [''Bearer tttttttttttttttttttttttt''])]\<rparr>"

lemma example_authenticates:
  "authenticate_request (Some [sample_client_ok]) example_connect =
     (example_connect\<lparr>rq_header := []\<rparr>, Some sample_client_ok)"
proof -
  have keys: "canonical_key ''Proxy-Authorization'' = ''Proxy-Authorization''" by (simp add: evaluate)
  have h: "rq_header example_connect = [(''Proxy-Authorization'', [''Bearer tttttttttttttttttttttttt''])]"
    by (simp add: example_connect_def)
  have t: "c_token sample_client_ok = ''tttttttttttttttttttttttt''"
    by (simp add: sample_client_ok_def sample_client_def replicate_eval)
  have "authenticate_header [sample_client_ok] ''Bearer tttttttttttttttttttttttt'' = Some sample_client_ok"
    by (simp add: authenticate_header_def authenticate_def t evaluate)
  then show ?thesis by (simp add: authenticate_request_def h keys header_get_def header_values_def header_del_def)
qed

lemma example_allows: "allows sample_client_ok ''api.example.com'' 443"
proof -
  have h: "canonical_host ''api.example.com'' = ''api.example.com''" by (simp add: evaluate)
  have v: "valid_host ''api.example.com''" and i: "parse_ip ''api.example.com'' = None" by (simp_all add: evaluate)
  show ?thesis by (simp add: allows_def h v i sample_client_ok_def sample_client_def) (simp add: evaluate)
qed

lemma example_resolves: "handler_resolve (example_proxy b) example_network host = Inr (Ip4 0x08080808)"
  by (simp add: handler_resolve_def example_proxy_def example_network_def resolve_def Let_def in_intervals_def special_v4_def)

lemma example_handling: "handling_for None sample_client_ok ''api.example.com'' = Full"
  by (simp add: handling_for_def has_rules_for_def uses_opaque_tunnel_list_def listed_in_def intercepts_listed_host_def
    inspects_host_def sample_client_ok_def sample_client_def broker_scopes_def host_matches_def)

lemma example_authority: "split_authority ''api.example.com:443'' 443 = Inr (''api.example.com'', 443)"
  "split_authority ''api.example.com'' 443 = Inr (''api.example.com'', 443)"
  by (simp_all add: split_authority_def split_host_port_def port_text_def sublist_code evaluate)


lemma example_checks:
  "\<exists>f. serve_checks (example_proxy b) () example_network example_connect =
     Inr (example_connect\<lparr>rq_header := []\<rparr>, sample_client_ok, ''api.example.com'', 443, Ip4 0x08080808, f)"
proof -
  have p: "policy_in_force (example_proxy b) = Some [sample_client_ok]"
    by (simp add: policy_in_force_def example_proxy_def)
  have t: "request_target (example_connect\<lparr>rq_header := []\<rparr>) = Inr (''api.example.com'', 443, ''https'')"
    using example_authority(1) by (simp add: request_target_def example_connect_def)
  have n: "nw_session_id example_network = Some ''00''" by (simp add: example_network_def)
  show ?thesis
    by (simp add: serve_checks_def p example_authenticates t n example_allows example_resolves Let_def)
qed

definition example_get :: request where
  "example_get = tiny_request\<lparr>rq_host := ''api.example.com'', rq_url := Some \<lparr>u_scheme = [], u_user = False,
     u_host = [], u_path = ''/'', u_escaped = ''/'', u_query = []\<rparr>\<rparr>"

definition example_interception :: "(unit, unit) interception" where
  "example_interception = \<lparr>ic_hijack = Inr (), ic_acknowledge = Inr (), ic_tls_config = Inr (), ic_handshake = Inr False,
     ic_requests = [Ar_Request (example_proxy True) example_network example_get None]\<rparr>"


lemma example_mediates:
  "\<exists>item. mediate_request (example_proxy True) None example_get ''agent'' ''api.example.com'' True f = (item, Inr example_get)"
proof -
  have h: "rq_header example_get = []" "rq_body example_get = None"
    "rq_url example_get = Some \<lparr>u_scheme = [], u_user = False, u_host = [], u_path = ''/'', u_escaped = ''/'', u_query = []\<rparr>"
    by (simp_all add: example_get_def tiny_request_def)
  have e: "accept_expectation example_get = Inr example_get"
    by (simp add: accept_expectation_def h header_get_def header_values_def trim_space_def evaluate)
  show ?thesis
    by (simp add: mediate_request_def mediate_request_head_def substitute_head_def query_of_def h e capture_query_def
      mediation_limit_def capture_limit_def example_proxy_def Let_def split: prod.split)
qed



theorem reload_revokes_witness:
  "sv_calls (handle_http2_request (set_policy (Some []) (example_proxy True)) () example_network example_get
     sample_client_ok ''api.example.com'' 443 empty_flow) = []"
  using reload_revokes [of "[]" sample_client_ok "''api.example.com''" 443 "example_proxy True" "()" example_network example_get empty_flow]
  by (simp add: find_client_def Let_def)

end
