(* ===== verification/Oauth_Config.thy ===== *)
theory Oauth_Config
  imports Host_Pattern Go_Encoding
begin

text \<open>
  The policy of the OAuth broker, \<open>internal/oauth/config.go\<close>: validation and normalization of its
  definitions. Reading and decoding the file is left to \<open>encoding/json\<close>. The lemmas show what an
  accepted policy looks like: above all that at most one definition answers for a client, a host and
  a path.
\<close>

subsection \<open>The code\<close>

record oauth_definition =
  od_name :: string
  od_clients :: "string list"
  od_issuer_host :: string
  od_token_path :: string
  od_api_hosts :: "string list"
  od_access_field :: string
  od_refresh_field :: string
  od_access_prefix :: string

datatype oauth_config_error =
    Name_Invalid nat | Name_Duplicate string | No_Clients string | Client_Empty string nat
  | Issuer_Invalid string string | Path_Invalid string string | No_Api_Hosts string
  | Api_Host_Invalid string nat string | Field_Invalid string | Prefix_Invalid string
  | Endpoint_Duplicate string

definition normalize_oauth_host :: "string \<Rightarrow> bool \<Rightarrow> (string, string) result" where
  "normalize_oauth_host host wildcard =
    (let v = to_lower (trim_space (trim_suffix host ''.''));
         is_wildcard = (wildcard \<and> has_prefix v ''*.'');
         v = (if is_wildcard then trim_prefix v ''*.'' else v) in
     if v = [] \<or> contains_any v '':/@* '' \<or> contains v ''..'' \<or> 253 < length v then Inl v
     else if \<not> list_all valid_label (split_on (CHR ''.'') v) then Inl v
     else Inr (if is_wildcard then ''*.'' @ v else v))"

text \<open>\<open>url.ParseRequestURI\<close> of a text that begins with a slash: its path, which is unescaped and ends
  before a query.\<close>

fun path_unescape :: "string \<Rightarrow> string option" where
  "path_unescape [] = Some []"
| "path_unescape (c # s) = (if c = CHR ''%'' then
       (case s of a # b # r \<Rightarrow>
          (case (hex_digit a, hex_digit b) of
             (Some i, Some j) \<Rightarrow> map_option ((#) (char_of (16 * i + j))) (path_unescape r)
           | _ \<Rightarrow> None)
        | _ \<Rightarrow> None)
     else map_option ((#) c) (path_unescape s))"

definition control_byte :: "char \<Rightarrow> bool" where
  "control_byte c \<longleftrightarrow> code c < 32 \<or> code c = 127"

definition request_uri_path :: "string \<Rightarrow> string option" where
  "request_uri_path s = (if list_ex control_byte s then None
     else path_unescape (takeWhile (\<lambda>c. c \<noteq> CHR ''?'') s))"

text \<open>\<open>path.Clean\<close> of a rooted path.\<close>

definition clean_step :: "string list \<Rightarrow> string \<Rightarrow> string list" where
  "clean_step out c = (if c = [] \<or> c = ''.'' then out else if c = ''..'' then butlast out else out @ [c])"

definition path_clean :: "string \<Rightarrow> string" where
  "path_clean s = ''/'' @ join_with ''/'' (foldl clean_step [] (split_on (CHR ''/'') s))"

definition normalize_token_path :: "string \<Rightarrow> (string, string) result" where
  "normalize_token_path text =
    (let v = trim_space text in
     if \<not> has_prefix v ''/'' \<or> request_uri_path v \<noteq> Some v \<or> contains v ''..''
       then Inl ''must be an absolute path without query or traversal''
     else if path_clean v \<noteq> v then Inl ''must not contain redundant path segments''
     else Inr v)"

definition ident_rest :: "rune \<Rightarrow> bool" where
  "ident_rest r \<longleftrightarrow> 97 \<le> r \<and> r \<le> 122 \<or> 48 \<le> r \<and> r \<le> 57 \<or> r = 95 \<or> 65 \<le> r \<and> r \<le> 90"

definition valid_identifier :: "string \<Rightarrow> bool" where
  "valid_identifier s \<longleftrightarrow> (case runes s of [] \<Rightarrow> False
     | r # rs \<Rightarrow> 97 \<le> r \<and> r \<le> 122 \<and> list_all ident_rest rs)"

definition field_rune :: "rune \<Rightarrow> bool" where
  "field_rune r \<longleftrightarrow> ident_rest r \<or> r = 45"

definition valid_placeholder_prefix :: "string \<Rightarrow> bool" where
  "valid_placeholder_prefix s \<longleftrightarrow> length s \<le> 64 \<and> list_all field_rune (runes s)"

definition valid_json_field :: "string \<Rightarrow> bool" where
  "valid_json_field s \<longleftrightarrow> s \<noteq> [] \<and> length s \<le> 128 \<and> list_all field_rune (runes s)"

text \<open>One definition, without the checks against the others.\<close>

definition normalize_definition :: "nat \<Rightarrow> oauth_definition \<Rightarrow> (oauth_config_error, oauth_definition) result" where
  "normalize_definition i d =
    (let name = od_name d in
     rbind (require (od_clients d \<noteq> []) (No_Clients name)) (\<lambda>_.
     rbind (traverse (\<lambda>j c. let c = trim_space c in
       if c = [] then Inl (Client_Empty name j) else Inr c) (od_clients d)) (\<lambda>clients.
     rbind (wrap_error (Issuer_Invalid name) (normalize_oauth_host (od_issuer_host d) False)) (\<lambda>issuer.
     rbind (wrap_error (Path_Invalid name) (normalize_token_path (od_token_path d))) (\<lambda>path.
     rbind (require (od_api_hosts d \<noteq> []) (No_Api_Hosts name)) (\<lambda>_.
     rbind (traverse (\<lambda>j h. wrap_error (Api_Host_Invalid name j) (normalize_oauth_host h True)) (od_api_hosts d)) (\<lambda>hosts.
     let access = (if od_access_field d = [] then ''access_token'' else od_access_field d);
         refresh = (if od_refresh_field d = [] then ''refresh_token'' else od_refresh_field d);
         pre = trim_space (od_access_prefix d) in
     rbind (require (valid_json_field access \<and> valid_json_field refresh) (Field_Invalid name)) (\<lambda>_.
     rbind (require (valid_placeholder_prefix pre) (Prefix_Invalid name)) (\<lambda>_.
       Inr \<lparr>od_name = name, od_clients = clients, od_issuer_host = issuer, od_token_path = path,
         od_api_hosts = hosts, od_access_field = access, od_refresh_field = refresh,
         od_access_prefix = pre\<rparr>)))))))))"

text \<open>The endpoints of a definition are added one by one.\<close>

definition endpoint :: "oauth_definition \<Rightarrow> string \<Rightarrow> string" where
  "endpoint d c = c @ [CHR 0x00] @ od_issuer_host d @ [CHR 0x00] @ od_token_path d"

fun add_endpoints :: "oauth_definition \<Rightarrow> string list \<Rightarrow> string list \<Rightarrow> (oauth_config_error, string list) result" where
  "add_endpoints d [] seen = Inr seen"
| "add_endpoints d (c # cs) seen =
     (if endpoint d c \<in> set seen then Inl (Endpoint_Duplicate c) else add_endpoints d cs (endpoint d c # seen))"

fun validate_brokers :: "nat \<Rightarrow> string list \<Rightarrow> string list \<Rightarrow> oauth_definition list
    \<Rightarrow> (oauth_config_error, oauth_definition list) result" where
  "validate_brokers i names endpoints [] = Inr []"
| "validate_brokers i names endpoints (d # ds) =
     (let d = d\<lparr>od_name := trim_space (od_name d)\<rparr> in
      rbind (require (valid_identifier (od_name d)) (Name_Invalid i)) (\<lambda>_.
      rbind (require (od_name d \<notin> set names) (Name_Duplicate (od_name d))) (\<lambda>_.
      rbind (normalize_definition i d) (\<lambda>d.
      rbind (add_endpoints d (od_clients d) endpoints) (\<lambda>endpoints.
      rbind (validate_brokers (Suc i) (od_name d # names) endpoints ds) (\<lambda>ds. Inr (d # ds)))))))"

definition validate_oauth :: "oauth_definition list \<Rightarrow> (oauth_config_error, oauth_definition list) result" where
  "validate_oauth ds = validate_brokers 0 [] [] ds"

definition matches_api_host :: "string list \<Rightarrow> string \<Rightarrow> bool" where
  "matches_api_host patterns host = list_ex (\<lambda>p. pattern_matches p (canonical_host host)) patterns"

lemmas [evaluate] = normalize_oauth_host_def control_byte_def request_uri_path_def clean_step_def path_clean_def
  normalize_token_path_def ident_rest_def valid_identifier_def field_rune_def valid_placeholder_prefix_def
  valid_json_field_def normalize_definition_def endpoint_def validate_oauth_def matches_api_host_def

subsection \<open>Normal forms\<close>

lemma valid_host_no_dots: "valid_host h \<Longrightarrow> \<not> contains h ''..''"
proof
  assume h: "valid_host h" and "contains h ''..''"
  then obtain a b where "h = a @ CHR ''.'' # CHR ''.'' # b" by (auto simp: sublist_def)
  then have "[] \<in> set (split_on (CHR ''.'') h)" by (simp add: split_on_append_sep)
  then show False using h by (auto simp: valid_host_def list_all_iff valid_label_def)
qed

lemma contains_any_append: "contains_any s (cs @ ds) \<longleftrightarrow> contains_any s cs \<or> contains_any s ds"
  by (auto simp: contains_any_def list_ex_iff)

lemma valid_host_contains_any: "valid_host h \<Longrightarrow> \<not> contains_any h '':/@* ''"
proof -
  assume h: "valid_host h"
  have "c \<notin> set h" if "c \<in> set '':/@* ''" for c
    using valid_host_chars [OF h, of c] that by (auto simp: host_char_def label_char_def)
  then show ?thesis by (auto simp: contains_any_def list_ex_iff)
qed

lemma checked_labels_valid_host:
  assumes "list_all valid_label (split_on (CHR ''.'') v)" and "\<not> contains_any v '':/@* ''" and "length v \<le> 253"
  shows "valid_host v"
proof -
  have "is_ascii v"
  proof -
    have "set v \<subseteq> {CHR ''.''} \<union> \<Union> (set ` set (split_on (CHR ''.'') v))"
    proof -
      have "set (join_with ''.'' ls) \<subseteq> {CHR ''.''} \<union> \<Union> (set ` set ls)" for ls :: "string list"
        by (induction "''.''" ls rule: join_with.induct) auto
      from this [of "split_on (CHR ''.'') v"] show ?thesis by simp
    qed
    moreover have "\<forall>l \<in> set (split_on (CHR ''.'') v). \<forall>c \<in> set l. code c < 128"
      using assms(1) valid_label_chars host_char_props(1) by (auto simp: list_all_iff)
    ultimately show ?thesis by (force simp: is_ascii_def list_all_iff)
  qed
  moreover have "'':/@* '' = '':/@'' @ ''* ''" by simp
  ultimately show ?thesis
    using assms contains_any_append [of v "'':/@''" "''* ''"]
    by (auto simp: valid_host_def runes_ascii list_all_iff is_ascii_def)
qed

lemma normalize_oauth_host_valid:
  assumes "normalize_oauth_host p wildcard = Inr q"
  shows "valid_pattern q" and "\<not> wildcard \<Longrightarrow> valid_host q"
  using assms checked_labels_valid_host
  by (auto simp: normalize_oauth_host_def Let_def valid_pattern_iff split: if_splits)

lemma normalize_oauth_host_fixed: "valid_host h \<Longrightarrow> normalize_oauth_host h w = Inr h"
proof -
  assume h: "valid_host h"
  then have np: "\<not> has_prefix h ''*.''"
    using valid_host_props(6,4) [OF h] by (auto simp: prefix_def)
  show ?thesis
    using h np valid_host_props [OF h] valid_host_no_dots [OF h] valid_host_contains_any [OF h]
    by (simp add: normalize_oauth_host_def Let_def trim_space_valid_host trim_dot_valid_host valid_host_def)
qed

lemma normalize_oauth_host_wildcard: "valid_host h \<Longrightarrow> normalize_oauth_host (''*.'' @ h) True = Inr (''*.'' @ h)"
proof -
  assume h: "valid_host h"
  have "\<forall>c \<in> set (''*.'' @ h). graphic c"
    using valid_host_props(3) [OF h] by (auto simp: graphic_def)
  then have t: "trim_space (''*.'' @ h) = ''*.'' @ h" by (rule trim_space_graphic)
  have d: "trim_suffix (''*.'' @ h) ''.'' = ''*.'' @ h"
    using valid_host_props(4,5) [OF h] by (intro trim_suffix_no) (simp add: suffix_singleton_iff)
  have l: "to_lower (''*.'' @ h) = ''*.'' @ h"
    using valid_host_props(1,2) [OF h]
    by (subst to_lower_append_ascii) (auto simp: is_ascii_def to_lower_fixed)
  have p: "trim_prefix (''*.'' @ h) ''*.'' = h" by (rule trim_prefix_append)
  have "has_prefix (''*.'' @ h) ''*.''" by (rule prefixI) (rule refl)
  then show ?thesis
    unfolding normalize_oauth_host_def Let_def t d l p
    using h valid_host_props(4) [OF h] valid_host_no_dots [OF h] valid_host_contains_any [OF h]
    by (simp add: valid_host_def)
qed

lemma normalize_oauth_host_pattern: "valid_pattern p \<Longrightarrow> normalize_oauth_host p True = Inr p"
  by (metis normalize_oauth_host_fixed normalize_oauth_host_wildcard valid_pattern_iff)

lemma normalize_token_path_fixed: "normalize_token_path p = Inr q \<Longrightarrow> normalize_token_path q = Inr q"
  by (auto simp: normalize_token_path_def Let_def split: if_splits)

lemma ident_runes_ascii: "list_all field_rune (runes s) \<Longrightarrow> is_ascii s"
  by (rule runes_all_ascii) (auto simp: list_all_iff field_rune_def ident_rest_def)

lemma field_runes_graphic:
  assumes "list_all field_rune (runes s)" shows "\<forall>c \<in> set s. graphic c"
  using assms ident_runes_ascii [OF assms]
  by (auto simp: runes_ascii list_all_iff field_rune_def ident_rest_def graphic_def)

lemma valid_identifier_trimmed: "valid_identifier s \<Longrightarrow> trim_space s = s"
proof -
  assume "valid_identifier s"
  then have "list_all field_rune (runes s)"
    by (auto simp: valid_identifier_def field_rune_def list_all_iff ident_rest_def split: list.splits)
  then show ?thesis by (intro trim_space_graphic field_runes_graphic)
qed

subsection \<open>Accepted policies\<close>

definition wf_definition :: "oauth_definition \<Rightarrow> bool" where
  "wf_definition d \<longleftrightarrow> valid_identifier (od_name d) \<and> od_clients d \<noteq> [] \<and>
     (\<forall>c \<in> set (od_clients d). c \<noteq> [] \<and> trim_space c = c) \<and> valid_host (od_issuer_host d) \<and>
     normalize_token_path (od_token_path d) = Inr (od_token_path d) \<and> od_api_hosts d \<noteq> [] \<and>
     (\<forall>h \<in> set (od_api_hosts d). valid_pattern h) \<and> valid_json_field (od_access_field d) \<and>
     valid_json_field (od_refresh_field d) \<and> valid_placeholder_prefix (od_access_prefix d) \<and>
     trim_space (od_access_prefix d) = od_access_prefix d"

definition endpoints :: "oauth_definition list \<Rightarrow> string list" where
  "endpoints ds = concat (map (\<lambda>d. map (endpoint d) (od_clients d)) ds)"

definition wf_oauth :: "oauth_definition list \<Rightarrow> bool" where
  "wf_oauth ds \<longleftrightarrow> (\<forall>d \<in> set ds. wf_definition d) \<and> distinct (map od_name ds) \<and> distinct (endpoints ds)"

lemma normalize_definition_wf:
  assumes "normalize_definition i d = Inr e" and "valid_identifier (od_name d)"
  shows "wf_definition e" and "od_name e = od_name d"
proof -
  from assms(1) obtain clients issuer path hosts where
    steps: "od_clients d \<noteq> []" "traverse (\<lambda>j c. let c = trim_space c in
        if c = [] then Inl (Client_Empty (od_name d) j) else Inr c) (od_clients d) = Inr clients"
      "normalize_oauth_host (od_issuer_host d) False = Inr issuer" "normalize_token_path (od_token_path d) = Inr path"
      "od_api_hosts d \<noteq> []" "traverse (\<lambda>j h. wrap_error (Api_Host_Invalid (od_name d) j) (normalize_oauth_host h True)) (od_api_hosts d) = Inr hosts"
    and e: "od_name e = od_name d" "od_clients e = clients" "od_issuer_host e = issuer" "od_token_path e = path"
      "od_api_hosts e = hosts" "valid_json_field (od_access_field e)" "valid_json_field (od_refresh_field e)"
      "valid_placeholder_prefix (od_access_prefix e)" "od_access_prefix e = trim_space (od_access_prefix d)"
    by (auto simp: normalize_definition_def Let_def)
  have "\<forall>c \<in> set clients. c \<noteq> [] \<and> trim_space c = c"
    by (rule traverse_from_all [OF steps(2)]) (auto simp: Let_def split: if_splits)
  moreover have "\<forall>h \<in> set hosts. valid_pattern h"
    by (rule traverse_from_all [OF steps(6)]) (auto dest: normalize_oauth_host_valid(1))
  ultimately show "wf_definition e" "od_name e = od_name d"
    using steps(1,5) traverse_from_length [OF steps(2)] traverse_from_length [OF steps(6)] e assms(2)
      normalize_oauth_host_valid(2) [OF steps(3)] normalize_token_path_fixed [OF steps(4)]
    by (auto simp: wf_definition_def)
qed

lemma normalize_definition_fixed:
  assumes "wf_definition d" shows "normalize_definition i d = Inr d"
proof -
  have clients: "traverse (\<lambda>j c. if trim_space c = [] then Inl (Client_Empty (od_name d) j) else Inr (trim_space c))
      (od_clients d) = Inr (od_clients d)"
    using assms by (intro traverse_from_fixed) (auto simp: wf_definition_def)
  have hosts: "traverse (\<lambda>j h. wrap_error (Api_Host_Invalid (od_name d) j) (normalize_oauth_host h True))
      (od_api_hosts d) = Inr (od_api_hosts d)"
    using assms by (intro traverse_from_fixed) (auto simp: wf_definition_def normalize_oauth_host_pattern)
  have "od_access_field d \<noteq> []" "od_refresh_field d \<noteq> []"
    using assms by (auto simp: wf_definition_def valid_json_field_def)
  then show ?thesis
    using assms unfolding normalize_definition_def Let_def clients hosts
    by (simp add: wf_definition_def clients hosts normalize_oauth_host_fixed)
qed

lemma endpoints_Cons: "endpoints (d # ds) = map (endpoint d) (od_clients d) @ endpoints ds"
  by (simp add: endpoints_def)

lemma endpoint_in_endpoints: "d \<in> set ds \<Longrightarrow> c \<in> set (od_clients d) \<Longrightarrow> endpoint d c \<in> set (endpoints ds)"
  by (auto simp: endpoints_def)

lemma add_endpoints_Inr_iff:
  "add_endpoints d cs seen = Inr seen' \<longleftrightarrow> seen' = rev (map (endpoint d) cs) @ seen \<and>
     distinct (map (endpoint d) cs) \<and> set (map (endpoint d) cs) \<inter> set seen = {}"
  by (induction cs arbitrary: seen) auto

lemma validate_brokers_wf:
  assumes "validate_brokers i names seen ds = Inr es"
  shows "(\<forall>e \<in> set es. wf_definition e) \<and> distinct (map od_name es) \<and> od_name ` set es \<inter> set names = {} \<and>
    distinct (endpoints es) \<and> set (endpoints es) \<inter> set seen = {}"
  using assms
proof (induction i names seen ds arbitrary: es rule: validate_brokers.induct)
  case (2 i names seen d ds)
  let ?d = "d\<lparr>od_name := trim_space (od_name d)\<rparr>"
  from 2(2) obtain e seen' es' where valid: "valid_identifier (trim_space (od_name d))" "trim_space (od_name d) \<notin> set names"
    and e: "normalize_definition i ?d = Inr e" and seen': "add_endpoints e (od_clients e) seen = Inr seen'"
    and rest: "validate_brokers (Suc i) (od_name e # names) seen' ds = Inr es'" and es: "es = e # es'"
    by (auto simp: Let_def)
  have wf: "wf_definition e" "od_name e = trim_space (od_name d)"
    using normalize_definition_wf [OF e] valid(1) by simp_all
  have "(\<forall>e \<in> set es'. wf_definition e) \<and> distinct (map od_name es') \<and> od_name ` set es' \<inter> set (od_name e # names) = {} \<and>
      distinct (endpoints es') \<and> set (endpoints es') \<inter> set seen' = {}"
    by (rule 2(1)) (use valid e seen' rest in \<open>auto simp: Let_def\<close>)
  then show ?case
    using wf valid(2) seen' unfolding es add_endpoints_Inr_iff endpoints_Cons by (simp add: Int_Un_distrib Int_Un_distrib2) blast
qed (simp add: endpoints_def)

lemma validate_brokers_fixed:
  assumes "\<forall>e \<in> set es. wf_definition e" and "distinct (map od_name es)" and "od_name ` set es \<inter> set names = {}"
    and "distinct (endpoints es)" and "set (endpoints es) \<inter> set seen = {}"
  shows "validate_brokers i names seen es = Inr es"
  using assms
proof (induction es arbitrary: i names seen)
  case (Cons e es)
  then have wf: "wf_definition e" by simp
  then have name: "valid_identifier (od_name e)" "trim_space (od_name e) = od_name e"
    by (auto simp: wf_definition_def valid_identifier_trimmed)
  have same: "e\<lparr>od_name := od_name e\<rparr> = e" by (cases e) simp
  have "add_endpoints e (od_clients e) seen = Inr (rev (map (endpoint e) (od_clients e)) @ seen)"
    using Cons.prems(4,5) by (auto simp: add_endpoints_Inr_iff endpoints_Cons)
  moreover have "validate_brokers (Suc i) (od_name e # names) (rev (map (endpoint e) (od_clients e)) @ seen) es = Inr es"
    using Cons.prems by (intro Cons.IH) (auto simp: endpoints_Cons)
  ultimately show ?case
    using Cons.prems(3) by (simp add: name same Let_def normalize_definition_fixed [OF wf])
qed simp

lemma validate_oauth_wf: "validate_oauth ds = Inr es \<Longrightarrow> wf_oauth es"
  using validate_brokers_wf [of 0 "[]" "[]" ds es] by (simp add: validate_oauth_def wf_oauth_def)

lemma validate_oauth_fixed: "wf_oauth es \<Longrightarrow> validate_oauth es = Inr es"
  by (simp add: validate_oauth_def wf_oauth_def validate_brokers_fixed)

text \<open>The test of \<open>matchDefinition\<close>.\<close>

definition answers :: "string \<Rightarrow> string \<Rightarrow> string \<Rightarrow> oauth_definition \<Rightarrow> bool" where
  "answers client host path d \<longleftrightarrow> client \<in> set (od_clients d) \<and> od_issuer_host d = canonical_host host \<and> od_token_path d = path"

lemma answers_unique:
  assumes "distinct (endpoints ds)" shows "length (filter (answers client host path) ds) \<le> 1"
  using assms
proof (induction ds)
  case (Cons d ds)
  have "filter (answers client host path) ds = []" if "answers client host path d"
  proof -
    have "\<not> answers client host path e" if "e \<in> set ds" for e
    proof
      assume "answers client host path e"
      with \<open>answers client host path d\<close> have "endpoint e client = endpoint d client"
        "endpoint e client \<in> set (endpoints ds)" "endpoint d client \<in> set (map (endpoint d) (od_clients d))"
        using that endpoint_in_endpoints [OF that, of client] by (auto simp: answers_def endpoint_def)
      then show False using Cons.prems by (auto simp: endpoints_Cons)
    qed
    then show ?thesis by (simp add: filter_empty_conv)
  qed
  then show ?case using Cons by (auto simp: endpoints_Cons)
qed simp

text \<open>C31. A policy that \<open>validate\<close> accepts is well formed: names are identifiers and distinct, issuers
  are host names, API hosts are host patterns, token paths are clean absolute paths, fields and
  prefixes are in their alphabets; validating it again changes nothing; and for each client, host and
  path at most one definition answers, so \<open>matchDefinition\<close> is unambiguous.\<close>

theorem validate_oauth_sound:
  assumes "validate_oauth ds = Inr es"
  shows "wf_oauth es \<and> validate_oauth es = Inr es \<and> length (filter (answers client host path) es) \<le> 1"
  using validate_oauth_wf [OF assms] validate_oauth_fixed answers_unique unfolding wf_oauth_def by blast

definition sample_oauth :: oauth_definition where
  "sample_oauth = \<lparr>od_name = ''idp'', od_clients = ['' agent ''], od_issuer_host = ''Auth.example.com.'',
     od_token_path = ''/token'', od_api_hosts = [''*.api.example.com''], od_access_field = [], od_refresh_field = [],
     od_access_prefix = ''ya29''\<rparr>"

definition sample_oauth_ok :: oauth_definition where
  "sample_oauth_ok = \<lparr>od_name = ''idp'', od_clients = [''agent''], od_issuer_host = ''auth.example.com'',
     od_token_path = ''/token'', od_api_hosts = [''*.api.example.com''], od_access_field = ''access_token'',
     od_refresh_field = ''refresh_token'', od_access_prefix = ''ya29''\<rparr>"

lemma oauth_sample_hosts:
  "normalize_oauth_host ''Auth.example.com.'' False = Inr ''auth.example.com''"
  "normalize_oauth_host ''*.api.example.com'' True = Inr ''*.api.example.com''"
  by (simp_all add: evaluate sublist_code)

lemma oauth_sample_texts:
  "normalize_token_path ''/token'' = Inr ''/token''" "valid_json_field ''access_token''"
  "valid_json_field ''refresh_token''" "valid_placeholder_prefix ''ya29''" "trim_space ''ya29'' = ''ya29''"
  "trim_space '' agent '' = ''agent''" "trim_space ''idp'' = ''idp''" "valid_identifier ''idp''"
  by (simp_all add: evaluate sublist_code)

lemma sample_oauth_validates: "validate_oauth [sample_oauth] = Inr [sample_oauth_ok]"
  by (simp add: validate_oauth_def sample_oauth_def sample_oauth_ok_def normalize_definition_def Let_def
    require_def oauth_sample_hosts oauth_sample_texts)

theorem validate_oauth_sound_witness: "wf_oauth [sample_oauth_ok] \<and> validate_oauth [sample_oauth_ok] = Inr [sample_oauth_ok]"
  using validate_oauth_sound [OF sample_oauth_validates, of "[]" "[]" "[]"] by blast

end
