(* ===== verification/Go_Raw_Json.thy ===== *)
theory Go_Raw_Json
  imports Go_Json
begin

text \<open>
  \<open>encoding/json\<close> with \<open>json.RawMessage\<close>: the members of an object with the texts of their values,
  decoding into \<open>map[string]json.RawMessage\<close>, into a string or an \<open>int64\<close>, and encoding of such a
  map, which compacts the texts.
\<close>

text \<open>The text of one value without the white space around it, and what follows.\<close>

definition raw_value :: "string \<Rightarrow> (string \<times> string) option" where
  "raw_value s = (let t = skip_space s in
     map_option (\<lambda>(v, r). (take (length t - length r) t, r)) (json_decode t))"

text \<open>The members of an object behind its opening brace, duplicates included, on fuel.\<close>

fun raw_members :: "nat \<Rightarrow> string \<Rightarrow> (string \<times> string) list option" where
  "raw_members 0 s = None"
| "raw_members (Suc n) s = (case skip_space s of
     c # r \<Rightarrow> if c \<noteq> CHR 0x22 then None else
       (case json_string r [] of None \<Rightarrow> None | Some (k, r) \<Rightarrow>
       (case cut_prefix (skip_space r) '':'' of None \<Rightarrow> None | Some r \<Rightarrow>
       (case raw_value r of None \<Rightarrow> None | Some (raw, r) \<Rightarrow>
       (case skip_space r of
          d # r \<Rightarrow> if d = CHR '','' then map_option ((#) (k, raw)) (raw_members n r)
            else if d = CHR ''}'' then Some [(k, raw)] else None
        | [] \<Rightarrow> None))))
   | [] \<Rightarrow> None)"

definition raw_object :: "string \<Rightarrow> (string \<times> string) list option" where
  "raw_object s = (case skip_space s of
     c # r \<Rightarrow> if c \<noteq> CHR ''{'' then None
       else if has_prefix (skip_space r) ''}'' then Some [] else raw_members (length r) r
   | [] \<Rightarrow> None)"

text \<open>\<open>json.Unmarshal\<close> into \<open>map[string]json.RawMessage\<close>: \<open>None\<close> is an error, \<open>Some None\<close> the nil map
  that \<open>null\<close> leaves. The last of several members with one name wins.\<close>

definition unmarshal_map :: "string \<Rightarrow> (string \<times> string) list option option" where
  "unmarshal_map s = (case json_unmarshal s of
     Some J_Null \<Rightarrow> Some None
   | Some (J_Obj ms) \<Rightarrow> map_option (\<lambda>ms. Some (foldl (\<lambda>m (k, raw). obj_set k raw m) [] ms)) (raw_object s)
   | _ \<Rightarrow> None)"

text \<open>\<open>json.Unmarshal\<close> of a raw value into a string and into an \<open>int64\<close>.\<close>

definition unmarshal_string :: "string \<Rightarrow> string option" where
  "unmarshal_string raw = (case json_unmarshal raw of
     Some (J_Str s) \<Rightarrow> Some s | Some J_Null \<Rightarrow> Some [] | _ \<Rightarrow> None)"

definition unmarshal_int :: "string \<Rightarrow> int option" where
  "unmarshal_int raw = (case json_unmarshal raw of
     Some (J_Num n) \<Rightarrow> atoi n | Some J_Null \<Rightarrow> Some 0 | _ \<Rightarrow> None)"

text \<open>Compaction inside and outside of strings, with the escapes of \<open>json.Marshal\<close>.\<close>

definition html_escape :: "char \<Rightarrow> string option" where
  "html_escape c = (if c = CHR ''<'' then Some (CHR 0x5C # ''u003c'') else if c = CHR ''>'' then Some (CHR 0x5C # ''u003e'')
     else if c = CHR ''&'' then Some (CHR 0x5C # ''u0026'') else None)"

fun json_compact :: "bool \<Rightarrow> string \<Rightarrow> string" where
  "json_compact inside [] = []"
| "json_compact inside (c # s) =
     (if \<not> inside then
        (if json_space c then json_compact False s else c # json_compact (c = CHR 0x22) s)
      else if c = CHR 0x22 then c # json_compact False s
      else if c = CHR 0x5C then (case s of [] \<Rightarrow> [c] | d # s' \<Rightarrow> c # d # json_compact True s')
      else case html_escape c of
        Some e \<Rightarrow> e @ json_compact True s
      | None \<Rightarrow> if has_prefix (c # s) [CHR 0xE2, CHR 0x80, CHR 0xA8] then CHR 0x5C # ''u2028'' @ json_compact True (drop 2 s)
          else if has_prefix (c # s) [CHR 0xE2, CHR 0x80, CHR 0xA9] then CHR 0x5C # ''u2029'' @ json_compact True (drop 2 s)
          else c # json_compact True s)"

text \<open>\<open>json.Marshal\<close> of a map of raw messages.\<close>

definition marshal_map :: "(string \<times> string) list \<Rightarrow> string" where
  "marshal_map m = ''{'' @ join_with '',''
     (map (\<lambda>(k, raw). json_quote k @ '':'' @ json_compact False raw) (sort_key fst m)) @ ''}''"

lemmas [evaluate] = raw_value_def raw_object_def unmarshal_map_def unmarshal_string_def unmarshal_int_def
  html_escape_def marshal_map_def

end
