(* ===== verification/Go_Time.thy ===== *)
theory Go_Time
  imports Go_Encoding
begin

text \<open>
  What the code uses of Go's \<open>time\<close> and \<open>fmt\<close>: instants in nanoseconds since the Unix epoch,
  \<open>time.Parse\<close> with the layout \<open>RFC3339\<close>, \<open>fmt.Sscan\<close> into an \<open>int64\<close>, and the range of instants
  that \<open>encoding/json\<close> encodes.
\<close>

type_synonym instant = int

abbreviation second :: int where
  "second \<equiv> 1000000000"

subsection \<open>Calendar\<close>

definition leap_year :: "nat \<Rightarrow> bool" where
  "leap_year y \<longleftrightarrow> y mod 4 = 0 \<and> (y mod 100 \<noteq> 0 \<or> y mod 400 = 0)"

definition days_in :: "nat \<Rightarrow> nat \<Rightarrow> nat" where
  "days_in m y = (if m = 2 \<and> leap_year y then 29 else [31, 28, 31, 30, 31, 30, 31, 31, 30, 31, 30, 31] ! (m - 1))"

text \<open>Days from 1970-01-01 to a day of the Gregorian calendar, in years that begin in March.\<close>

definition civil_days :: "nat \<Rightarrow> nat \<Rightarrow> nat \<Rightarrow> int" where
  "civil_days y m d =
    (let y' = (if m \<le> 2 then int y - 1 else int y); m' = (if m \<le> 2 then int m + 9 else int m - 3) in
     365 * y' + y' div 4 - y' div 100 + y' div 400 + (153 * m' + 2) div 5 + int d - 1 - 719468)"

definition civil_instant :: "nat \<Rightarrow> nat \<Rightarrow> nat \<Rightarrow> nat \<Rightarrow> nat \<Rightarrow> nat \<Rightarrow> instant" where
  "civil_instant y m d h mi s = (civil_days y m d * 86400 + int (h * 3600 + mi * 60 + s)) * second"

text \<open>\<open>MarshalJSON\<close> of a time fails outside the years 0 to 9999.\<close>

definition encodable_instant :: "instant \<Rightarrow> bool" where
  "encodable_instant t \<longleftrightarrow> civil_instant 0 1 1 0 0 0 \<le> t \<and> t < civil_instant 10000 1 1 0 0 0"

lemma encodable_instant_iff:
  "encodable_instant t \<longleftrightarrow> -62167219200 * second \<le> t \<and> t < 253402300800 * second"
  by (simp add: encodable_instant_def civil_instant_def civil_days_def)

subsection \<open>RFC 3339\<close>

text \<open>\<open>getnum\<close>: two digits, or one where the layout allows it.\<close>

definition get_num :: "bool \<Rightarrow> string \<Rightarrow> (nat \<times> string) option" where
  "get_num fixed s = (case s of
     a # b # r \<Rightarrow> if \<not> digit_char a then None
       else if digit_char b then Some ((code a - 48) * 10 + (code b - 48), r)
       else if fixed then None else Some (code a - 48, b # r)
   | [a] \<Rightarrow> if digit_char a \<and> \<not> fixed then Some (code a - 48, []) else None
   | [] \<Rightarrow> None)"

definition get_year :: "string \<Rightarrow> (nat \<times> string) option" where
  "get_year s = (if length s < 4 then None else map_option (\<lambda>y. (y, drop 4 s)) (dec_value (take 4 s) 0))"

definition get_field :: "string \<Rightarrow> bool \<Rightarrow> nat \<Rightarrow> nat \<Rightarrow> string \<Rightarrow> (nat \<times> string) option" where
  "get_field sep fixed low high s = (case cut_prefix s sep of
     None \<Rightarrow> None
   | Some t \<Rightarrow> (case get_num fixed t of
       None \<Rightarrow> None | Some (n, r) \<Rightarrow> if low \<le> n \<and> n \<le> high then Some (n, r) else None))"

text \<open>A fraction of a second, if there is one: at most nine digits count.\<close>

definition get_fraction :: "string \<Rightarrow> int \<times> string" where
  "get_fraction s = (case s of
     p # d # r \<Rightarrow> if (p = CHR ''.'' \<or> p = CHR '','') \<and> digit_char d then
         (let ds = takeWhile (\<lambda>c. digit_char c) (d # r); k = take 9 ds in
          ((case dec_value k 0 of None \<Rightarrow> 0 | Some n \<Rightarrow> int n * 10 ^ (9 - length k)), drop (length ds) (d # r)))
       else (0, s)
   | _ \<Rightarrow> (0, s))"

text \<open>The offset of the zone in minutes; the whole text must be read.\<close>

definition get_zone :: "string \<Rightarrow> int option" where
  "get_zone s = (if s = ''Z'' then Some 0 else (case s of
     sign # r \<Rightarrow> (case get_field [] True 0 24 r of
         None \<Rightarrow> None
       | Some (h, r) \<Rightarrow> (case get_field '':'' True 0 60 r of
           Some (m, []) \<Rightarrow> if sign = CHR ''+'' then Some (int (h * 60 + m))
             else if sign = CHR ''-'' then Some (- int (h * 60 + m)) else None
         | _ \<Rightarrow> None))
   | [] \<Rightarrow> None))"

definition parse_rfc3339 :: "string \<Rightarrow> instant option" where
  "parse_rfc3339 s =
    (case get_year s of None \<Rightarrow> None | Some (y, s) \<Rightarrow>
     case get_field ''-'' True 1 12 s of None \<Rightarrow> None | Some (mo, s) \<Rightarrow>
     case get_field ''-'' True 1 (days_in mo y) s of None \<Rightarrow> None | Some (d, s) \<Rightarrow>
     case get_field ''T'' False 0 23 s of None \<Rightarrow> None | Some (h, s) \<Rightarrow>
     case get_field '':'' True 0 59 s of None \<Rightarrow> None | Some (mi, s) \<Rightarrow>
     case get_field '':'' True 0 59 s of None \<Rightarrow> None | Some (se, s) \<Rightarrow>
     let (nanos, s) = get_fraction s in
     case get_zone s of None \<Rightarrow> None | Some offset \<Rightarrow>
       Some (civil_instant y mo d h mi se + nanos - offset * 60 * second))"

subsection \<open>Scanning integers\<close>

text \<open>\<open>strconv.ParseInt\<close> with base zero: prefixes choose the base, single underscores may separate
  digits. The state of the check of underscores is the class of the last character.\<close>

definition digit_of :: "char \<Rightarrow> nat option" where
  "digit_of c = hex_digit c"

fun underscore_ok :: "bool \<Rightarrow> char \<Rightarrow> string \<Rightarrow> bool" where
  "underscore_ok hex i [] = (i \<noteq> CHR ''_'')"
| "underscore_ok hex i (c # s) =
     (if digit_char c \<or> hex \<and> hex_digit c \<noteq> None then underscore_ok hex (CHR ''0'') s
      else if c = CHR ''_'' then i = CHR ''0'' \<and> underscore_ok hex c s
      else i \<noteq> CHR ''_'' \<and> underscore_ok hex (CHR ''!'') s)"

fun digits_value :: "nat \<Rightarrow> string \<Rightarrow> nat \<Rightarrow> nat option" where
  "digits_value base [] acc = Some acc"
| "digits_value base (c # s) acc =
     (if c = CHR ''_'' then digits_value base s acc
      else case digit_of c of
        None \<Rightarrow> None
      | Some d \<Rightarrow> if d < base then digits_value base s (base * acc + d) else None)"

definition parse_int_base0 :: "string \<Rightarrow> int option" where
  "parse_int_base0 s =
    (let neg = (s \<noteq> [] \<and> hd s = CHR ''-'');
         u = (if s \<noteq> [] \<and> hd s \<in> set ''+-'' then tl s else s);
         l = to_lower (take 2 u);
         (base, ds) = (if l \<in> {''0b'', ''0o'', ''0x''} \<and> 3 \<le> length u
             then (if l = ''0b'' then 2 else if l = ''0o'' then 8 else 16, drop 2 u)
           else if u \<noteq> [] \<and> hd u = CHR ''0'' then (8, tl u) else (10, u));
         checked = (if l \<in> {''0b'', ''0o'', ''0x''} then underscore_ok (l = ''0x'') (CHR ''0'') (drop 2 u)
           else underscore_ok False (CHR ''^'') u) in
     if u = [] \<or> \<not> checked then None else
     case digits_value base ds 0 of None \<Rightarrow> None
     | Some n \<Rightarrow> let v = (if neg then - int n else int n) in
         if - (2 ^ 63) \<le> v \<and> v < 2 ^ 63 then Some v else None)"

text \<open>\<open>fmt.Sscan\<close>: white space is skipped, then the longest text of a number is taken; what follows
  it is not looked at.\<close>

definition scan_token :: "string \<Rightarrow> string option" where
  "scan_token t =
    (let sign = (if t \<noteq> [] \<and> hd t \<in> set ''+-'' then [hd t] else []); u = drop (length sign) t in
     if u \<noteq> [] \<and> hd u = CHR ''0'' then
       (let (p, cs) = (case tl u of
            c # _ \<Rightarrow> if c \<in> set ''bB'' then ([hd u, c], ''01_'')
              else if c \<in> set ''oO'' then ([hd u, c], ''01234567_'')
              else if c \<in> set ''xX'' then ([hd u, c], ''0123456789aAbBcCdDeEfF_'')
              else ([hd u], ''01234567_'')
          | [] \<Rightarrow> ([hd u], [])) in
        Some (sign @ p @ takeWhile (\<lambda>c. c \<in> set cs) (drop (length p) u)))
     else let ds = takeWhile (\<lambda>c. c \<in> set ''0123456789_'') u in
       if ds = [] then None else Some (sign @ ds))"

definition scan_int :: "string \<Rightarrow> int option" where
  "scan_int s = (case scan_token (trim_left s) of None \<Rightarrow> None | Some t \<Rightarrow> parse_int_base0 t)"

lemmas [evaluate] = leap_year_def days_in_def civil_days_def civil_instant_def get_num_def get_year_def
  get_field_def get_fraction_def get_zone_def parse_rfc3339_def digit_of_def parse_int_base0_def
  scan_token_def scan_int_def encodable_instant_iff

end
