(* ===== verification/Oauth_Broker.thy ===== *)
theory Oauth_Broker
  imports Oauth_Config Go_Raw_Json Go_Time Broker_Chain
begin

text \<open>
  The OAuth broker, \<open>internal/oauth/broker.go\<close>: the records of tokens with their placeholders, the
  substitution of placeholders in requests, virtualization of token responses, scrubbing, and the
  state that is persisted. The clock, random bytes and the result of writing the file are arguments;
  encoding the file is \<open>encoding/json\<close>. Maps are association lists, which also fix the order in
  which Go would choose among several errors. The lock is not modelled: every operation reads or
  changes the state in one step. A nil broker is left out by \<open>CombineBrokers\<close>.
\<close>

subsection \<open>State\<close>

datatype substitution_site = Site_Credential | Site_Body

datatype token_kind = Access | Refresh

fun kind_text :: "token_kind \<Rightarrow> string" where
  "kind_text Access = ''access''"
| "kind_text Refresh = ''refresh''"

record token_record =
  tr_broker :: string
  tr_client :: string
  tr_issuer_host :: string
  tr_access :: string
  tr_refresh :: string
  tr_access_placeholder :: string
  tr_refresh_placeholder :: string
  tr_expires :: "instant option"
  tr_updated :: instant

record token_reference =
  tf_key :: string
  tf_kind :: token_kind

record oauth =
  ob_defs :: "oauth_definition list"
  ob_records :: "(string \<times> token_record) list"
  ob_virtual :: "(string \<times> token_reference) list"

record oauth_token_value =
  tv_value :: string
  tv_replacement :: string
  tv_broker :: string
  tv_client :: string
  tv_kind :: token_kind

text \<open>The map \<open>byName\<close>, which never changes: the last definition of a name.\<close>

definition by_name :: "oauth \<Rightarrow> string \<Rightarrow> oauth_definition option" where
  "by_name b name = map_of (rev (map (\<lambda>d. (od_name d, d)) (ob_defs b))) name"

definition map_delete :: "string \<Rightarrow> (string \<times> 'a) list \<Rightarrow> (string \<times> 'a) list" where
  "map_delete k m = filter (\<lambda>e. fst e \<noteq> k) m"

definition oauth_name :: "string \<Rightarrow> token_kind \<Rightarrow> string" where
  "oauth_name broker kind = ''oauth_'' @ broker @ ''_'' @ kind_text kind @ ''_token''"

definition oauth_media_type :: "string \<Rightarrow> string" where
  "oauth_media_type ct = to_lower (trim_space (takeWhile (\<lambda>c. c \<noteq> CHR '';'') ct))"

definition oauth_supported_media :: "string \<Rightarrow> bool" where
  "oauth_supported_media ct = (let m = oauth_media_type ct in json_media m \<or> m = form_media)"

subsection \<open>Placeholders\<close>

definition placeholder_head :: string where
  "placeholder_head = ''VEILGATED_SECRET_OAUTH_''"

definition placeholder_char :: "char \<Rightarrow> bool" where
  "placeholder_char c \<longleftrightarrow> upper_letter c \<or> lower_letter c \<or> digit_char c \<or> c = CHR ''_'' \<or> c = CHR ''-''"

text \<open>\<open>oauthPlaceholderPattern\<close>: the match at the start of a text, and the leftmost match (the empty
  text where there is none).\<close>

definition placeholder_at :: "string \<Rightarrow> string option" where
  "placeholder_at s = (case cut_prefix s placeholder_head of
     None \<Rightarrow> None
   | Some r \<Rightarrow>
       let kind = (if has_prefix r ''ACCESS_'' then ''ACCESS_'' else if has_prefix r ''REFRESH_'' then ''REFRESH_'' else []);
           t = takeWhile placeholder_char (drop (length kind) r) in
       if kind = [] \<or> length t < 32 then None else Some (placeholder_head @ kind @ t))"

fun find_placeholder :: "string \<Rightarrow> string" where
  "find_placeholder [] = []"
| "find_placeholder (c # s) = (case placeholder_at (c # s) of Some m \<Rightarrow> m | None \<Rightarrow> find_placeholder s)"

definition matches_placeholder :: "string \<Rightarrow> bool" where
  "matches_placeholder s \<longleftrightarrow> find_placeholder s \<noteq> []"

definition new_placeholder :: "string \<Rightarrow> string option \<Rightarrow> (string, string) result" where
  "new_placeholder kind random = (case random of
     None \<Rightarrow> Inl ''generate OAuth placeholder''
   | Some bytes \<Rightarrow> Inr (placeholder_head @ kind @ ''_'' @ b64_encode b64_url False bytes))"

definition decode_base64_url :: "string \<Rightarrow> string option" where
  "decode_base64_url s = (case b64_decode b64_url False s of Some b \<Rightarrow> Some b | None \<Rightarrow> b64_decode b64_url True s)"

definition jwt_parts :: "string \<Rightarrow> (string \<times> string \<times> string) option" where
  "jwt_parts token = (case split_on (CHR ''.'') token of [a, b, c] \<Rightarrow> Some (a, b, c) | _ \<Rightarrow> None)"

definition is_jwt :: "string \<Rightarrow> bool" where
  "is_jwt token = (case jwt_parts token of None \<Rightarrow> False | Some (a, b, c) \<Rightarrow>
     a \<noteq> [] \<and> b \<noteq> [] \<and> c \<noteq> [] \<and>
     (case decode_base64_url a of None \<Rightarrow> False | Some header \<Rightarrow> json_unmarshal header \<noteq> None) \<and>
     (case decode_base64_url b of None \<Rightarrow> False | Some payload \<Rightarrow> json_unmarshal payload \<noteq> None))"

text \<open>The field \<open>_veilgate_id\<close> of the claims of a payload: field names are compared without case, the
  last value wins, \<open>null\<close> leaves the field and any other value is an error.\<close>

definition veilgate_id :: "string \<Rightarrow> string option" where
  "veilgate_id payload = (case json_unmarshal payload of
     Some (J_Obj _) \<Rightarrow> (case raw_object payload of None \<Rightarrow> None | Some ms \<Rightarrow>
       foldl (\<lambda>ident (k, raw). if \<not> equal_fold k ''_veilgate_id'' then ident else
           case (ident, json_unmarshal raw) of
             (Some _, Some (J_Str s)) \<Rightarrow> Some s | (_, Some J_Null) \<Rightarrow> ident | _ \<Rightarrow> None) (Some []) ms)
   | Some J_Null \<Rightarrow> Some []
   | _ \<Rightarrow> None)"

definition is_virtual_jwt :: "string \<Rightarrow> bool" where
  "is_virtual_jwt token = (case jwt_parts token of None \<Rightarrow> False | Some (a, b, c) \<Rightarrow>
     a \<noteq> [] \<and> b \<noteq> [] \<and> c \<noteq> [] \<and>
     (case decode_base64_url b of None \<Rightarrow> False | Some payload \<Rightarrow>
       (case veilgate_id payload of None \<Rightarrow> False | Some ident \<Rightarrow> ident \<noteq> [] \<and> find_placeholder ident = ident)))"

definition virtual_jwt_in_credential :: "string \<Rightarrow> bool \<Rightarrow> bool" where
  "virtual_jwt_in_credential text allow_scheme = (let v = trim_space text in
     is_virtual_jwt v \<or> allow_scheme \<and>
       (case cut_on (CHR '' '') v of None \<Rightarrow> False | Some (_, credential) \<Rightarrow> is_virtual_jwt (trim_space credential)))"

text \<open>\<open>makeVirtualJWT\<close>. Assigning to the nil map that a payload \<open>null\<close> decodes to panics.\<close>

datatype jwt_result = Jwt_Failed | Jwt_Panic | Jwt_Made string

definition make_virtual_jwt :: "string \<Rightarrow> string option \<Rightarrow> jwt_result" where
  "make_virtual_jwt real random = (case jwt_parts real of None \<Rightarrow> Jwt_Failed | Some (a, b, c) \<Rightarrow>
     case decode_base64_url a of None \<Rightarrow> Jwt_Failed | Some header \<Rightarrow>
     case decode_base64_url b of None \<Rightarrow> Jwt_Failed | Some payload \<Rightarrow>
     case unmarshal_map payload of None \<Rightarrow> Jwt_Failed | Some claims \<Rightarrow>
     case random of None \<Rightarrow> Jwt_Failed | Some bytes \<Rightarrow>
     case claims of None \<Rightarrow> Jwt_Panic | Some claims \<Rightarrow>
     let ident = b64_encode b64_url False bytes;
         claims = obj_set ''_veilgate_id'' (json_quote (placeholder_head @ ''ACCESS_'' @ ident)) claims in
     Jwt_Made (b64_encode b64_url False header @ ''.'' @ b64_encode b64_url False (marshal_map claims) @ ''.'' @
       b64_encode b64_url False (''veilgate_dummy_signature_'' @ ident)))"

text \<open>The random bytes of one token response; \<open>None\<close> is a failing source.\<close>

record oauth_random =
  rn_jwt :: "string option"
  rn_access :: "string option"
  rn_refresh :: "string option"

datatype observe_error = Observe_Failed string | Observe_Panic

definition new_access_placeholder :: "string \<Rightarrow> string \<Rightarrow> oauth_random \<Rightarrow> (observe_error, string) result" where
  "new_access_placeholder real pre rn =
    (let plain = wrap_error Observe_Failed (new_placeholder
           (if pre \<noteq> [] \<and> has_prefix real pre then ''ACCESS_'' @ pre else ''ACCESS'') (rn_access rn)) in
     if is_jwt real then
       (case make_virtual_jwt real (rn_jwt rn) of
          Jwt_Made p \<Rightarrow> Inr p | Jwt_Panic \<Rightarrow> Inl Observe_Panic | Jwt_Failed \<Rightarrow> plain)
     else plain)"

subsection \<open>Hosts and tokens\<close>

definition token_host_allowed :: "oauth_definition \<Rightarrow> token_kind \<Rightarrow> string \<Rightarrow> bool" where
  "token_host_allowed d kind host = (case kind of
     Refresh \<Rightarrow> canonical_host host = od_issuer_host d
   | Access \<Rightarrow> matches_api_host (od_api_hosts d) (canonical_host host))"

definition is_issuer_host :: "oauth \<Rightarrow> string \<Rightarrow> bool" where
  "is_issuer_host b host = list_ex (\<lambda>d. od_issuer_host d = canonical_host host) (ob_defs b)"

definition match_definition :: "oauth \<Rightarrow> string \<Rightarrow> string \<Rightarrow> string \<Rightarrow> oauth_definition option" where
  "match_definition b client host path =
     find (\<lambda>d. client \<in> set (od_clients d) \<and> od_issuer_host d = canonical_host host \<and> od_token_path d = path) (ob_defs b)"

definition oauth_scopes_host :: "oauth \<Rightarrow> string \<Rightarrow> string \<Rightarrow> bool" where
  "oauth_scopes_host b client host = (let host = canonical_host host in
     list_ex (\<lambda>d. client \<in> set (od_clients d) \<and> (od_issuer_host d = host \<or> matches_api_host (od_api_hosts d) host)) (ob_defs b))"

definition contains_known :: "oauth \<Rightarrow> string \<Rightarrow> bool" where
  "contains_known b data = list_ex (\<lambda>e. contains data (fst e)) (ob_virtual b)"

definition contains_oauth_placeholder :: "oauth \<Rightarrow> string \<Rightarrow> bool" where
  "contains_oauth_placeholder b data \<longleftrightarrow> matches_placeholder data \<or> contains_known b data"

text \<open>The sorted values, longest first; the sorts are stable.\<close>

definition token_values_of :: "token_record \<Rightarrow> oauth_token_value list" where
  "token_values_of r =
    (if tr_access r \<noteq> [] \<and> tr_access_placeholder r \<noteq> [] then [\<lparr>tv_value = tr_access r,
       tv_replacement = tr_access_placeholder r, tv_broker = tr_broker r, tv_client = tr_client r, tv_kind = Access\<rparr>] else []) @
    (if tr_refresh r \<noteq> [] \<and> tr_refresh_placeholder r \<noteq> [] then [\<lparr>tv_value = tr_refresh r,
       tv_replacement = tr_refresh_placeholder r, tv_broker = tr_broker r, tv_client = tr_client r, tv_kind = Refresh\<rparr>] else [])"

definition token_values :: "oauth \<Rightarrow> oauth_token_value list" where
  "token_values b = sort_key (\<lambda>v. - int (length (tv_value v))) (sort_key tv_value (sort_key tv_replacement
     (sort_key tv_broker (sort_key tv_client (sort_key (\<lambda>v. kind_text (tv_kind v))
       (concat (map (\<lambda>e. token_values_of (snd e)) (ob_records b))))))))"

definition virtual_values :: "oauth \<Rightarrow> (string \<times> token_reference) list" where
  "virtual_values b = sort_key (\<lambda>v. - int (length (fst v))) (sort_key fst (ob_virtual b))"

definition valid_credential_value :: "oauth \<Rightarrow> string \<Rightarrow> bool \<Rightarrow> bool" where
  "valid_credential_value b text allow_scheme =
    (let trimmed = trim_space text;
         candidates = [trimmed] @ (case (allow_scheme, cut_on (CHR '' '') trimmed) of
           (True, Some (_, credential)) \<Rightarrow> [trim_space credential] | _ \<Rightarrow> []);
         known = contains_known b text in
     list_ex (\<lambda>c. (case map_of (ob_virtual b) c of None \<Rightarrow> False | Some r \<Rightarrow> tf_key r \<noteq> []) \<or>
       \<not> known \<and> (find_placeholder c = c \<or> is_virtual_jwt c)) candidates)"

subsection \<open>Substitution\<close>

definition zero_definition :: oauth_definition where
  "zero_definition = \<lparr>od_name = [], od_clients = [], od_issuer_host = [], od_token_path = [], od_api_hosts = [],
     od_access_field = [], od_refresh_field = [], od_access_prefix = []\<rparr>"

definition definition_of :: "oauth \<Rightarrow> token_record \<Rightarrow> oauth_definition" where
  "definition_of b r = (case by_name b (tr_broker r) of Some d \<Rightarrow> d | None \<Rightarrow> zero_definition)"

definition real_token :: "token_record \<Rightarrow> token_kind \<Rightarrow> string" where
  "real_token r kind = (case kind of Access \<Rightarrow> tr_access r | Refresh \<Rightarrow> tr_refresh r)"

definition token_expired :: "instant \<Rightarrow> token_record \<Rightarrow> token_kind \<Rightarrow> bool" where
  "token_expired now r kind \<longleftrightarrow> kind = Access \<and> (case tr_expires r of None \<Rightarrow> False | Some t \<Rightarrow> t < now)"

fun replace_loop :: "oauth \<Rightarrow> instant \<Rightarrow> string \<Rightarrow> string \<Rightarrow> (string \<times> token_reference) list \<Rightarrow> string \<Rightarrow> string list
    \<Rightarrow> (string, string \<times> string list) result" where
  "replace_loop b now client host [] out used = Inr (out, used)"
| "replace_loop b now client host ((placeholder, ref) # vs) out used =
     (if \<not> contains out placeholder then replace_loop b now client host vs out used
      else case map_of (ob_records b) (tf_key ref) of
        None \<Rightarrow> Inl ''OAuth token is not authorized for this client''
      | Some r \<Rightarrow>
          if tr_client r \<noteq> client then Inl ''OAuth token is not authorized for this client''
          else if \<not> token_host_allowed (definition_of b r) (tf_kind ref) host
            then Inl ''OAuth token is not authorized for this host''
          else if token_expired now r (tf_kind ref) then Inl ''OAuth access token is expired''
          else if real_token r (tf_kind ref) = [] then Inl ''OAuth token is unavailable''
          else replace_loop b now client host vs (replace_all out placeholder (real_token r (tf_kind ref)))
                 (used @ [oauth_name (tr_broker r) (tf_kind ref)]))"

definition replace_request_value :: "oauth \<Rightarrow> instant \<Rightarrow> string \<Rightarrow> string \<Rightarrow> string \<Rightarrow> bool \<Rightarrow> substitution_site \<Rightarrow> bool
    \<Rightarrow> (string, string \<times> string list) result" where
  "replace_request_value b now text client host secure site allow_scheme =
    (let cred = (site = Site_Credential) in
     if site = Site_Body \<and> \<not> is_issuer_host b host then Inr (text, []) else
     let present = contains_known b text \<or> cred \<and> (matches_placeholder text \<or> virtual_jwt_in_credential text allow_scheme) in
     if \<not> present then Inr (text, [])
     else if cred \<and> \<not> valid_credential_value b text allow_scheme
       then Inl ''OAuth token placeholder must occupy a complete credential value''
     else if \<not> secure then Inl ''OAuth token cannot be used over plaintext HTTP''
     else rbind (replace_loop b now client host (virtual_values b) text []) (\<lambda>(out, used).
       if cred \<and> (matches_placeholder out \<or> virtual_jwt_in_credential out allow_scheme)
         then Inl ''unknown OAuth token placeholder''
       else Inr (out, sorted_names used)))"

definition replace_exact :: "oauth \<Rightarrow> instant \<Rightarrow> string \<Rightarrow> string \<Rightarrow> bool \<Rightarrow> substitution_site \<Rightarrow> string
    \<Rightarrow> (string, string \<times> string list) result" where
  "replace_exact b now client host secure site text =
    rbind (replace_request_value b now text client host secure site False) (\<lambda>(replaced, names).
      if names = [] \<or> replaced = text then Inr (text, []) else Inr (replaced, names))"

text \<open>The loops over the values of one name and over the names of headers, queries and forms, and
  over JSON trees, with the names used.\<close>

fun oauth_entries :: "(string \<Rightarrow> (string, string \<times> string list) result) \<Rightarrow> string list
    \<Rightarrow> (string, string list \<times> string list) result" where
  "oauth_entries f [] = Inr ([], [])"
| "oauth_entries f (v # vs) = rbind (f v) (\<lambda>(w, ns). rbind (oauth_entries f vs) (\<lambda>(ws, used). Inr (w # ws, ns @ used)))"

fun oauth_values :: "(string \<Rightarrow> (string, unit) result) \<Rightarrow> (string \<Rightarrow> string \<Rightarrow> (string, string \<times> string list) result)
    \<Rightarrow> (string \<times> string list) list \<Rightarrow> (string, (string \<times> string list) list \<times> string list) result" where
  "oauth_values check f [] = Inr ([], [])"
| "oauth_values check f ((name, entries) # m) =
     rbind (check name) (\<lambda>_. rbind (oauth_entries (f name) entries) (\<lambda>(ws, used).
       rbind (oauth_values check f m) (\<lambda>(m', used'). Inr ((name, ws) # m', used @ used'))))"

fun oauth_json :: "(string \<Rightarrow> (string, unit) result) \<Rightarrow> (string \<Rightarrow> (string, string \<times> string list) result) \<Rightarrow> json
      \<Rightarrow> (string, json \<times> string list) result"
  and oauth_array :: "(string \<Rightarrow> (string, unit) result) \<Rightarrow> (string \<Rightarrow> (string, string \<times> string list) result) \<Rightarrow> json list
      \<Rightarrow> (string, json list \<times> string list) result"
  and oauth_object :: "(string \<Rightarrow> (string, unit) result) \<Rightarrow> (string \<Rightarrow> (string, string \<times> string list) result)
      \<Rightarrow> (string \<times> json) list \<Rightarrow> (string, (string \<times> json) list \<times> string list) result" where
  "oauth_json check f (J_Str s) = rbind (f s) (\<lambda>(w, ns). Inr (J_Str w, ns))"
| "oauth_json check f (J_Arr vs) = rbind (oauth_array check f vs) (\<lambda>(ws, used). Inr (J_Arr ws, used))"
| "oauth_json check f (J_Obj ms) = rbind (oauth_object check f ms) (\<lambda>(ns, used). Inr (J_Obj ns, used))"
| "oauth_json check f v = Inr (v, [])"
| "oauth_array check f [] = Inr ([], [])"
| "oauth_array check f (v # vs) = rbind (oauth_json check f v) (\<lambda>(w, used).
     rbind (oauth_array check f vs) (\<lambda>(ws, used'). Inr (w # ws, used @ used')))"
| "oauth_object check f [] = Inr ([], [])"
| "oauth_object check f ((k, v) # ms) = rbind (check k) (\<lambda>_. rbind (oauth_json check f v) (\<lambda>(w, used).
     rbind (oauth_object check f ms) (\<lambda>(ns, used'). Inr ((k, w) # ns, used @ used'))))"

definition oauth_apply :: "oauth \<Rightarrow> instant \<Rightarrow> headers \<Rightarrow> string \<Rightarrow> string \<Rightarrow> bool
    \<Rightarrow> (string, headers \<times> string list) result" where
  "oauth_apply b now h client host secure =
    rbind (oauth_values (\<lambda>_. Inr ()) (\<lambda>name v. wrap_error (\<lambda>e. ''inspect '' @ name @ '': '' @ e)
        (replace_request_value b now v client host secure Site_Credential True)) h) (\<lambda>(h, used).
      Inr (h, sorted_names used))"

text \<open>\<open>SubstituteQuery\<close>; the query is encoded anew even where no placeholder is found.\<close>

definition oauth_query :: "oauth \<Rightarrow> instant \<Rightarrow> string \<Rightarrow> string \<Rightarrow> string \<Rightarrow> bool
    \<Rightarrow> (string, string \<times> string list) result" where
  "oauth_query b now raw client host secure = (if raw = [] then Inr (raw, []) else
     rbind (of_option ''query string is malformed'' (parse_query raw)) (\<lambda>vals.
     rbind (oauth_values (\<lambda>name. require (\<not> contains_oauth_placeholder b name)
         ''OAuth token placeholders are not allowed in query names'')
       (\<lambda>_. replace_exact b now client host secure Site_Credential) vals) (\<lambda>(vals, used).
       Inr (values_encode vals, sorted_names used))))"

definition oauth_body :: "oauth \<Rightarrow> instant \<Rightarrow> string \<Rightarrow> string \<Rightarrow> string \<Rightarrow> string \<Rightarrow> bool
    \<Rightarrow> (string \<times> bool, string \<times> string list \<times> bool) result" where
  "oauth_body b now ct body client host secure =
    (if body = [] \<or> \<not> is_issuer_host b host then Inr (body, [], oauth_supported_media ct) else
     let media_type = oauth_media_type ct; f = replace_exact b now client host secure Site_Body in
     if json_media media_type then wrap_error (\<lambda>e. (e, True))
       (rbind (of_option ''JSON request body is malformed'' (json_decode body)) (\<lambda>(v, rest).
        rbind (require (json_at_end rest) ''JSON request body contains trailing data'') (\<lambda>_.
        rbind (oauth_json (\<lambda>name. require (\<not> contains_oauth_placeholder b name)
            ''OAuth token placeholders are not allowed in JSON field names'') f v) (\<lambda>(w, used).
          Inr (if used = [] then body else json_marshal w, sorted_names used, True)))))
     else if media_type = form_media then wrap_error (\<lambda>e. (e, True))
       (rbind (of_option ''form request body is malformed'' (parse_query body)) (\<lambda>vals.
        rbind (oauth_values (\<lambda>name. require (\<not> contains_oauth_placeholder b name)
            ''OAuth token placeholders are not allowed in form names'') (\<lambda>_. f) vals) (\<lambda>(vals, used).
          Inr (if used = [] then body else values_encode vals, sorted_names used, True))))
     else if contains_known b body
       then Inl (''OAuth token placeholder appears in an unsupported request body'', False)
     else Inr (body, [], False))"

definition oauth_json_message :: "oauth \<Rightarrow> instant \<Rightarrow> string \<Rightarrow> string \<Rightarrow> string \<Rightarrow> (string, string \<times> string list) result" where
  "oauth_json_message b now body client host = (case oauth_body b now ''application/json'' body client host True of
     Inl (e, _) \<Rightarrow> Inl e | Inr (body, names, _) \<Rightarrow> Inr (body, names))"

subsection \<open>Scrub and Sanitize\<close>

definition token_in_scope :: "oauth \<Rightarrow> string \<Rightarrow> string \<Rightarrow> oauth_token_value \<Rightarrow> bool" where
  "token_in_scope b client host v = (case by_name b (tv_broker v) of
     None \<Rightarrow> False
   | Some d \<Rightarrow> tv_client v = client \<and> (canonical_host host = od_issuer_host d \<or>
       token_host_allowed d (tv_kind v) (canonical_host host)))"

fun scrub_tokens :: "oauth \<Rightarrow> string \<Rightarrow> string \<Rightarrow> oauth_token_value list \<Rightarrow> string \<Rightarrow> string list \<Rightarrow> string \<times> string list" where
  "scrub_tokens b client host [] out used = (out, used)"
| "scrub_tokens b client host (v # vs) out used =
     (if token_in_scope b client host v \<and> contains out (tv_value v)
      then scrub_tokens b client host vs (replace_all out (tv_value v) (tv_replacement v))
             (used @ [oauth_name (tv_broker v) (tv_kind v)])
      else scrub_tokens b client host vs out used)"

definition oauth_scrub :: "oauth \<Rightarrow> string \<Rightarrow> string \<Rightarrow> string \<Rightarrow> string \<times> string list" where
  "oauth_scrub b data client host = (if data = [] then (data, []) else
     let (out, used) = scrub_tokens b client host (token_values b) data [] in (out, sorted_names used))"

definition sanitize_token :: "string \<Rightarrow> oauth_token_value \<Rightarrow> string" where
  "sanitize_token out v =
    (let marker = ''[secret:'' @ oauth_name (tv_broker v) (tv_kind v) @ '']'' in
     foldl (\<lambda>out s. if s \<noteq> [] then replace_all out s marker else out) out [tv_value v, tv_replacement v])"

definition oauth_sanitize :: "oauth \<Rightarrow> string \<Rightarrow> string" where
  "oauth_sanitize b data = (if data = [] then data else foldl sanitize_token data (token_values b))"

definition oauth_names_for :: "oauth \<Rightarrow> string \<Rightarrow> string list" where
  "oauth_names_for b data = sorted_names (concat (map (\<lambda>(placeholder, ref).
     if \<not> contains data placeholder then [] else
     case map_of (ob_records b) (tf_key ref) of None \<Rightarrow> [] | Some r \<Rightarrow> [oauth_name (tr_broker r) (tf_kind ref)])
     (ob_virtual b)))"

subsection \<open>Token responses\<close>

definition parse_time_int :: "instant \<Rightarrow> int \<Rightarrow> instant" where
  "parse_time_int now v = (if v < 1000000000 then now + v * second
     else if v < 100000000000 then v * second else v * 1000000)"

definition positive_time :: "instant \<Rightarrow> int option \<Rightarrow> instant option" where
  "positive_time now n = (case n of None \<Rightarrow> None | Some v \<Rightarrow> if 0 < v then Some (parse_time_int now v) else None)"

definition expiry_of :: "instant \<Rightarrow> string \<Rightarrow> instant option" where
  "expiry_of now raw = (case positive_time now (unmarshal_int raw) of
     Some t \<Rightarrow> Some t
   | None \<Rightarrow> (case unmarshal_string raw of
       None \<Rightarrow> None
     | Some s \<Rightarrow> if s = [] then None else
         (case positive_time now (scan_int s) of Some t \<Rightarrow> Some t | None \<Rightarrow> parse_rfc3339 s)))"

fun token_expiry :: "instant \<Rightarrow> string list \<Rightarrow> instant option" where
  "token_expiry now [] = None"
| "token_expiry now (raw # raws) =
     (if raw = [] \<or> raw = ''null'' then token_expiry now raws
      else case expiry_of now raw of Some t \<Rightarrow> Some t | None \<Rightarrow> token_expiry now raws)"

text \<open>\<open>jsonString\<close> of a member that may be missing.\<close>

definition raw_string :: "string option \<Rightarrow> string option" where
  "raw_string raw = (case raw of None \<Rightarrow> None | Some t \<Rightarrow> if t = [] \<or> t = ''null'' then None else unmarshal_string t)"

definition token_key :: "string \<Rightarrow> string \<Rightarrow> string" where
  "token_key broker client = broker @ [CHR 0x00] @ client"

text \<open>The file that \<open>writeState\<close> writes, and its result: encoding fails for a time outside the years
  that JSON times can have, otherwise the file system decides.\<close>

definition snapshot :: "oauth \<Rightarrow> token_record list" where
  "snapshot b = sort_key tr_broker (sort_key tr_client (map snd (ob_records b)))"

definition write_state :: "oauth \<Rightarrow> (string, unit) result \<Rightarrow> (string, unit) result" where
  "write_state b written =
    (if list_all (\<lambda>r. encodable_instant (tr_updated r) \<and>
          (case tr_expires r of None \<Rightarrow> True | Some t \<Rightarrow> encodable_instant t)) (snapshot b)
     then written
     else Inl ''encode OAuth auth state: Time.MarshalJSON: year outside of range [0,9999]'')"

text \<open>The update of the maps under the lock.\<close>

definition empty_record :: token_record where
  "empty_record = \<lparr>tr_broker = [], tr_client = [], tr_issuer_host = [], tr_access = [], tr_refresh = [],
     tr_access_placeholder = [], tr_refresh_placeholder = [], tr_expires = None, tr_updated = 0\<rparr>"

definition old_record :: "oauth \<Rightarrow> string \<Rightarrow> token_record" where
  "old_record b key = (case map_of (ob_records b) key of Some r \<Rightarrow> r | None \<Rightarrow> empty_record)"

definition store_record :: "string \<Rightarrow> token_record \<Rightarrow> oauth \<Rightarrow> oauth" where
  "store_record key r b =
    (let old = old_record b key; v = ob_virtual b;
         v = (if tr_access_placeholder old \<noteq> [] then map_delete (tr_access_placeholder old) v else v);
         v = (if tr_refresh_placeholder old \<noteq> [] then map_delete (tr_refresh_placeholder old) v else v);
         v = obj_set (tr_access_placeholder r) \<lparr>tf_key = key, tf_kind = Access\<rparr> v;
         v = (if tr_refresh_placeholder r \<noteq> []
              then obj_set (tr_refresh_placeholder r) \<lparr>tf_key = key, tf_kind = Refresh\<rparr> v else v) in
     b\<lparr>ob_records := obj_set key r (ob_records b), ob_virtual := v\<rparr>)"

text \<open>The tokens of a response: access token, refresh token, and whether there is a refresh token.\<close>

definition response_tokens :: "oauth_definition \<Rightarrow> (string \<times> string) list \<Rightarrow> (observe_error, string \<times> string \<times> bool) result" where
  "response_tokens d ms =
    (case raw_string (map_of ms (od_access_field d)) of
       None \<Rightarrow> Inl (Observe_Failed (''configured OAuth response lacks '' @ od_access_field d))
     | Some access \<Rightarrow> if access = [] then Inl (Observe_Failed (''configured OAuth response lacks '' @ od_access_field d)) else
     let raw = map_of ms (od_refresh_field d); refresh = raw_string raw in
     if (case raw of None \<Rightarrow> False | Some t \<Rightarrow> t \<noteq> ''null'') \<and> refresh = None
       then Inl (Observe_Failed (''configured OAuth field '' @ od_refresh_field d @ '' is not a string''))
     else Inr (access, (case refresh of None \<Rightarrow> [] | Some t \<Rightarrow> t), refresh \<noteq> None))"

text \<open>The placeholders, and the record that replaces the old one: a response without a refresh token
  keeps the old one.\<close>

definition new_record :: "oauth \<Rightarrow> instant \<Rightarrow> oauth_random \<Rightarrow> oauth_definition \<Rightarrow> string \<Rightarrow> (string \<times> string) list
    \<Rightarrow> (observe_error, token_record \<times> bool) result" where
  "new_record b now rn d client ms =
    rbind (response_tokens d ms) (\<lambda>(access, refresh, has_refresh).
    rbind (new_access_placeholder access (od_access_prefix d) rn) (\<lambda>access_placeholder.
    rbind (if has_refresh \<and> refresh \<noteq> []
           then wrap_error Observe_Failed (new_placeholder ''REFRESH'' (rn_refresh rn)) else Inr []) (\<lambda>refresh_placeholder.
    let old = old_record b (token_key (od_name d) client);
        keep = (\<not> has_refresh \<and> tr_refresh old \<noteq> [] \<and> tr_refresh_placeholder old \<noteq> []) in
    Inr (\<lparr>tr_broker = od_name d, tr_client = client, tr_issuer_host = od_issuer_host d, tr_access = access,
        tr_refresh = (if keep then tr_refresh old else refresh), tr_access_placeholder = access_placeholder,
        tr_refresh_placeholder = (if keep then tr_refresh_placeholder old else refresh_placeholder),
        tr_expires = token_expiry now (map (\<lambda>k. case map_of ms k of None \<Rightarrow> [] | Some t \<Rightarrow> t) [''expires_in'', ''expires_at'']),
        tr_updated = now\<rparr>,
      has_refresh \<or> keep))))"

text \<open>The response that the client gets.\<close>

definition virtual_response :: "oauth_definition \<Rightarrow> (string \<times> string) list \<Rightarrow> token_record \<Rightarrow> bool \<Rightarrow> string \<times> string list" where
  "virtual_response d ms r has_refresh =
    (let ms = obj_set (od_access_field d) (json_quote (tr_access_placeholder r)) ms;
         ms = (if has_refresh \<and> tr_refresh_placeholder r \<noteq> []
           then obj_set (od_refresh_field d) (json_quote (tr_refresh_placeholder r)) ms else ms) in
     (marshal_map ms, [oauth_name (od_name d) Access] @
       (if tr_refresh_placeholder r \<noteq> [] then [oauth_name (od_name d) Refresh] else [])))"

definition observe_token_response :: "oauth \<Rightarrow> instant \<Rightarrow> oauth_random \<Rightarrow> (string, unit) result
    \<Rightarrow> request \<Rightarrow> response \<Rightarrow> string \<Rightarrow> string \<Rightarrow> string
    \<Rightarrow> (observe_error, string \<times> string list) result \<times> oauth" where
  "observe_token_response b now rn written req resp body client host =
    (if rs_code resp < 200 \<or> 300 \<le> rs_code resp then (Inr (body, []), b) else
     case rq_url req of None \<Rightarrow> (Inl Observe_Panic, b) | Some u \<Rightarrow>
     case match_definition b client host (u_path u) of None \<Rightarrow> (Inr (body, []), b) | Some d \<Rightarrow>
     if \<not> json_media (oauth_media_type (header_get (rs_header resp) ''Content-Type''))
       then (Inl (Observe_Failed ''configured OAuth token response is not JSON''), b) else
     case unmarshal_map body of
       None \<Rightarrow> (Inl (Observe_Failed ''configured OAuth token response is malformed JSON''), b)
     | Some ms \<Rightarrow>
     let ms = (case ms of None \<Rightarrow> [] | Some m \<Rightarrow> m) in
     case new_record b now rn d client ms of Inl e \<Rightarrow> (Inl e, b) | Inr (r, has_refresh) \<Rightarrow>
     let b = store_record (token_key (od_name d) client) r b in
     case write_state b written of Inl e \<Rightarrow> (Inl (Observe_Failed e), b) | Inr _ \<Rightarrow>
     (Inr (virtual_response d ms r has_refresh), b))"

subsection \<open>The state file\<close>

text \<open>What \<open>loadState\<close> finds at the path, up to the decoded file: inspecting, securing, reading and
  decoding it may fail.\<close>

datatype auth_source = Auth_Missing | Auth_Failed string | Auth_Symlink | Auth_File int "token_record list"

definition load_record :: "token_record \<Rightarrow> oauth \<Rightarrow> (string, oauth) result" where
  "load_record r b =
    (let key = token_key (tr_broker r) (tr_client r);
         live = (\<lambda>v p. case map_of v p of None \<Rightarrow> False | Some ref \<Rightarrow> tf_key ref \<noteq> []) in
     if (case by_name b (tr_broker r) of None \<Rightarrow> True | Some d \<Rightarrow> tr_client r \<notin> set (od_clients d)) \<or>
        tr_access r = [] \<or> tr_access_placeholder r = []
       then Inl ''OAuth auth file contains a token outside current policy''
     else if map_of (ob_records b) key \<noteq> None \<or> live (ob_virtual b) (tr_access_placeholder r)
       then Inl ''OAuth auth file contains duplicate token state''
     else let b = b\<lparr>ob_records := obj_set key r (ob_records b),
             ob_virtual := obj_set (tr_access_placeholder r) \<lparr>tf_key = key, tf_kind = Access\<rparr> (ob_virtual b)\<rparr> in
       if tr_refresh_placeholder r = [] then Inr b
       else if tr_refresh r = [] \<or> live (ob_virtual b) (tr_refresh_placeholder r)
         then Inl ''OAuth auth file contains invalid refresh token state''
       else Inr (b\<lparr>ob_virtual := obj_set (tr_refresh_placeholder r) \<lparr>tf_key = key, tf_kind = Refresh\<rparr> (ob_virtual b)\<rparr>))"

fun load_records :: "token_record list \<Rightarrow> oauth \<Rightarrow> (string, oauth) result" where
  "load_records [] b = Inr b"
| "load_records (r # rs) b = rbind (load_record r b) (load_records rs)"

definition load_state :: "auth_source \<Rightarrow> oauth \<Rightarrow> (string, oauth) result" where
  "load_state source b = (case source of
     Auth_Missing \<Rightarrow> Inr b
   | Auth_Failed e \<Rightarrow> Inl e
   | Auth_Symlink \<Rightarrow> Inl ''OAuth auth file must not be a symbolic link''
   | Auth_File version tokens \<Rightarrow> if version \<noteq> 1 then Inl ''unsupported OAuth auth file version'' else load_records tokens b)"

datatype new_oauth_error = Bad_Policy oauth_config_error | Bad_Path | Bad_State string

definition new_oauth :: "oauth_definition list \<Rightarrow> string \<Rightarrow> auth_source \<Rightarrow> (new_oauth_error, oauth) result" where
  "new_oauth ds auth_path source =
    rbind (wrap_error Bad_Policy (validate_oauth ds)) (\<lambda>ds.
    rbind (require (trim_space auth_path \<noteq> []) Bad_Path) (\<lambda>_.
      wrap_error Bad_State (load_state source \<lparr>ob_defs = ds, ob_records = [], ob_virtual = []\<rparr>)))"

subsection \<open>The broker as the proxy sees it\<close>

definition oauth_secret_broker :: "instant \<Rightarrow> oauth \<Rightarrow> secret_broker" where
  "oauth_secret_broker now b = \<lparr>
     sb_apply = oauth_apply b now, sb_query = oauth_query b now, sb_body = oauth_body b now,
     sb_json = oauth_json_message b now, sb_scrub = oauth_scrub b, sb_sanitize = oauth_sanitize b,
     sb_contains = contains_known b, sb_names_for = (\<lambda>data _ _. oauth_names_for b data),
     sb_scopes = Some (oauth_scopes_host b)\<rparr>"

lemmas [evaluate] = by_name_def map_delete_def oauth_name_def oauth_media_type_def oauth_supported_media_def
  placeholder_head_def placeholder_char_def placeholder_at_def matches_placeholder_def new_placeholder_def
  decode_base64_url_def jwt_parts_def is_jwt_def veilgate_id_def is_virtual_jwt_def virtual_jwt_in_credential_def
  make_virtual_jwt_def new_access_placeholder_def token_host_allowed_def is_issuer_host_def match_definition_def
  oauth_scopes_host_def contains_known_def contains_oauth_placeholder_def token_values_of_def token_values_def
  virtual_values_def valid_credential_value_def definition_of_def real_token_def token_expired_def
  replace_request_value_def replace_exact_def oauth_apply_def oauth_query_def

subsection \<open>The contract of the proxy\<close>

text \<open>What one value becomes: nothing is substituted without \<open>secure\<close>, and a value for which no name
  is reported stays as it is.\<close>

lemma replace_loop_grows: "replace_loop b now client host vs out used = Inr (out', used') \<Longrightarrow> length used \<le> length used'"
  by (induction vs arbitrary: out used) (fastforce split: if_splits option.splits)+

lemma replace_loop_silent:
  "replace_loop b now client host vs out used = Inr (out', used') \<Longrightarrow> length used' = length used \<Longrightarrow>
    out' = out \<and> (\<forall>v \<in> set vs. \<not> contains out (fst v))"
proof (induction vs arbitrary: out used)
  case (Cons v vs)
  obtain p ref where v: "v = (p, ref)" by (cases v)
  show ?case
  proof (cases "contains out p")
    case True
    with Cons.prems(1) obtain out1 n where "replace_loop b now client host vs out1 (used @ [n]) = Inr (out', used')"
      by (auto simp: v split: if_splits option.splits)
    then have "length (used @ [n]) \<le> length used'" by (rule replace_loop_grows)
    with Cons.prems(2) show ?thesis by simp
  next
    case False
    with Cons.IH [of out used] Cons.prems show ?thesis by (simp add: v)
  qed
qed simp

lemma replace_request_value_plain:
  "replace_request_value b now v client host False site scheme = Inr (w, names) \<Longrightarrow> names = []"
  by (auto simp: replace_request_value_def Let_def split: if_splits)

lemma replace_request_value_silent:
  assumes "replace_request_value b now v client host secure site scheme = Inr (w, [])" shows "w = v"
  using assms replace_loop_silent [of b now client host "virtual_values b" v "[]" w "[]"]
  by (auto simp: replace_request_value_def Let_def split: if_splits)

lemma replace_exact_plain: "replace_exact b now client host False site v = Inr (w, names) \<Longrightarrow> names = []"
  by (auto simp: replace_exact_def split: if_splits dest!: replace_request_value_plain)

lemma replace_exact_silent: "replace_exact b now client host secure site v = Inr (w, []) \<Longrightarrow> w = v"
  by (auto simp: replace_exact_def split: if_splits)

lemma oauth_entries_names:
  assumes "\<And>v w ns. f v = Inr (w, ns) \<Longrightarrow> ns = []" shows "oauth_entries f vs = Inr (ws, used) \<Longrightarrow> used = []"
  by (induction vs arbitrary: ws used) (auto dest!: assms)

lemma oauth_values_names:
  assumes "\<And>n v w ns. f n v = Inr (w, ns) \<Longrightarrow> ns = []" shows "oauth_values check f m = Inr (m', used) \<Longrightarrow> used = []"
proof (induction m arbitrary: m' used)
  case (Cons e m)
  obtain n vs where e: "e = (n, vs)" by (cases e)
  have "oauth_entries (f n) vs = Inr (ws, used') \<Longrightarrow> used' = []" for ws used'
    by (rule oauth_entries_names) (rule assms)
  with Cons show ?case by (auto simp: e)
qed simp

lemma oauth_entries_silent:
  assumes "\<And>v w. f v = Inr (w, []) \<Longrightarrow> w = v" shows "oauth_entries f vs = Inr (ws, []) \<Longrightarrow> ws = vs"
  by (induction vs arbitrary: ws) (auto dest!: assms)

lemma oauth_values_silent:
  assumes "\<And>n v w. f n v = Inr (w, []) \<Longrightarrow> w = v"
  shows "oauth_values check f m = Inr (m', []) \<Longrightarrow> m' = m"
proof (induction m arbitrary: m')
  case (Cons e m)
  obtain n vs where e: "e = (n, vs)" by (cases e)
  with Cons show ?case using oauth_entries_silent [of "f n"] assms by auto
qed simp

lemma oauth_json_names:
  assumes f: "\<And>v w ns. f v = Inr (w, ns) \<Longrightarrow> ns = []"
  shows "oauth_json check f t = Inr (t', used) \<Longrightarrow> used = []"
proof (induction t arbitrary: t' used)
  case (J_Str s)
  then show ?case by (auto dest: f)
next
  case (J_Arr vs)
  have "oauth_array check f ws = Inr (ts, us) \<Longrightarrow> set ws \<subseteq> set vs \<Longrightarrow> us = []" for ws ts us
    by (induction ws arbitrary: ts us) (auto dest!: J_Arr.IH)
  with J_Arr.prems show ?case by auto
next
  case (J_Obj ms)
  have "oauth_object check f ws = Inr (ts, us) \<Longrightarrow> set ws \<subseteq> set ms \<Longrightarrow> us = []" for ws ts us
  proof (induction ws arbitrary: ts us)
    case (Cons w ws)
    then obtain k v t1 u1 ts1 us1 where "w = (k, v)" "oauth_json check f v = Inr (t1, u1)"
      "oauth_object check f ws = Inr (ts1, us1)" "us = u1 @ us1" by (cases w) auto
    with Cons.IH Cons.prems(2) J_Obj.IH [of w v] show ?case by simp
  qed simp
  with J_Obj.prems show ?case by auto
qed auto

lemma oauth_query_plain:
  assumes "oauth_query b now raw client host False = Inr (raw', names)" shows "names = []"
proof (cases "raw = []")
  case False
  with assms obtain vals vals' used where
    "oauth_values (\<lambda>name. require (\<not> contains_oauth_placeholder b name) ''OAuth token placeholders are not allowed in query names'')
      (\<lambda>_. replace_exact b now client host False Site_Credential) vals = Inr (vals', used)" "names = sorted_names used"
    by (auto simp: oauth_query_def)
  moreover from this(1) have "used = []" by (rule oauth_values_names [rotated]) (rule replace_exact_plain)
  ultimately show ?thesis by simp
qed (use assms in \<open>simp add: oauth_query_def\<close>)

lemma oauth_body_plain:
  assumes "oauth_body b now ct body client host False = Inr (body', names, s)" shows "names = []"
proof -
  have "used = []" if "oauth_values check (\<lambda>_. replace_exact b now client host False Site_Body) m = Inr (m', used)" for check m m' used
    using that by (rule oauth_values_names [rotated]) (rule replace_exact_plain)
  moreover have "used = []" if "oauth_json check (replace_exact b now client host False Site_Body) t = Inr (t', used)" for check t t' used
    using that by (rule oauth_json_names [rotated]) (rule replace_exact_plain)
  ultimately show ?thesis
    using assms by (auto simp: oauth_body_def Let_def split: if_splits)
qed

lemma oauth_apply_plain:
  assumes "oauth_apply b now h client host False = Inr (h', names)" shows "names = []"
proof -
  from assms obtain used where "oauth_values (\<lambda>_. Inr ()) (\<lambda>name v. wrap_error (\<lambda>e. ''inspect '' @ name @ '': '' @ e)
      (replace_request_value b now v client host False Site_Credential True)) h = Inr (h', used)" "names = sorted_names used"
    by (auto simp: oauth_apply_def)
  moreover from this(1) have "used = []"
    by (rule oauth_values_names [rotated]) (auto dest: replace_request_value_plain)
  ultimately show ?thesis by simp
qed

lemma oauth_apply_silent:
  assumes "oauth_apply b now h client host secure = Inr (h', [])" shows "h' = h"
proof -
  from assms have "oauth_values (\<lambda>_. Inr ()) (\<lambda>name v. wrap_error (\<lambda>e. ''inspect '' @ name @ '': '' @ e)
      (replace_request_value b now v client host secure Site_Credential True)) h = Inr (h', [])"
    by (auto simp: oauth_apply_def)
  then show ?thesis by (rule oauth_values_silent [rotated]) (auto dest: replace_request_value_silent)
qed

lemma oauth_body_silent: "oauth_body b now ct body client host secure = Inr (body', [], s) \<Longrightarrow> body' = body"
  by (auto simp: oauth_body_def Let_def split: if_splits)

lemma scrub_tokens_names:
  "scrub_tokens b client host vs out used = (out', used') \<Longrightarrow> length used \<le> length used' \<and>
    (length used' = length used \<longrightarrow> out' = out \<and> (\<forall>v \<in> set vs. token_in_scope b client host v \<longrightarrow> \<not> contains out (tv_value v)))"
  by (induction vs arbitrary: out used) (fastforce split: if_splits)+

lemma oauth_scrub_quiet: "oauth_scrub b data client host = (data', []) \<Longrightarrow> data' = data"
  using scrub_tokens_names [of b client host "token_values b" data "[]"]
  by (auto simp: oauth_scrub_def split: if_splits prod.splits)

interpretation oauth_mediation: mediating_broker "oauth_secret_broker now b" for now b
proof unfold_locales
qed (auto simp: oauth_secret_broker_def dest: oauth_apply_plain oauth_apply_silent oauth_query_plain oauth_body_plain
  oauth_body_silent oauth_scrub_quiet)

lemma oauth_mediates: "mediating_broker (oauth_secret_broker now b)"
  by (rule oauth_mediation.mediating_broker_axioms)

end
