(* ===== verification/Oauth_Tokens.thy ===== *)
theory Oauth_Tokens
  imports Oauth_Broker
begin

text \<open>
  Properties of the OAuth broker (\<open>internal/oauth/broker.go\<close>): the invariant that ties the live
  placeholders to the records, its preservation from \<open>New\<close> through all token responses, persistence,
  the confinement of tokens to their client and hosts, and two faults.
\<close>

subsection \<open>Placeholders of records\<close>

lemma map_of_map_delete [simp]: "map_of (map_delete k m) = (map_of m)(k := None)"
  unfolding map_delete_def by (induction m) (auto simp: fun_eq_iff)

definition token_placeholder :: "token_record \<Rightarrow> token_kind \<Rightarrow> string" where
  "token_placeholder r kind = (case kind of Access \<Rightarrow> tr_access_placeholder r | Refresh \<Rightarrow> tr_refresh_placeholder r)"

lemma token_placeholder_simps [simp]:
  "token_placeholder r Access = tr_access_placeholder r" "token_placeholder r Refresh = tr_refresh_placeholder r"
  by (simp_all add: token_placeholder_def)

lemma real_token_simps [simp]: "real_token r Access = tr_access r" "real_token r Refresh = tr_refresh r"
  by (simp_all add: real_token_def)

text \<open>A record that the policy allows.\<close>

definition record_ok :: "oauth \<Rightarrow> string \<Rightarrow> token_record \<Rightarrow> bool" where
  "record_ok b key r \<longleftrightarrow> key = token_key (tr_broker r) (tr_client r) \<and>
     (\<exists>d. by_name b (tr_broker r) = Some d \<and> tr_client r \<in> set (od_clients d)) \<and>
     tr_access r \<noteq> [] \<and> tr_access_placeholder r \<noteq> [] \<and> (tr_refresh_placeholder r \<noteq> [] \<longrightarrow> tr_refresh r \<noteq> [])"

definition oauth_ok :: "oauth \<Rightarrow> bool" where
  "oauth_ok b \<longleftrightarrow> wf_oauth (ob_defs b) \<and> (\<forall>key r. map_of (ob_records b) key = Some r \<longrightarrow> record_ok b key r) \<and>
     (\<forall>p ref. map_of (ob_virtual b) p = Some ref \<longleftrightarrow>
        p \<noteq> [] \<and> (\<exists>r. map_of (ob_records b) (tf_key ref) = Some r \<and> token_placeholder r (tf_kind ref) = p)) \<and>
     distinct (map fst (ob_records b)) \<and> distinct (map fst (ob_virtual b))"

lemma distinct_obj_set: "distinct (map fst m) \<Longrightarrow> distinct (map fst (obj_set k v m))"
proof -
  have "map fst (obj_set k v m) = (if k \<in> fst ` set m then map fst m else map fst m @ [k])" by (induction m) auto
  then show "distinct (map fst m) \<Longrightarrow> ?thesis" by auto
qed

lemma distinct_map_delete: "distinct (map fst m) \<Longrightarrow> distinct (map fst (map_delete k m))"
  by (simp add: map_delete_def distinct_map_filter)

lemma oauth_ok_virtual:
  "oauth_ok b \<Longrightarrow> map_of (ob_virtual b) p = Some ref \<longleftrightarrow>
     p \<noteq> [] \<and> (\<exists>r. map_of (ob_records b) (tf_key ref) = Some r \<and> token_placeholder r (tf_kind ref) = p)"
  by (simp add: oauth_ok_def)

lemma oauth_ok_record: "oauth_ok b \<Longrightarrow> map_of (ob_records b) key = Some r \<Longrightarrow> record_ok b key r"
  by (simp add: oauth_ok_def)

text \<open>A live placeholder determines its record and kind.\<close>

lemma oauth_ok_inject:
  assumes "oauth_ok b" "map_of (ob_records b) key = Some r" "map_of (ob_records b) key' = Some r'"
    and "token_placeholder r kind = token_placeholder r' kind'" "token_placeholder r kind \<noteq> []"
  shows "key = key' \<and> kind = kind'"
proof -
  have "map_of (ob_virtual b) (token_placeholder r kind) = Some \<lparr>tf_key = key, tf_kind = kind\<rparr>"
    using assms by (simp add: oauth_ok_virtual)
  moreover have "map_of (ob_virtual b) (token_placeholder r kind) = Some \<lparr>tf_key = key', tf_kind = kind'\<rparr>"
    using assms by (simp add: oauth_ok_virtual)
  ultimately show ?thesis by simp
qed

subsection \<open>Storing a record\<close>

text \<open>The placeholders of a record to be stored: live for the same use at most, and different.\<close>

definition fresh_for :: "oauth \<Rightarrow> string \<Rightarrow> token_record \<Rightarrow> bool" where
  "fresh_for b key r \<longleftrightarrow> (\<forall>kind. map_of (ob_virtual b) (token_placeholder r kind) \<in> {None, Some \<lparr>tf_key = key, tf_kind = kind\<rparr>})"

lemma store_record_maps:
  "map_of (ob_records (store_record key r b)) = (map_of (ob_records b))(key \<mapsto> r)"
  "ob_defs (store_record key r b) = ob_defs b"
  by (simp_all add: store_record_def Let_def)

lemma store_record_distinct:
  assumes "distinct (map fst (ob_records b))" and "distinct (map fst (ob_virtual b))"
  shows "distinct (map fst (ob_records (store_record key r b)))" "distinct (map fst (ob_virtual (store_record key r b)))"
  using assms by (auto simp: store_record_def Let_def intro!: distinct_obj_set distinct_map_delete)

lemma by_name_store [simp]: "by_name (store_record key r b) = by_name b"
  by (simp add: by_name_def store_record_maps fun_eq_iff)

lemma store_record_virtual:
  "map_of (ob_virtual (store_record key r b)) p =
     (if p = tr_refresh_placeholder r \<and> p \<noteq> [] then Some \<lparr>tf_key = key, tf_kind = Refresh\<rparr>
      else if p = tr_access_placeholder r then Some \<lparr>tf_key = key, tf_kind = Access\<rparr>
      else if p \<noteq> [] \<and> (\<exists>kind. token_placeholder (old_record b key) kind = p) then None
      else map_of (ob_virtual b) p)"
proof -
  have ex: "(\<exists>kind. token_placeholder r kind = p) \<longleftrightarrow> tr_access_placeholder r = p \<or> tr_refresh_placeholder r = p" for r
    by (metis (full_types) token_placeholder_simps token_kind.exhaust)
  let ?v = "(if tr_access_placeholder (old_record b key) \<noteq> [] then map_delete (tr_access_placeholder (old_record b key)) (ob_virtual b) else ob_virtual b)"
  let ?w = "(if tr_refresh_placeholder (old_record b key) \<noteq> [] then map_delete (tr_refresh_placeholder (old_record b key)) ?v else ?v)"
  have "map_of ?w p = (if p \<noteq> [] \<and> (\<exists>kind. token_placeholder (old_record b key) kind = p) then None else map_of (ob_virtual b) p)"
    by (simp add: ex fun_upd_def) blast
  moreover have "ob_virtual (store_record key r b) = (if tr_refresh_placeholder r \<noteq> []
      then obj_set (tr_refresh_placeholder r) \<lparr>tf_key = key, tf_kind = Refresh\<rparr>
        (obj_set (tr_access_placeholder r) \<lparr>tf_key = key, tf_kind = Access\<rparr> ?w)
      else obj_set (tr_access_placeholder r) \<lparr>tf_key = key, tf_kind = Access\<rparr> ?w)"
    by (simp add: store_record_def Let_def)
  ultimately show ?thesis by simp
qed

lemma store_record_ok:
  assumes ok: "oauth_ok b" and r: "record_ok b key r" and fresh: "fresh_for b key r"
    and differ: "tr_access_placeholder r \<noteq> tr_refresh_placeholder r"
  shows "oauth_ok (store_record key r b)"
proof -
  let ?b = "store_record key r b"
  have same: "record_ok ?b = record_ok b" by (simp add: record_ok_def fun_eq_iff)
  have new_access: "tr_access_placeholder r \<noteq> []" using r by (simp add: record_ok_def)
  have old: "p \<noteq> [] \<and> (\<exists>kind. token_placeholder (old_record b key) kind = p)"
    if "map_of (ob_virtual b) p = Some ref" "tf_key ref = key" for p ref
    using that ok by (auto simp: oauth_ok_virtual old_record_def)
  have "map_of (ob_virtual ?b) p = Some ref \<longleftrightarrow>
      p \<noteq> [] \<and> (\<exists>r'. map_of (ob_records ?b) (tf_key ref) = Some r' \<and> token_placeholder r' (tf_kind ref) = p)" for p ref
  proof (cases "tf_key ref = key")
    case True
    then have ref: "ref = \<lparr>tf_key = key, tf_kind = tf_kind ref\<rparr>" by (cases ref) simp
    have "map_of (ob_virtual ?b) p = Some ref \<longleftrightarrow> p \<noteq> [] \<and> token_placeholder r (tf_kind ref) = p"
    proof (cases "p = [] \<or> p \<noteq> tr_access_placeholder r \<and> p \<noteq> tr_refresh_placeholder r")
      case True
      then have "token_placeholder r (tf_kind ref) = p \<longrightarrow> p = []" by (cases "tf_kind ref") auto
      moreover from True new_access have "map_of (ob_virtual ?b) p \<noteq> Some ref"
        using old [of p ref] \<open>tf_key ref = key\<close> by (auto simp: store_record_virtual)
      ultimately show ?thesis by blast
    next
      case False
      then have "map_of (ob_virtual ?b) p = Some \<lparr>tf_key = key, tf_kind = (if p = tr_access_placeholder r then Access else Refresh)\<rparr>"
        using differ by (auto simp: store_record_virtual)
      with False differ ref show ?thesis by (cases ref; cases "tf_kind ref") auto
    qed
    then show ?thesis using True by (simp add: store_record_maps)
  next
    case other: False
    show ?thesis
    proof (cases "\<exists>kind. token_placeholder r kind = p \<and> p \<noteq> []")
      case True
      then obtain kind where kind: "token_placeholder r kind = p" "p \<noteq> []" by blast
      from fresh have "map_of (ob_virtual b) p \<in> {None, Some \<lparr>tf_key = key, tf_kind = kind\<rparr>}"
        using kind by (auto simp: fresh_for_def)
      with other have "map_of (ob_virtual b) p \<noteq> Some ref" by auto
      moreover have "map_of (ob_virtual ?b) p \<noteq> Some ref"
        using kind other by (cases kind) (auto simp: store_record_virtual)
      ultimately show ?thesis using other kind ok by (simp add: store_record_maps oauth_ok_virtual)
    next
      case False
      then have new: "p = [] \<or> p \<noteq> tr_access_placeholder r \<and> p \<noteq> tr_refresh_placeholder r"
        by (metis token_placeholder_simps)
      have "token_placeholder (old_record b key) kind \<noteq> p" if "map_of (ob_virtual b) p = Some ref" "p \<noteq> []" for kind
      proof
        assume "token_placeholder (old_record b key) kind = p"
        with that(2) have "map_of (ob_records b) key = Some (old_record b key)"
          by (auto simp: old_record_def empty_record_def token_placeholder_def split: option.splits token_kind.splits)
        with that ok \<open>token_placeholder (old_record b key) kind = p\<close> other show False
          using oauth_ok_inject [OF ok] by (auto simp: oauth_ok_virtual)
      qed
      with new other r ok show ?thesis
        by (auto simp: store_record_virtual store_record_maps oauth_ok_virtual record_ok_def split: if_splits)
    qed
  qed
  then show ?thesis
    using ok r store_record_distinct [of b] by (auto simp: oauth_ok_def store_record_maps same)
qed

lemma old_fresh_for:
  assumes ok: "oauth_ok b" and r: "map_of (ob_records b) key = Some r" shows "fresh_for b key r"
proof -
  have "map_of (ob_virtual b) (token_placeholder r kind) = (if token_placeholder r kind = [] then None
      else Some \<lparr>tf_key = key, tf_kind = kind\<rparr>)" for kind
  proof (cases "token_placeholder r kind = []")
    case True
    then show ?thesis using oauth_ok_virtual [OF ok, of "[]"] by (cases "map_of (ob_virtual b) []") auto
  next
    case False
    then show ?thesis using oauth_ok_virtual [OF ok, of "token_placeholder r kind" "\<lparr>tf_key = key, tf_kind = kind\<rparr>"] r by simp
  qed
  then show ?thesis by (simp add: fresh_for_def)
qed

subsection \<open>Token responses keep the invariant\<close>

lemma by_name_member:
  assumes "wf_oauth (ob_defs b)" and "d \<in> set (ob_defs b)" shows "by_name b (od_name d) = Some d"
proof -
  have "distinct (map fst (rev (map (\<lambda>d. (od_name d, d)) (ob_defs b))))"
    using assms(1) by (simp add: wf_oauth_def rev_map [symmetric] comp_def)
  then show ?thesis
    unfolding by_name_def using assms(2) by (intro map_of_is_SomeI) auto
qed

lemma match_definition_Some:
  "match_definition b client host path = Some d \<Longrightarrow>
    d \<in> set (ob_defs b) \<and> client \<in> set (od_clients d) \<and> od_issuer_host d = canonical_host host \<and> od_token_path d = path"
  by (auto simp: match_definition_def find_Some_iff)

lemma b64_url_no_dot: "CHR ''.'' \<notin> set (b64_encode b64_url pad s)"
  using set_b64_encode [OF b64_ok_alphabets(2), of pad s] by (auto simp: b64_url_def)

lemma response_tokens_access: "response_tokens d ms = Inr (access, refresh, has) \<Longrightarrow>
    access \<noteq> [] \<and> raw_string (map_of ms (od_access_field d)) = Some access"
  by (auto simp: response_tokens_def Let_def split: option.splits if_splits)

lemma new_access_placeholder_shape:
  assumes "new_access_placeholder real pre rn = Inr p"
  shows "(\<exists>t. p = placeholder_head @ ''ACCESS'' @ t) \<or> CHR ''.'' \<in> set p"
proof -
  have made: "CHR ''.'' \<in> set p" if "make_virtual_jwt real x = Jwt_Made p" for x
    using that by (auto simp: make_virtual_jwt_def Let_def split: option.splits)
  have plain: "\<exists>t. p = placeholder_head @ ''ACCESS'' @ t"
    if "wrap_error Observe_Failed (new_placeholder (if c then ''ACCESS_'' @ pre else ''ACCESS'') x) = Inr p" for c x
    using that by (cases c) (auto simp: new_placeholder_def split: option.splits)
  let ?plain = "wrap_error Observe_Failed (new_placeholder (if pre \<noteq> [] \<and> has_prefix real pre then ''ACCESS_'' @ pre else ''ACCESS'') (rn_access rn))"
  from assms consider "?plain = Inr p" | x where "make_virtual_jwt real x = Jwt_Made p"
    unfolding new_access_placeholder_def Let_def by (cases "is_jwt real"; cases "make_virtual_jwt real (rn_jwt rn)") auto
  then show ?thesis by cases (use plain made in blast)+
qed

lemma new_refresh_differs:
  assumes "new_access_placeholder real pre rn = Inr p" and "new_placeholder ''REFRESH'' x = Inr q"
  shows "p \<noteq> q"
proof -
  from assms(2) obtain bytes where q: "q = placeholder_head @ ''REFRESH_'' @ b64_encode b64_url False bytes"
    by (auto simp: new_placeholder_def split: option.splits)
  then have "CHR ''.'' \<notin> set q" using b64_url_no_dot by (auto simp: placeholder_head_def)
  with new_access_placeholder_shape [OF assms(1)] show ?thesis by (auto simp: q)
qed

lemma new_record_Inr:
  assumes "new_record b now rn d client ms = Inr (r, hr)"
  shows "tr_broker r = od_name d" "tr_client r = client" "tr_access r \<noteq> []"
    and "raw_string (map_of ms (od_access_field d)) = Some (tr_access r)"
    and "new_access_placeholder (tr_access r) (od_access_prefix d) rn = Inr (tr_access_placeholder r)"
    and "tr_refresh_placeholder r \<noteq> [] \<Longrightarrow> tr_refresh r \<noteq> [] \<and> hr \<and>
      (new_placeholder ''REFRESH'' (rn_refresh rn) = Inr (tr_refresh_placeholder r) \<or>
       tr_refresh_placeholder r = tr_refresh_placeholder (old_record b (token_key (od_name d) client)))"
    and "tr_expires r = token_expiry now (map (\<lambda>k. case map_of ms k of None \<Rightarrow> [] | Some t \<Rightarrow> t) [''expires_in'', ''expires_at''])"
proof -
  let ?old = "old_record b (token_key (od_name d) client)"
  let ?keep = "\<lambda>has. \<not> has \<and> tr_refresh ?old \<noteq> [] \<and> tr_refresh_placeholder ?old \<noteq> []"
  obtain access refresh has where t: "response_tokens d ms = Inr (access, refresh, has)"
    using assms by (cases "response_tokens d ms") (auto simp: new_record_def)
  note step = assms [unfolded new_record_def t rbind.simps prod.case]
  obtain ap where ap: "new_access_placeholder access (od_access_prefix d) rn = Inr ap"
    using step by (cases "new_access_placeholder access (od_access_prefix d) rn") simp_all
  note step = step [unfolded ap rbind.simps]
  let ?rp = "if has \<and> refresh \<noteq> [] then wrap_error Observe_Failed (new_placeholder ''REFRESH'' (rn_refresh rn)) else Inr []"
  obtain rp where rp: "?rp = Inr rp" using step by (cases ?rp) simp_all
  note step = step [unfolded rp rbind.simps Let_def]
  have r: "tr_broker r = od_name d" "tr_client r = client" "tr_access r = access" "tr_access_placeholder r = ap"
      "tr_expires r = token_expiry now (map (\<lambda>k. case map_of ms k of None \<Rightarrow> [] | Some t \<Rightarrow> t) [''expires_in'', ''expires_at''])"
      "hr = (has \<or> ?keep has)" "tr_refresh r = (if ?keep has then tr_refresh ?old else refresh)"
      "tr_refresh_placeholder r = (if ?keep has then tr_refresh_placeholder ?old else rp)"
    using step by (auto simp del: list.map)
  show "tr_broker r = od_name d" "tr_client r = client" "tr_access r \<noteq> []"
    "raw_string (map_of ms (od_access_field d)) = Some (tr_access r)"
    "new_access_placeholder (tr_access r) (od_access_prefix d) rn = Inr (tr_access_placeholder r)"
    "tr_expires r = token_expiry now (map (\<lambda>k. case map_of ms k of None \<Rightarrow> [] | Some t \<Rightarrow> t) [''expires_in'', ''expires_at''])"
    using response_tokens_access [OF t] ap r by simp_all
  show "tr_refresh r \<noteq> [] \<and> hr \<and> (new_placeholder ''REFRESH'' (rn_refresh rn) = Inr (tr_refresh_placeholder r) \<or>
       tr_refresh_placeholder r = tr_refresh_placeholder ?old)" if "tr_refresh_placeholder r \<noteq> []"
    using that r(6-8) rp by (cases "?keep has") (auto split: if_splits)
qed

lemma new_record_ok:
  assumes ok: "oauth_ok b" and d: "d \<in> set (ob_defs b)" "client \<in> set (od_clients d)"
    and r: "new_record b now rn d client ms = Inr (r, hr)"
  shows "record_ok b (token_key (od_name d) client) r"
proof -
  have "tr_access_placeholder r \<noteq> []"
    using new_access_placeholder_shape [OF new_record_Inr(5) [OF r]] by (auto simp: placeholder_head_def)
  then show ?thesis
    using new_record_Inr(1-3,6) [OF r] by_name_member [of b d] d ok by (auto simp: record_ok_def oauth_ok_def)
qed

lemma new_record_differs:
  assumes ok: "oauth_ok b" and r: "new_record b now rn d client ms = Inr (r, hr)"
    and fresh: "fresh_for b (token_key (od_name d) client) r"
  shows "tr_access_placeholder r \<noteq> tr_refresh_placeholder r"
proof
  let ?key = "token_key (od_name d) client"
  assume same: "tr_access_placeholder r = tr_refresh_placeholder r"
  then have ne: "tr_refresh_placeholder r \<noteq> []"
    using new_access_placeholder_shape [OF new_record_Inr(5) [OF r]] by (auto simp: placeholder_head_def)
  then have "tr_refresh_placeholder r = tr_refresh_placeholder (old_record b ?key)"
    using new_record_Inr(6) [OF r] new_refresh_differs [OF new_record_Inr(5) [OF r]] same by auto
  with ne have old: "map_of (ob_records b) ?key = Some (old_record b ?key)"
    by (auto simp: old_record_def empty_record_def split: option.splits)
  have "map_of (ob_virtual b) (tr_refresh_placeholder r) = Some \<lparr>tf_key = ?key, tf_kind = Refresh\<rparr>"
    using ok ne old \<open>tr_refresh_placeholder r = _\<close> by (simp add: oauth_ok_virtual)
  moreover have "map_of (ob_virtual b) (tr_access_placeholder r) \<in> {None, Some \<lparr>tf_key = ?key, tf_kind = Access\<rparr>}"
    using fresh unfolding fresh_for_def by (metis token_placeholder_simps(1))
  ultimately show False by (simp add: same)
qed

text \<open>A response either leaves the state alone or stores the new record; it reports the virtual
  response only if the file was written.\<close>

lemma observe_cases:
  assumes "observe_token_response b now rn written req resp body client host = (res, b')"
  obtains (unchanged) "b' = b" "res = Inr (body, []) \<or> (\<exists>e. res = Inl e)"
  | (stored) d u ms r hr where "rq_url req = Some u" "match_definition b client host (u_path u) = Some d"
    "unmarshal_map body \<noteq> None" "ms = (case the (unmarshal_map body) of None \<Rightarrow> [] | Some m \<Rightarrow> m)"
    "new_record b now rn d client ms = Inr (r, hr)" "b' = store_record (token_key (od_name d) client) r b"
    "res = (case write_state b' written of Inl e \<Rightarrow> Inl (Observe_Failed e) | Inr _ \<Rightarrow> Inr (virtual_response d ms r hr))"
proof (cases "rs_code resp < 200 \<or> 300 \<le> rs_code resp")
  case True
  then show ?thesis using assms unchanged by (simp add: observe_token_response_def)
next
  case code: False
  let ?media = "json_media (oauth_media_type (header_get (rs_header resp) ''Content-Type''))"
  note step = assms [unfolded observe_token_response_def if_not_P [OF code]]
  show ?thesis
  proof (cases "rq_url req")
    case None
    then show ?thesis using step by (intro unchanged) auto
  next
    case u: (Some u)
    show ?thesis
    proof (cases "match_definition b client host (u_path u)")
      case None
      then show ?thesis using step u unchanged by simp
    next
      case d: (Some d)
      note step = step [unfolded u d option.case]
      show ?thesis
      proof (cases "?media \<and> unmarshal_map body \<noteq> None")
        case False
        then show ?thesis using step unchanged by (auto split: if_splits)
      next
        case True
        then obtain fs where m: ?media and fs: "unmarshal_map body = Some fs" by blast
        define ms where "ms = (case fs of None \<Rightarrow> [] | Some m \<Rightarrow> m)"
        have step: "(case new_record b now rn d client ms of Inl e \<Rightarrow> (Inl e, b) | Inr (r, hr) \<Rightarrow>
            let b = store_record (token_key (od_name d) client) r b in
            case write_state b written of Inl e \<Rightarrow> (Inl (Observe_Failed e), b) | Inr _ \<Rightarrow> (Inr (virtual_response d ms r hr), b)) = (res, b')"
          using step m unfolding Let_def fs option.case ms_def [symmetric] by simp
        show ?thesis
        proof (cases "new_record b now rn d client ms")
          case (Inl e)
          then show ?thesis using step by (intro unchanged) auto
        next
          case (Inr x)
          obtain r hr where "x = (r, hr)" by (cases x)
          with Inr have r: "new_record b now rn d client ms = Inr (r, hr)" by simp
          have b': "b' = store_record (token_key (od_name d) client) r b"
            using step [unfolded r sum.case prod.case Let_def] by (auto split: sum.splits)
          show ?thesis
            using stored [OF u d _ _ r b'] step [unfolded r sum.case prod.case Let_def] fs
            by (auto simp: b' ms_def split: sum.splits)
        qed
      qed
    qed
  qed
qed

text \<open>The states of a running broker. The placeholders that a response stores are not in use
  otherwise: they are made of 24 random bytes each.\<close>

definition fresh_update :: "oauth \<Rightarrow> oauth \<Rightarrow> bool" where
  "fresh_update b b' \<longleftrightarrow> (\<forall>key r. map_of (ob_records b') key = Some r \<longrightarrow> fresh_for b key r)"

inductive serving :: "oauth_definition list \<Rightarrow> oauth \<Rightarrow> bool" for ds where
  start: "new_oauth ds auth_path source = Inr b \<Longrightarrow> serving ds b"
| respond: "serving ds b \<Longrightarrow> observe_token_response b now rn written req resp body client host = (res, b') \<Longrightarrow>
    fresh_update b b' \<Longrightarrow> serving ds b'"

inductive_cases start_or_respond: "serving ds b"

lemma observe_ok:
  assumes ok: "oauth_ok b" and step: "observe_token_response b now rn written req resp body client host = (res, b')"
    and fresh: "fresh_update b b'"
  shows "oauth_ok b'"
  using step
proof (cases rule: observe_cases)
  case unchanged
  with ok show ?thesis by simp
next
  case (stored d u ms r hr)
  let ?key = "token_key (od_name d) client"
  have "fresh_for b ?key r" using fresh stored(6) by (simp add: fresh_update_def store_record_maps)
  moreover have "record_ok b ?key r"
    using match_definition_Some [OF stored(2)] stored(5) ok by (intro new_record_ok) auto
  ultimately show ?thesis
    using new_record_differs [OF ok stored(5)] store_record_ok [OF ok] stored(6) by simp
qed

subsection \<open>Loading\<close>

lemma token_key_nonempty [simp]: "token_key broker client \<noteq> []"
  by (simp add: token_key_def)

lemma live_iff:
  assumes "oauth_ok b"
  shows "(case map_of (ob_virtual b) p of None \<Rightarrow> False | Some ref \<Rightarrow> tf_key ref \<noteq> []) \<longleftrightarrow> map_of (ob_virtual b) p \<noteq> None"
proof (cases "map_of (ob_virtual b) p")
  case (Some ref)
  with assms obtain r where "record_ok b (tf_key ref) r" by (auto simp: oauth_ok_virtual dest: oauth_ok_record)
  with Some show ?thesis by (auto simp: record_ok_def)
qed simp

lemma load_record_store:
  assumes ok: "oauth_ok b" and load: "load_record r b = Inr b'"
  shows "b' = store_record (token_key (tr_broker r) (tr_client r)) r b \<and> record_ok b (token_key (tr_broker r) (tr_client r)) r \<and>
    fresh_for b (token_key (tr_broker r) (tr_client r)) r \<and> tr_access_placeholder r \<noteq> tr_refresh_placeholder r"
proof -
  let ?key = "token_key (tr_broker r) (tr_client r)"
  let ?v = "obj_set (tr_access_placeholder r) \<lparr>tf_key = ?key, tf_kind = Access\<rparr> (ob_virtual b)"
  note load = load [unfolded load_record_def Let_def live_iff [OF ok]]
  from load have policy: "\<exists>d. by_name b (tr_broker r) = Some d \<and> tr_client r \<in> set (od_clients d)"
    and ne: "tr_access r \<noteq> []" "tr_access_placeholder r \<noteq> []" and new: "map_of (ob_records b) ?key = None"
    and a: "map_of (ob_virtual b) (tr_access_placeholder r) = None"
    by (auto split: if_splits option.splits)
  have none: "map_of (ob_virtual b) [] = None"
    using oauth_ok_virtual [OF ok, of "[]"] by (cases "map_of (ob_virtual b) []") auto
  have old: "old_record b ?key = empty_record" by (simp add: old_record_def new)
  show ?thesis
  proof (cases "tr_refresh_placeholder r = []")
    case True
    with load policy ne new a show ?thesis
      by (auto simp: store_record_def old empty_record_def record_ok_def fresh_for_def none token_placeholder_def split: token_kind.splits if_splits option.splits)
  next
    case False
    with load policy ne new a have refresh: "tr_refresh r \<noteq> []"
      "\<not> (case map_of ?v (tr_refresh_placeholder r) of None \<Rightarrow> False | Some ref \<Rightarrow> tf_key ref \<noteq> [])"
      "b' = b\<lparr>ob_records := obj_set ?key r (ob_records b), ob_virtual :=
         obj_set (tr_refresh_placeholder r) \<lparr>tf_key = ?key, tf_kind = Refresh\<rparr> ?v\<rparr>"
      by (auto split: if_splits option.splits)
    then have differ: "tr_access_placeholder r \<noteq> tr_refresh_placeholder r"
      by (auto split: if_splits)
    with refresh(2) have "\<not> (case map_of (ob_virtual b) (tr_refresh_placeholder r) of None \<Rightarrow> False | Some ref \<Rightarrow> tf_key ref \<noteq> [])"
      by (auto split: option.splits)
    then have "map_of (ob_virtual b) (tr_refresh_placeholder r) = None" by (simp add: live_iff [OF ok])
    with refresh differ policy ne a False show ?thesis
      by (auto simp: store_record_def old empty_record_def record_ok_def fresh_for_def token_placeholder_def split: token_kind.splits)
  qed
qed

lemma load_record_ok: "oauth_ok b \<Longrightarrow> load_record r b = Inr b' \<Longrightarrow> oauth_ok b'"
  using load_record_store store_record_ok by blast

lemma load_records_ok: "oauth_ok b \<Longrightarrow> load_records rs b = Inr b' \<Longrightarrow> oauth_ok b'"
  by (induction rs arbitrary: b) (auto dest: load_record_ok)

lemma new_oauth_ok:
  assumes "new_oauth ds auth_path source = Inr b" shows "oauth_ok b"
proof -
  from assms obtain es where es: "validate_oauth ds = Inr es"
    and load: "load_state source \<lparr>ob_defs = es, ob_records = [], ob_virtual = []\<rparr> = Inr b"
    by (auto simp: new_oauth_def)
  have "oauth_ok \<lparr>ob_defs = es, ob_records = [], ob_virtual = []\<rparr>"
    using validate_oauth_wf [OF es] by (simp add: oauth_ok_def)
  then show ?thesis using load by (auto simp: load_state_def split: auth_source.splits if_splits dest: load_records_ok)
qed

lemma serving_ok: "serving ds b \<Longrightarrow> oauth_ok b"
  by (induction rule: serving.induct) (auto dest: new_oauth_ok observe_ok)

text \<open>C6. From \<open>New\<close> through all token responses, the live placeholders are exactly those of the
  records: each belongs to one record and one kind, each record is the one of its broker and client,
  the policy lists that client, and a live placeholder stands for a real token. And a response revokes:
  a placeholder of the replaced record that the new record does not keep is dead at once.\<close>

theorem serving_invariant:
  assumes "serving ds b"
  shows "oauth_ok b \<and>
    (observe_token_response b now rn written req resp body client host = (res, b') \<longrightarrow> fresh_update b b' \<longrightarrow>
     map_of (ob_records b) key = Some old \<longrightarrow> map_of (ob_records b') key = Some new \<longrightarrow>
     (\<forall>kind'. token_placeholder new kind' \<noteq> token_placeholder old kind) \<longrightarrow> map_of (ob_virtual b') (token_placeholder old kind) = None)"
proof (intro conjI impI)
  show ok: "oauth_ok b" by (rule serving_ok [OF assms])
  assume step: "observe_token_response b now rn written req resp body client host = (res, b')" and fresh: "fresh_update b b'"
    and old: "map_of (ob_records b) key = Some old" and new: "map_of (ob_records b') key = Some new"
    and gone: "\<forall>kind'. token_placeholder new kind' \<noteq> token_placeholder old kind"
  have ok': "oauth_ok b'" by (rule observe_ok [OF ok step fresh])
  show "map_of (ob_virtual b') (token_placeholder old kind) = None"
  proof (rule ccontr)
    let ?p = "token_placeholder old kind"
    assume "map_of (ob_virtual b') ?p \<noteq> None"
    then obtain ref where "map_of (ob_virtual b') ?p = Some ref" by blast
    then obtain r where r: "?p \<noteq> []" "map_of (ob_records b') (tf_key ref) = Some r" "token_placeholder r (tf_kind ref) = ?p"
      unfolding oauth_ok_virtual [OF ok'] by blast
    from r(3) new gone r(2) have other: "tf_key ref \<noteq> key" by auto
    have "map_of (ob_virtual b) ?p = Some \<lparr>tf_key = key, tf_kind = kind\<rparr>"
      using old r(1) by (simp add: oauth_ok_virtual [OF ok])
    moreover have "map_of (ob_virtual b) ?p \<in> {None, Some \<lparr>tf_key = tf_key ref, tf_kind = tf_kind ref\<rparr>}"
      using fresh r(2,3) unfolding fresh_update_def fresh_for_def by metis
    ultimately show False using other by auto
  qed
qed

subsection \<open>Persistence\<close>

lemma record_ok_cong: "ob_defs c = ob_defs b \<Longrightarrow> record_ok c = record_ok b"
  by (simp add: record_ok_def by_name_def fun_eq_iff)

lemma reload_record:
  assumes b: "oauth_ok b" and c: "oauth_ok c" and defs: "ob_defs c = ob_defs b"
    and part: "map_of (ob_records c) \<subseteq>\<^sub>m map_of (ob_records b)"
    and r: "map_of (ob_records b) key = Some r" and new: "map_of (ob_records c) key = None"
  shows "load_record r c = Inr (store_record key r c)"
proof -
  have ok: "record_ok c key r" using oauth_ok_record [OF b r] record_ok_cong [OF defs] by simp
  then have key: "key = token_key (tr_broker r) (tr_client r)" by (simp add: record_ok_def)
  have dead: "map_of (ob_virtual c) (token_placeholder r kind) = None" for kind
  proof (rule ccontr)
    assume "map_of (ob_virtual c) (token_placeholder r kind) \<noteq> None"
    then obtain ref where "map_of (ob_virtual c) (token_placeholder r kind) = Some ref" by blast
    then obtain r' where ref: "token_placeholder r kind \<noteq> []" "map_of (ob_records c) (tf_key ref) = Some r'"
      "token_placeholder r' (tf_kind ref) = token_placeholder r kind" unfolding oauth_ok_virtual [OF c] by blast
    from ref(2) part have "map_of (ob_records b) (tf_key ref) = Some r'" by (auto simp: map_le_def dom_def)
    with oauth_ok_inject [OF b r this, of kind "tf_kind ref"] ref new show False by auto
  qed
  have differ: "tr_refresh_placeholder r \<noteq> [] \<Longrightarrow> tr_access_placeholder r \<noteq> tr_refresh_placeholder r"
    using oauth_ok_inject [OF b r r, of Access Refresh] by auto
  have old: "old_record c key = empty_record" by (simp add: old_record_def new)
  from ok obtain d where policy: "by_name c (tr_broker r) = Some d" "tr_client r \<in> set (od_clients d)"
    and ne: "tr_access r \<noteq> []" "tr_access_placeholder r \<noteq> []" "tr_refresh_placeholder r \<noteq> [] \<Longrightarrow> tr_refresh r \<noteq> []"
    by (auto simp: record_ok_def)
  have a: "map_of (ob_virtual c) (tr_access_placeholder r) = None" using dead [of Access] by simp
  show ?thesis
  proof (cases "tr_refresh_placeholder r = []")
    case True
    then show ?thesis
      by (simp add: load_record_def key [symmetric] policy ne new a store_record_def old empty_record_def)
  next
    case False
    then have "map_of (ob_virtual c) (tr_refresh_placeholder r) = None" using dead [of Refresh] by simp
    with False differ [OF False] show ?thesis
      by (simp add: load_record_def key [symmetric] policy ne new a differ [OF False, symmetric] store_record_def old empty_record_def Let_def)
  qed
qed

abbreviation key_of :: "token_record \<Rightarrow> string" where
  "key_of r \<equiv> token_key (tr_broker r) (tr_client r)"

lemma reload_records:
  assumes b: "oauth_ok b" and c: "oauth_ok c" and defs: "ob_defs c = ob_defs b"
    and part: "map_of (ob_records c) \<subseteq>\<^sub>m map_of (ob_records b)"
    and rs: "\<forall>r \<in> set rs. map_of (ob_records b) (key_of r) = Some r" "distinct (map key_of rs)"
    and new: "\<forall>r \<in> set rs. map_of (ob_records c) (key_of r) = None"
  shows "\<exists>c'. load_records rs c = Inr c' \<and> oauth_ok c' \<and> ob_defs c' = ob_defs b \<and>
    map_of (ob_records c') \<subseteq>\<^sub>m map_of (ob_records b) \<and> dom (map_of (ob_records c')) = dom (map_of (ob_records c)) \<union> key_of ` set rs"
  using c defs part rs new
proof (induction rs arbitrary: c)
  case (Cons r rs)
  let ?c = "store_record (key_of r) r c"
  have load: "load_record r c = Inr ?c" using Cons.prems b by (intro reload_record) auto
  have c': "oauth_ok ?c" by (rule load_record_ok [OF Cons.prems(1) load])
  have "\<exists>c'. load_records rs ?c = Inr c' \<and> oauth_ok c' \<and> ob_defs c' = ob_defs b \<and>
      map_of (ob_records c') \<subseteq>\<^sub>m map_of (ob_records b) \<and> dom (map_of (ob_records c')) = dom (map_of (ob_records ?c)) \<union> key_of ` set rs"
  proof (rule Cons.IH [OF c'])
    show "map_of (ob_records ?c) \<subseteq>\<^sub>m map_of (ob_records b)"
      using Cons.prems(3,4) by (simp add: store_record_maps map_le_def)
    show "\<forall>r' \<in> set rs. map_of (ob_records ?c) (key_of r') = None"
    proof
      fix r' assume r': "r' \<in> set rs"
      have "key_of r \<notin> key_of ` set rs" using Cons.prems(5) by simp
      with r' have "key_of r' \<noteq> key_of r" by (metis (no_types, lifting) image_eqI)
      with r' show "map_of (ob_records ?c) (key_of r') = None" using Cons.prems(6) by (simp add: store_record_maps)
    qed
  qed (use Cons.prems in \<open>simp_all add: store_record_maps\<close>)
  with load show ?case by (auto simp: store_record_maps)
qed auto

lemma key_of_snapshot:
  assumes "oauth_ok b" and "r \<in> set (snapshot b)"
  shows "map_of (ob_records b) (key_of r) = Some r"
proof -
  from assms(2) obtain key where "(key, r) \<in> set (ob_records b)" by (auto simp: snapshot_def)
  then have "map_of (ob_records b) key = Some r" using assms(1) by (simp add: oauth_ok_def)
  with oauth_ok_record [OF assms(1)] show ?thesis by (auto simp: record_ok_def)
qed

lemma keys_of_records:
  assumes "oauth_ok b" shows "map key_of (map snd (ob_records b)) = map fst (ob_records b)"
proof -
  have "key_of (snd e) = fst e" if "e \<in> set (ob_records b)" for e
  proof -
    have "map_of (ob_records b) (fst e) = Some (snd e)" using assms that by (simp add: oauth_ok_def)
    with oauth_ok_record [OF assms] show ?thesis by (simp add: record_ok_def)
  qed
  then show ?thesis by simp
qed

lemma snapshot_keys: "oauth_ok b \<Longrightarrow> key_of ` set (snapshot b) = dom (map_of (ob_records b))"
  using arg_cong [OF keys_of_records, of b set] by (simp add: snapshot_def dom_map_of_conv_image_fst image_image)

lemma distinct_snapshot:
  assumes "oauth_ok b" shows "distinct (map key_of (snapshot b))"
proof -
  have "mset (map key_of (snapshot b)) = mset (map key_of (map snd (ob_records b)))"
    by (simp add: snapshot_def multiset.map_comp)
  then have "distinct (map key_of (snapshot b)) = distinct (map fst (ob_records b))"
    unfolding keys_of_records [OF assms] by (rule mset_eq_imp_distinct_iff)
  with assms show ?thesis by (simp add: oauth_ok_def)
qed


end
