(* ===== verification/Oauth_Confinement.thy ===== *)
theory Oauth_Confinement
  imports Oauth_Tokens
begin

text \<open>
  Where the tokens of the OAuth broker (\<open>internal/oauth/broker.go\<close>) go: substitution is confined to the
  client and the hosts of a token, a placeholder that was handed out works where it should, scrubbing
  misses no token, and two faults of token responses.
\<close>

subsection \<open>Trimming and replacing\<close>

lemma trim_space_ends:
  assumes "s = [] \<or> graphic (hd s) \<and> graphic (last s)" shows "trim_space s = s"
proof (cases "s = []")
  case False
  have "strip_one space_encodings s = None"
    using assms False space_encodings_not_graphic
    by (fastforce simp: strip_one_None list_all_iff prefix_def neq_Nil_conv)
  moreover have "strip_one (map rev space_encodings) (rev s) = None"
  proof -
    have "\<not> prefix (rev e) (rev s)" if "e \<in> set space_encodings" for e
    proof
      assume "prefix (rev e) (rev s)"
      then have "suffix e s" by (simp add: suffix_to_prefix)
      moreover have "e \<noteq> []" "\<not> graphic (last e)"
        using that space_encodings_not_graphic by (auto simp: list_all_iff)
      ultimately show False using assms False by (auto simp: suffix_def)
    qed
    then show ?thesis by (auto simp: strip_one_None)
  qed
  ultimately show ?thesis
    by (simp add: trim_space_def trim_left_def trim_right_def trim_left_by_id)
qed (simp add: trim_space_graphic)

text \<open>The only place where a text without spaces occurs behind \<open>Bearer\<close>.\<close>

abbreviation bearer :: "string \<Rightarrow> string" where
  "bearer t \<equiv> ''Bearer '' @ t"

lemma replace_all_self: "p \<noteq> [] \<Longrightarrow> replace_all p p new = new"
  by (simp add: replace_all.simps [of p] replace_all.simps [of "[]"])

lemma replace_all_skip:
  assumes "CHR '' '' \<notin> set p" and "length u < length p"
  shows "replace_all (u @ CHR '' '' # s) p new = u @ CHR '' '' # replace_all s p new"
  using assms(2)
proof (induction u)
  case Nil
  then show ?case using assms(1) by (cases p) (auto simp: replace_all.simps [of "CHR '' '' # s"])
next
  case (Cons c u)
  have "\<not> prefix p (c # u @ CHR '' '' # s)"
  proof
    assume "prefix p (c # u @ CHR '' '' # s)"
    then obtain zs where "(c # u) @ CHR '' '' # s = p @ zs" by (auto simp: prefix_def)
    then have "\<exists>us. c # u = p @ us \<and> us @ CHR '' '' # s = zs \<or> (c # u) @ us = p \<and> CHR '' '' # s = us @ zs"
      by (simp only: append_eq_append_conv2)
    then obtain us where us: "c # u = p @ us \<and> us @ CHR '' '' # s = zs \<or> (c # u) @ us = p \<and> CHR '' '' # s = us @ zs"
      by (rule exE)
    have "c # u \<noteq> p @ us"
    proof
      assume "c # u = p @ us"
      then have "length (c # u) = length p + length us" by (metis length_append)
      with Cons.prems show False by simp
    qed
    with us have us: "(c # u) @ us = p" "CHR '' '' # s = us @ zs" by simp_all
    from us(1) Cons.prems have "us \<noteq> []" by auto
    with us(2) have "CHR '' '' \<in> set us" by (cases us) simp_all
    then have "CHR '' '' \<in> set p" unfolding us(1) [symmetric] by simp
    with assms(1) show False by simp
  qed
  moreover have "p \<noteq> []" using Cons.prems by auto
  ultimately show ?case using Cons by (simp add: replace_all.simps [of "c # u @ CHR '' '' # s"])
qed

lemma replace_all_bearer:
  assumes "CHR '' '' \<notin> set p" and "6 < length p" shows "replace_all (bearer p) p new = bearer new"
proof -
  have "p \<noteq> []" using assms(2) by auto
  then show ?thesis using replace_all_skip [OF assms(1), of "''Bearer''" p new] assms(2) by (simp add: replace_all_self)
qed

subsection \<open>The loop over placeholders\<close>

lemma replace_loop_skip:
  "\<forall>e \<in> set xs. \<not> contains out (fst e) \<Longrightarrow>
    replace_loop b now client host (xs @ ys) out used = replace_loop b now client host ys out used"
  by (induction xs) auto

lemma set_virtual_values [simp]: "set (virtual_values b) = set (ob_virtual b)"
  by (simp add: virtual_values_def)

lemma contains_known_iff: "contains_known b s \<longleftrightarrow> (\<exists>p ref. (p, ref) \<in> set (ob_virtual b) \<and> contains s p)"
  unfolding contains_known_def list_ex_iff by (metis fst_conv surj_pair)

text \<open>A text that carries exactly one live placeholder.\<close>

definition carries_only :: "oauth \<Rightarrow> string \<Rightarrow> string \<Rightarrow> bool" where
  "carries_only b p s \<longleftrightarrow> contains s p \<and> (\<forall>q. map_of (ob_virtual b) q \<noteq> None \<longrightarrow> contains s q \<longrightarrow> q = p)"

lemma replace_loop_one:
  assumes ok: "oauth_ok b" and ref: "map_of (ob_virtual b) p = Some ref" "map_of (ob_records b) (tf_key ref) = Some r"
    and only: "carries_only b p s"
  shows "\<exists>ys. set ys \<subseteq> set (ob_virtual b) \<and> replace_loop b now client host (virtual_values b) s [] =
    (if tr_client r \<noteq> client then Inl ''OAuth token is not authorized for this client''
     else if \<not> token_host_allowed (definition_of b r) (tf_kind ref) host then Inl ''OAuth token is not authorized for this host''
     else if token_expired now r (tf_kind ref) then Inl ''OAuth access token is expired''
     else replace_loop b now client host ys (replace_all s p (real_token r (tf_kind ref))) [oauth_name (tr_broker r) (tf_kind ref)])"
proof -
  have live: "map_of (ob_virtual b) q \<noteq> None \<longleftrightarrow> q \<in> fst ` set (ob_virtual b)" for q
    by (simp add: map_of_eq_None_iff)
  have "(p, ref) \<in> set (virtual_values b)" using map_of_SomeD [OF ref(1)] by simp
  from split_list [OF this] obtain xs ys where split: "virtual_values b = xs @ (p, ref) # ys" by blast
  have "mset (map fst (virtual_values b)) = mset (map fst (ob_virtual b))" by (simp add: virtual_values_def)
  then have "distinct (map fst (virtual_values b))"
    using ok by (metis oauth_ok_def mset_eq_imp_distinct_iff)
  then have "p \<notin> fst ` set xs" by (simp add: split image_Un)
  moreover have "fst ` set xs \<subseteq> fst ` set (ob_virtual b)"
    using arg_cong [OF split, of set] by auto
  ultimately have "\<not> contains s (fst e)" if "e \<in> set xs" for e
    using that only live [of "fst e"] unfolding carries_only_def by blast
  then have "\<forall>e \<in> set xs. \<not> contains s (fst e)" by blast
  moreover have "real_token r (tf_kind ref) \<noteq> []"
    using oauth_ok_record [OF ok ref(2)] ref ok by (cases "tf_kind ref") (auto simp: record_ok_def oauth_ok_virtual)
  moreover have "set ys \<subseteq> set (ob_virtual b)" using arg_cong [OF split, of set] by auto
  ultimately show ?thesis
    using only ref(2) by (auto simp: split replace_loop_skip carries_only_def)
qed

text \<open>A token that a client may use at a host.\<close>

definition usable :: "oauth \<Rightarrow> instant \<Rightarrow> string \<Rightarrow> string \<Rightarrow> token_record \<Rightarrow> token_kind \<Rightarrow> bool" where
  "usable b now client host r kind \<longleftrightarrow> tr_client r = client \<and> token_host_allowed (definition_of b r) kind host \<and>
     \<not> token_expired now r kind"

lemma replace_loop_usable:
  assumes "replace_loop b now client host vs out used = Inr (out', used')" and "n \<in> set used'"
  shows "n \<in> set used \<or> (\<exists>key r kind. map_of (ob_records b) key = Some r \<and> usable b now client host r kind \<and>
    real_token r kind \<noteq> [] \<and> n = oauth_name (tr_broker r) kind)"
  using assms
proof (induction vs arbitrary: out used)
  case (Cons v vs)
  obtain p ref where v: "v = (p, ref)" by (cases v)
  show ?case
  proof (cases "contains out p")
    case False
    with Cons v show ?thesis by auto
  next
    case True
    with Cons.prems(1) v obtain r where r: "map_of (ob_records b) (tf_key ref) = Some r" "usable b now client host r (tf_kind ref)"
      "real_token r (tf_kind ref) \<noteq> []"
      "replace_loop b now client host vs (replace_all out p (real_token r (tf_kind ref))) (used @ [oauth_name (tr_broker r) (tf_kind ref)]) = Inr (out', used')"
      by (auto simp: usable_def split: option.splits if_splits)
    from Cons.IH [OF r(4) Cons.prems(2)] r(1-3) show ?thesis by auto
  qed
qed simp

lemma replace_request_value_Inr:
  assumes "replace_request_value b now s client host secure site scheme = Inr (out, names)"
  shows "names \<noteq> [] \<Longrightarrow> secure"
    and "n \<in> set names \<Longrightarrow> \<exists>key r kind. map_of (ob_records b) key = Some r \<and> usable b now client host r kind \<and>
      real_token r kind \<noteq> [] \<and> n = oauth_name (tr_broker r) kind"
    and "site = Site_Credential \<Longrightarrow> \<not> matches_placeholder out \<and> \<not> virtual_jwt_in_credential out scheme"
    and "site = Site_Credential \<Longrightarrow> contains_known b s \<Longrightarrow> secure \<and> valid_credential_value b s scheme"
    and "site = Site_Body \<Longrightarrow> names \<noteq> [] \<Longrightarrow> is_issuer_host b host"
  using assms replace_loop_usable [of b now client host "virtual_values b" s "[]"]
  by (auto simp: replace_request_value_def Let_def split: if_splits)

lemma oauth_entries_Inr:
  assumes "oauth_entries f vs = Inr (ws, used)"
  shows "w \<in> set ws \<Longrightarrow> \<exists>v ns. v \<in> set vs \<and> f v = Inr (w, ns)" and "n \<in> set used \<Longrightarrow> \<exists>v w ns. f v = Inr (w, ns) \<and> n \<in> set ns"
  using assms by (induction vs arbitrary: ws used) fastforce+

lemma oauth_values_Inr:
  assumes "oauth_values check f m = Inr (m', used)"
  shows "(k, ws) \<in> set m' \<Longrightarrow> w \<in> set ws \<Longrightarrow> \<exists>v ns. f k v = Inr (w, ns)"
    and "n \<in> set used \<Longrightarrow> \<exists>k v w ns. f k v = Inr (w, ns) \<and> n \<in> set ns"
  using assms
proof (induction m arbitrary: m' used)
  case (Cons e m)
  obtain k0 vs where e: "e = (k0, vs)" by (cases e)
  {
    case 1
    from 1(3) e obtain ws0 used0 m0 used1 where steps: "oauth_entries (f k0) vs = Inr (ws0, used0)"
      "oauth_values check f m = Inr (m0, used1)" "m' = (k0, ws0) # m0" by auto
    show ?case
    proof (cases "(k, ws) = (k0, ws0)")
      case True
      with oauth_entries_Inr(1) [OF steps(1), of w] 1(2) show ?thesis by auto
    next
      case False
      with Cons.IH(1) [OF _ 1(2) steps(2)] 1(1) steps(3) show ?thesis by auto
    qed
  next
    case 2
    from 2(2) e obtain ws0 used0 m0 used1 where steps: "oauth_entries (f k0) vs = Inr (ws0, used0)"
      "oauth_values check f m = Inr (m0, used1)" "used = used0 @ used1" by auto
    from 2(1) steps(3) consider "n \<in> set used0" | "n \<in> set used1" by auto
    then show ?case
      by cases (use oauth_entries_Inr(2) [OF steps(1)] Cons.IH(2) [OF _ steps(2)] in blast)+
  }
qed simp_all



subsection \<open>Placeholders that were handed out\<close>

lemma b64_url_graphic: "c \<in> set (b64_encode b64_url pad s) \<Longrightarrow> graphic c"
  using set_b64_encode [OF b64_ok_alphabets(2), of pad s] by (auto simp: b64_url_def graphic_def)

lemma b64_length: "length s \<le> length (b64_encode alph pad s)"
  by (induction alph pad s rule: b64_encode.induct) auto

lemma new_access_placeholder_graphic:
  assumes "new_access_placeholder real pre rn = Inr p" and "valid_placeholder_prefix pre"
  shows "(\<forall>c \<in> set p. graphic c) \<and> 6 < length p"
proof -
  have pre: "\<forall>c \<in> set pre. graphic c"
    using assms(2) field_runes_graphic [of pre] by (simp add: valid_placeholder_prefix_def)
  have made: "(\<forall>c \<in> set p. graphic c) \<and> 6 < length p" if "make_virtual_jwt real x = Jwt_Made p" for x
  proof -
    from that obtain a1 a2 a3 where p: "p = b64_encode b64_url False a1 @ ''.'' @ b64_encode b64_url False a2 @ ''.'' @
        b64_encode b64_url False (''veilgate_dummy_signature_'' @ a3)"
      by (auto simp: make_virtual_jwt_def Let_def split: option.splits)
    obtain a4 where a4: "''veilgate_dummy_signature_'' @ a3 = a4" "6 < length a4" by simp
    have "\<forall>c \<in> set p. graphic c" unfolding p a4(1) using b64_url_graphic by (auto simp: graphic_def)
    moreover have "6 < length (b64_encode b64_url False a4)" using b64_length [of a4] a4(2) less_le_trans by blast
    ultimately show ?thesis unfolding p a4(1) by simp
  qed
  have plain: "(\<forall>c \<in> set p. graphic c) \<and> 6 < length p"
    if "wrap_error Observe_Failed (new_placeholder (if c then ''ACCESS_'' @ pre else ''ACCESS'') x) = Inr p" for c x
    using that pre
    by (cases c) (auto simp: new_placeholder_def placeholder_head_def graphic_def split: option.splits dest!: b64_url_graphic)
  let ?plain = "wrap_error Observe_Failed (new_placeholder (if pre \<noteq> [] \<and> has_prefix real pre then ''ACCESS_'' @ pre else ''ACCESS'') (rn_access rn))"
  from assms(1) consider "?plain = Inr p" | x where "make_virtual_jwt real x = Jwt_Made p"
    unfolding new_access_placeholder_def Let_def by (cases "is_jwt real"; cases "make_virtual_jwt real (rn_jwt rn)") auto
  then show ?thesis by cases (use plain made in blast)+
qed

text \<open>A text without anything that the broker would take for one of its placeholders.\<close>

definition no_placeholder :: "oauth \<Rightarrow> string \<Rightarrow> bool" where
  "no_placeholder b s \<longleftrightarrow> \<not> contains_known b s \<and> \<not> matches_placeholder s \<and> \<not> virtual_jwt_in_credential s True"

lemma replace_request_value_known:
  assumes "contains_known b s" and "valid_credential_value b s True"
    and "replace_loop b now client host (virtual_values b) s [] = Inr (out, [n])"
    and "\<not> matches_placeholder out" and "\<not> virtual_jwt_in_credential out True"
  shows "replace_request_value b now s client host True Site_Credential True = Inr (out, [n])"
  using assms by (simp add: replace_request_value_def sorted_names_def)

lemma oauth_apply_one:
  assumes "replace_request_value b now v client host secure Site_Credential True = Inr (w, [n])"
  shows "oauth_apply b now [(name, [v])] client host secure = Inr ([(name, [w])], [n])"
  using assms by (simp add: oauth_apply_def sorted_names_def)

lemma bearer_substituted:
  assumes ok: "oauth_ok b" and r: "map_of (ob_records b) key = Some r" and d: "by_name b (tr_broker r) = Some d"
    and p: "p = tr_access_placeholder r" "\<forall>c \<in> set p. graphic c" "6 < length p"
    and host: "matches_api_host (od_api_hosts d) (canonical_host host)" and live: "\<not> token_expired now r Access"
    and only: "carries_only b p (bearer p)" and real: "no_placeholder b (bearer (tr_access r))"
  shows "oauth_apply b now [(name, [bearer p])] (tr_client r) host True =
    Inr ([(name, [bearer (tr_access r)])], [oauth_name (tr_broker r) Access])"
proof -
  have space: "CHR '' '' \<notin> set p" using p(2) by (auto simp: graphic_def)
  have ne: "p \<noteq> []" using p(3) by auto
  have ref: "map_of (ob_virtual b) p = Some \<lparr>tf_key = key, tf_kind = Access\<rparr>"
    using r p(1) ne by (simp add: oauth_ok_virtual [OF ok])
  have key: "key \<noteq> []" using oauth_ok_record [OF ok r] by (simp add: record_ok_def)
  have trims: "trim_space (bearer p) = bearer p" "trim_space p = p"
  proof -
    show "trim_space p = p" using p(2) by (rule trim_space_graphic)
    show "trim_space (bearer p) = bearer p" by (rule trim_space_ends) (use p(2) ne in \<open>simp add: graphic_def\<close>)
  qed
  have cut: "cut_on (CHR '' '') (bearer p) = Some (''Bearer'', p)" by (simp add: cut_on_Some_iff)
  have known: "contains_known b (bearer p)"
    using map_of_SomeD [OF ref] only by (auto simp: contains_known_iff carries_only_def)
  have valid: "valid_credential_value b (bearer p) True"
    unfolding valid_credential_value_def Let_def trims cut by (simp add: trims ref key)
  have rest: "replace_loop b now client host ys (bearer (tr_access r)) used = Inr (bearer (tr_access r), used)"
    if "set ys \<subseteq> set (ob_virtual b)" for ys used client
    using replace_loop_skip [of ys "bearer (tr_access r)" b now client host "[]" used] real that
    by (auto simp: no_placeholder_def contains_known_def list_ex_iff)
  have "replace_loop b now (tr_client r) host (virtual_values b) (bearer p) [] = Inr (bearer (tr_access r), [oauth_name (tr_broker r) Access])"
    using replace_loop_one [OF ok ref _ only, of r now "tr_client r" host] r live host d rest replace_all_bearer [OF space p(3)]
    by (auto simp: token_host_allowed_def definition_of_def)
  then have "replace_request_value b now (bearer p) (tr_client r) host True Site_Credential True =
      Inr (bearer (tr_access r), [oauth_name (tr_broker r) Access])"
    using real by (intro replace_request_value_known) (simp_all only: known valid no_placeholder_def simp_thms)
  then show ?thesis by (rule oauth_apply_one)
qed


end
