(* ===== verification/Oauth_Faults.thy ===== *)
theory Oauth_Faults
  imports Oauth_Confinement
begin

text \<open>
  What the OAuth broker (\<open>internal/oauth/broker.go\<close>) does when something is off: scrubbing misses no
  token, a placeholder that is no longer live fails closed, and two faults of token responses: an
  expiry that cannot be written blocks every other client, and a JWT with a \<open>null\<close> payload panics.
\<close>

subsection \<open>Scrubbing\<close>

lemma set_token_values:
  "v \<in> set (token_values b) \<longleftrightarrow> (\<exists>key r. (key, r) \<in> set (ob_records b) \<and> v \<in> set (token_values_of r))"
  by (force simp: token_values_def)

lemma oauth_scrub_names:
  "snd (oauth_scrub b data client host) = [] \<longleftrightarrow>
    data = [] \<or> (\<forall>v \<in> set (token_values b). token_in_scope b client host v \<longrightarrow> \<not> contains data (tv_value v))"
proof -
  obtain out used where run: "scrub_tokens b client host (token_values b) data [] = (out, used)" by fastforce
  have "used = []" if "\<forall>v \<in> set vs. token_in_scope b client host v \<longrightarrow> \<not> contains data (tv_value v)"
    "scrub_tokens b client host vs data [] = (out, used)" for vs
    using that by (induction vs) auto
  with run show ?thesis
    using scrub_tokens_names [OF run] by (auto simp: oauth_scrub_def)
qed

text \<open>No token slips through: if a text for a client, from the issuer or an API host of a broker,
  contains the real access or refresh token of that client, \<open>Scrub\<close> reports a token, and where it reports
  none the text is delivered as it is.\<close>

theorem scrub_detects:
  assumes "serving ds b" and "map_of (ob_records b) key = Some r" and "real_token r kind \<noteq> []"
    and "token_placeholder r kind \<noteq> []"
    and "canonical_host host = od_issuer_host (definition_of b r) \<or> token_host_allowed (definition_of b r) kind (canonical_host host)"
  shows "(contains data (real_token r kind) \<longrightarrow> snd (oauth_scrub b data (tr_client r) host) \<noteq> []) \<and>
    (snd (oauth_scrub b data client host) = [] \<longrightarrow> fst (oauth_scrub b data client host) = data)"
proof (intro conjI impI)
  assume found: "contains data (real_token r kind)"
  obtain d where d: "by_name b (tr_broker r) = Some d"
    using oauth_ok_record [OF serving_ok [OF assms(1)] assms(2)] by (auto simp: record_ok_def)
  define v where "v = \<lparr>tv_value = real_token r kind, tv_replacement = token_placeholder r kind,
    tv_broker = tr_broker r, tv_client = tr_client r, tv_kind = kind\<rparr>"
  have "v \<in> set (token_values_of r)"
    using assms(3,4) by (cases kind) (auto simp: v_def token_values_of_def real_token_def)
  then have "v \<in> set (token_values b)" using map_of_SomeD [OF assms(2)] by (auto simp: set_token_values)
  moreover have "token_in_scope b (tr_client r) host v" using assms(5) d by (simp add: token_in_scope_def v_def definition_of_def)
  moreover have "data \<noteq> []" using found assms(3) by auto
  ultimately show "snd (oauth_scrub b data (tr_client r) host) \<noteq> []"
    using found by (auto simp: oauth_scrub_names v_def)
next
  assume "snd (oauth_scrub b data client host) = []"
  then show "fst (oauth_scrub b data client host) = data"
    using oauth_scrub_quiet [of b data client host] by (metis prod.collapse)
qed

subsection \<open>Placeholders that are no longer live\<close>

lemma placeholder_char_b64: "c \<in> set (b64_encode b64_url False s) \<Longrightarrow> placeholder_char c"
proof -
  assume c: "c \<in> set (b64_encode b64_url False s)"
  have "length alph = 64 \<Longrightarrow> set (b64_encode alph False s) \<subseteq> set alph" for alph
    by (induction alph False s rule: b64_encode.induct) (use b64_bounds in \<open>auto intro!: nth_mem\<close>)
  then have "set (b64_encode b64_url False s) \<subseteq> set b64_url" using b64_ok_alphabets(2) by (simp add: b64_ok_def)
  moreover have "\<forall>c \<in> set b64_url. placeholder_char c"
    by (simp add: b64_url_def placeholder_char_def)
  ultimately show ?thesis using c by blast
qed

lemma b64_blocks: "4 * (length s div 3) \<le> length (b64_encode alph pad s)"
proof (induction alph pad s rule: b64_encode.induct)
  case (4 alph pad a b c s)
  have len: "length (b64_encode alph pad (a # b # c # s)) = 4 + length (b64_encode alph pad s)" by simp
  have blocks: "length (a # b # c # s) div 3 = Suc (length s div 3)" by simp
  show ?case unfolding len blocks mult_Suc_right add_le_cancel_left by (rule 4)
qed auto

lemma placeholder_char_field:
  assumes "list_all field_rune (runes s)" and "c \<in> set s" shows "placeholder_char c"
proof -
  have "field_rune (code c)" using assms ident_runes_ascii [OF assms(1)] by (simp add: runes_ascii list_all_iff)
  moreover have "c = CHR ''_''" if "code c = 95" by (rule inj_onD [OF inj_of_char [where 'a = nat]]) (use that in simp_all)
  moreover have "c = CHR ''-''" if "code c = 45" by (rule inj_onD [OF inj_of_char [where 'a = nat]]) (use that in simp_all)
  ultimately show ?thesis by (auto simp: field_rune_def ident_rest_def placeholder_char_def)
qed

lemma find_placeholder_suffix: "placeholder_at t = Some m \<Longrightarrow> m \<noteq> [] \<Longrightarrow> find_placeholder (s @ t) \<noteq> []"
proof (induction s)
  case Nil
  have "t \<noteq> []" using Nil by (auto simp: placeholder_at_def placeholder_head_def cut_prefix_def)
  then show ?case using Nil by (cases t) auto
next
  case (Cons c s)
  then show ?case by (auto simp: placeholder_at_def placeholder_head_def Let_def split: option.splits if_splits)
qed

lemma made_placeholder_matches:
  assumes "contains v (placeholder_head @ kind @ t)" and "kind = ''ACCESS_'' \<or> kind = ''REFRESH_''"
    and "32 \<le> length t" and "\<forall>c \<in> set t. placeholder_char c"
  shows "matches_placeholder v"
proof -
  from assms(1) obtain ps ss where v: "v = ps @ placeholder_head @ kind @ t @ ss" by (auto simp: sublist_def)
  have "takeWhile placeholder_char (t @ ss) = t @ takeWhile placeholder_char ss" using assms(4) by simp
  then have "placeholder_at (placeholder_head @ kind @ t @ ss) = Some (placeholder_head @ kind @ t @ takeWhile placeholder_char ss)"
    using assms(2,3) by (auto simp: placeholder_at_def cut_prefix_def)
  then show ?thesis unfolding matches_placeholder_def v by (rule find_placeholder_suffix) (simp add: placeholder_head_def)
qed

text \<open>Stale placeholders fail closed: a header or query value with a placeholder as the broker makes
  them (24 random bytes, with or without the prefix of a definition), in which no live one is left,
  never reaches the upstream, at any host and for any client.\<close>

theorem stale_placeholder_refused:
  assumes "new_placeholder kind (Some bytes) = Inr p" and "length bytes = 24"
    and "kind \<in> {''ACCESS'', ''REFRESH''} \<or> (\<exists>pre. kind = ''ACCESS_'' @ pre \<and> valid_placeholder_prefix pre)"
    and "contains v p" and "\<not> contains_known b v"
  shows "\<exists>e. replace_request_value b now v client host secure Site_Credential scheme = Inl e"
proof -
  have tail: "32 \<le> length (b64_encode b64_url False bytes)" "\<forall>c \<in> set (b64_encode b64_url False bytes). placeholder_char c"
    using b64_blocks [of bytes b64_url False] assms(2) placeholder_char_b64 by auto
  have "\<exists>kind' t. p = placeholder_head @ kind' @ t \<and> kind' \<in> {''ACCESS_'', ''REFRESH_''} \<and> 32 \<le> length t \<and> (\<forall>c \<in> set t. placeholder_char c)"
    using assms(3)
  proof
    assume "kind \<in> {''ACCESS'', ''REFRESH''}"
    then show ?thesis
      using tail assms(1) by (intro exI [of _ "kind @ ''_''"] exI [of _ "b64_encode b64_url False bytes"]) (auto simp: new_placeholder_def)
  next
    assume "\<exists>pre. kind = ''ACCESS_'' @ pre \<and> valid_placeholder_prefix pre"
    then obtain pre where pre: "kind = ''ACCESS_'' @ pre" "list_all field_rune (runes pre)" by (auto simp: valid_placeholder_prefix_def)
    show ?thesis
      using tail assms(1) pre placeholder_char_field [OF pre(2)]
      by (intro exI [of _ "''ACCESS_''"] exI [of _ "pre @ ''_'' @ b64_encode b64_url False bytes"])
        (auto simp: new_placeholder_def placeholder_char_def)
  qed
  then have "matches_placeholder v" using made_placeholder_matches assms(4) by blast
  moreover have "replace_loop b now client host (virtual_values b) v [] = Inr (v, [])"
    using replace_loop_skip [of "virtual_values b" v b now client host "[]" "[]"] assms(5)
    by (auto simp: contains_known_def list_ex_iff)
  ultimately show ?thesis by (auto simp: replace_request_value_def assms(5))
qed

subsection \<open>An expiry that cannot be written\<close>

lemma write_state_blocked:
  assumes "map_of (ob_records b) key = Some r" and "tr_expires r = Some t" and "\<not> encodable_instant t"
  shows "\<exists>e. write_state b written = Inl e"
proof -
  have "r \<in> set (snapshot b)" using map_of_SomeD [OF assms(1)] by (force simp: snapshot_def)
  then show ?thesis using assms(2,3) by (auto simp: write_state_def list_all_iff)
qed

text \<open>C30. One record whose expiry lies outside the years 0 to 9999 (an \<open>expires_at\<close> in microseconds is
  enough) blocks all others: until the token of that broker and client is replaced, every response of
  the token endpoint to any other client or broker fails, whatever it holds.\<close>

theorem expiry_blocks_others:
  assumes "map_of (ob_records b) key = Some r" and "tr_expires r = Some t" and "\<not> encodable_instant t"
    and "200 \<le> rs_code resp" and "rs_code resp < 300" and "rq_url req = Some u"
    and "match_definition b client host (u_path u) = Some d" and "token_key (od_name d) client \<noteq> key"
  shows "\<exists>e. fst (observe_token_response b now rn written req resp body client host) = Inl e"
proof -
  have "\<exists>e. write_state (store_record (token_key (od_name d) client) r' b) written = Inl e" for r'
    using assms(1,8) by (intro write_state_blocked [where key = key, OF _ assms(2,3)]) (simp add: store_record_maps)
  then have "\<exists>e. fst (case write_state (store_record (token_key (od_name d) client) r' b) written of
      Inl e \<Rightarrow> (Inl (Observe_Failed e), store_record (token_key (od_name d) client) r' b)
    | Inr _ \<Rightarrow> (Inr (virtual_response d ms r' hr), store_record (token_key (od_name d) client) r' b)) = Inl e" for r' ms hr
    by (metis (no_types, lifting) fst_conv old.sum.simps(5))
  then show ?thesis
    using assms(4-7) by (auto simp: observe_token_response_def Let_def split: option.split sum.split prod.split)
qed

subsection \<open>A JWT with a null payload\<close>

text \<open>A token endpoint whose access token is a JWT with the payload \<open>null\<close> makes the broker panic:
  \<open>makeVirtualJWT\<close> assigns to the nil map that the payload decodes to.\<close>

theorem null_payload_panics:
  assumes "is_jwt token" and "jwt_parts token = Some (header, ''bnVsbA'', signature)"
    and "rn_jwt rn = Some bytes"
  shows "new_access_placeholder token pre rn = Inl Observe_Panic"
proof -
  have "decode_base64_url ''bnVsbA'' = Some ''null''" "unmarshal_map ''null'' = Some None" by code_simp+
  moreover have "decode_base64_url header \<noteq> None" using assms(1,2) by (auto simp: is_jwt_def split: option.splits)
  ultimately have "make_virtual_jwt token (rn_jwt rn) = Jwt_Panic" using assms(2,3) by (auto simp: make_virtual_jwt_def)
  then show ?thesis using assms(1) by (simp add: new_access_placeholder_def)
qed

end
