(* ===== verification/Oauth_Examples.thy ===== *)
theory Oauth_Examples
  imports Oauth_Faults
begin

text \<open>
  One run of the OAuth broker (\<open>internal/oauth/broker.go\<close>): it starts with one definition and no file,
  and virtualizes one token response. The theorems of the OAuth theories are applied to it.
\<close>

definition sample_start :: oauth where
  "sample_start = \<lparr>ob_defs = [sample_oauth_ok], ob_records = [], ob_virtual = []\<rparr>"

definition sample_random :: oauth_random where
  "sample_random = \<lparr>rn_jwt = Some (replicate 24 (CHR ''a'')), rn_access = Some (replicate 24 (CHR ''b'')),
     rn_refresh = Some (replicate 24 (CHR ''c''))\<rparr>"

definition token_request :: request where
  "token_request = \<lparr>rq_method = ''POST'', rq_host = ''auth.example.com'', rq_url = Some \<lparr>u_scheme = ''https'', u_user = False,
       u_host = ''auth.example.com'', u_path = ''/token'', u_escaped = ''/token'', u_query = []\<rparr>,
     rq_header = [], rq_trailer = [], rq_body = None, rq_length = 0, rq_transfer = [], rq_major = 1, rq_minor = 1,
     rq_close = False\<rparr>"

definition token_response :: response where
  "token_response = \<lparr>rs_code = 200, rs_status = ''200 OK'', rs_header = [(''Content-Type'', [''application/json''])],
     rs_trailer = [], rs_body = \<lparr>sm_data = [], sm_error = None\<rparr>, rs_length = 0, rs_transfer = [], rs_major = 1, rs_minor = 1,
     rs_close = False, rs_request = None\<rparr>"

definition token_body :: string where
  "token_body = ''{\"access_token\":\"ya29.real\",\"refresh_token\":\"1//real\",\"expires_in\":3600}''"

definition access_virtual :: string where
  "access_virtual = ''VEILGATED_SECRET_OAUTH_ACCESS_ya29_YmJiYmJiYmJiYmJiYmJiYmJiYmJiYmJi''"

definition refresh_virtual :: string where
  "refresh_virtual = ''VEILGATED_SECRET_OAUTH_REFRESH_Y2NjY2NjY2NjY2NjY2NjY2NjY2NjY2Nj''"

definition sample_record :: token_record where
  "sample_record = \<lparr>tr_broker = ''idp'', tr_client = ''agent'', tr_issuer_host = ''auth.example.com'', tr_access = ''ya29.real'',
     tr_refresh = ''1//real'', tr_access_placeholder = access_virtual, tr_refresh_placeholder = refresh_virtual,
     tr_expires = Some (3600 * second), tr_updated = 0\<rparr>"

definition sample_key :: string where
  "sample_key = token_key ''idp'' ''agent''"

definition sample_running :: oauth where
  "sample_running = \<lparr>ob_defs = [sample_oauth_ok], ob_records = [(sample_key, sample_record)],
     ob_virtual = [(access_virtual, \<lparr>tf_key = sample_key, tf_kind = Access\<rparr>), (refresh_virtual, \<lparr>tf_key = sample_key, tf_kind = Refresh\<rparr>)]\<rparr>"

definition token_members :: "(string \<times> string) list" where
  "token_members = [(''access_token'', ''\"ya29.real\"''), (''refresh_token'', ''\"1//real\"''), (''expires_in'', ''3600'')]"

definition sample_output :: string where
  "sample_output = fst (virtual_response sample_oauth_ok token_members sample_record True)"

definition sample_names :: "string list" where
  "sample_names = snd (virtual_response sample_oauth_ok token_members sample_record True)"

lemma sample_path: "trim_space ''auth.json'' \<noteq> []"
  by (simp add: evaluate sublist_code)

lemma sample_starts: "new_oauth [sample_oauth] ''auth.json'' Auth_Missing = Inr sample_start"
  unfolding new_oauth_def sample_oauth_validates
  by (simp only: sample_path wrap_error_def sum.case rbind.simps require_def if_True load_state_def auth_source.case sample_start_def
      not_False_eq_True)

lemma sample_canonical: "canonical_host ''auth.example.com'' = ''auth.example.com''"
  by code_simp

lemma sample_matches: "match_definition sample_start ''agent'' ''auth.example.com'' ''/token'' = Some sample_oauth_ok"
  by (simp add: match_definition_def sample_start_def sample_oauth_ok_def sample_canonical)

lemma token_media: "json_media (oauth_media_type (header_get (rs_header token_response) ''Content-Type''))"
proof -
  have h: "header_get (rs_header token_response) ''Content-Type'' = ''application/json''"
    by (simp add: token_response_def evaluate)
  have "oauth_media_type ''application/json'' = ''application/json''"
    by (simp add: oauth_media_type_def trim_space_graphic graphic_def to_lower_fixed)
  then show ?thesis unfolding h by (simp add: json_media_def)
qed

lemma sample_members: "unmarshal_map token_body = Some (Some token_members)"
  by (simp add: token_body_def token_members_def evaluate)

lemma token_new: "new_record sample_start 0 sample_random sample_oauth_ok ''agent'' token_members = Inr (sample_record, True)"
  by code_simp

lemma sample_stored: "store_record (token_key ''idp'' ''agent'') sample_record sample_start = sample_running"
  by code_simp

lemma sample_written: "write_state sample_running (Inr ()) = Inr ()"
  by (simp add: write_state_def snapshot_def sample_running_def sample_record_def encodable_instant_iff)

lemma sample_observes: "observe_token_response sample_start 0 sample_random (Inr ()) token_request token_response token_body
    ''agent'' ''auth.example.com'' = (Inr (sample_output, sample_names), sample_running)"
proof -
  have code: "\<not> (rs_code token_response < 200 \<or> 300 \<le> rs_code token_response)" by (simp add: token_response_def)
  have url: "\<exists>u. rq_url token_request = Some u \<and> u_path u = ''/token''" by (simp add: token_request_def)
  then obtain u where u: "rq_url token_request = Some u" "u_path u = ''/token''" by blast
  have name: "od_name sample_oauth_ok = ''idp''" by (simp add: sample_oauth_ok_def)
  show ?thesis
    unfolding observe_token_response_def if_not_P [OF code] u option.case sample_matches sample_members token_new
      sum.case prod.case Let_def name sample_stored sample_written
    by (simp add: token_media sample_output_def sample_names_def)
qed

lemma fresh_start: "fresh_update sample_start sample_running"
  by (simp add: fresh_update_def fresh_for_def sample_start_def)

lemma sample_serving: "serving [sample_oauth] sample_start" "serving [sample_oauth] sample_running"
proof -
  show start: "serving [sample_oauth] sample_start" by (rule serving.start [OF sample_starts])
  show "serving [sample_oauth] sample_running" by (rule serving.respond [OF start sample_observes fresh_start])
qed

text \<open>A second response for the same client, without a refresh token, replaces the access token.\<close>

definition next_random :: oauth_random where
  "next_random = \<lparr>rn_jwt = None, rn_access = Some (replicate 24 (CHR ''d'')), rn_refresh = None\<rparr>"

definition next_body :: string where
  "next_body = ''{\"access_token\":\"ya29.next\"}''"

definition next_virtual :: string where
  "next_virtual = ''VEILGATED_SECRET_OAUTH_ACCESS_ya29_ZGRkZGRkZGRkZGRkZGRkZGRkZGRkZGRk''"

definition next_record :: token_record where
  "next_record = sample_record\<lparr>tr_access := ''ya29.next'', tr_access_placeholder := next_virtual, tr_expires := None,
     tr_updated := second\<rparr>"

definition next_state :: oauth where
  "next_state = store_record sample_key next_record sample_running"

lemma sample_matches_next: "match_definition sample_running ''agent'' ''auth.example.com'' ''/token'' = Some sample_oauth_ok"
  by (simp add: match_definition_def sample_running_def sample_oauth_ok_def sample_canonical)

lemma next_members: "unmarshal_map next_body = Some (Some [(''access_token'', ''\"ya29.next\"'')])"
  by (simp add: next_body_def evaluate)

lemma next_new: "new_record sample_running second next_random sample_oauth_ok ''agent'' [(''access_token'', ''\"ya29.next\"'')] =
    Inr (next_record, True)"
  by code_simp

lemma next_observes: "\<exists>res. observe_token_response sample_running second next_random (Inr ()) token_request token_response next_body
    ''agent'' ''auth.example.com'' = (res, next_state)"
proof -
  have code: "\<not> (rs_code token_response < 200 \<or> 300 \<le> rs_code token_response)" by (simp add: token_response_def)
  obtain u where u: "rq_url token_request = Some u" "u_path u = ''/token''" by (simp add: token_request_def)
  have name: "od_name sample_oauth_ok = ''idp''" by (simp add: sample_oauth_ok_def)
  show ?thesis
    unfolding observe_token_response_def if_not_P [OF code] u option.case sample_matches_next next_members next_new
      sum.case prod.case Let_def name sample_key_def [symmetric] next_state_def [symmetric]
    by (simp add: token_media split: sum.split)
qed

lemma virtual_differ: "next_virtual \<noteq> access_virtual" "next_virtual \<noteq> refresh_virtual" "access_virtual \<noteq> refresh_virtual"
  "access_virtual \<noteq> []" "refresh_virtual \<noteq> []" "next_virtual \<noteq> []"
  by (simp_all add: next_virtual_def access_virtual_def refresh_virtual_def)

lemma next_records: "map_of (ob_records next_state) = [sample_key \<mapsto> next_record]"
  by (simp add: next_state_def store_record_maps sample_running_def)

lemma fresh_next: "fresh_update sample_running next_state"
  unfolding fresh_update_def next_records
proof (intro allI impI)
  fix key r assume "[sample_key \<mapsto> next_record] key = Some r"
  then have r: "key = sample_key" "r = next_record" by (auto split: if_splits)
  have "map_of (ob_virtual sample_running) (token_placeholder next_record kind) \<in> {None, Some \<lparr>tf_key = sample_key, tf_kind = kind\<rparr>}" for kind
    by (cases kind) (use virtual_differ in \<open>simp_all add: next_record_def sample_record_def sample_running_def\<close>)
  then show "fresh_for sample_running key r" by (simp add: fresh_for_def r)
qed

theorem serving_invariant_witness:
  "oauth_ok sample_running \<and> map_of (ob_virtual sample_running) access_virtual \<noteq> None \<and>
    map_of (ob_virtual next_state) access_virtual = None"
proof -
  obtain res where step: "observe_token_response sample_running second next_random (Inr ()) token_request token_response next_body
    ''agent'' ''auth.example.com'' = (res, next_state)" using next_observes by blast
  have old: "map_of (ob_records sample_running) sample_key = Some sample_record" by (simp add: sample_running_def)
  have new: "map_of (ob_records next_state) sample_key = Some next_record" by (simp add: next_records)
  have "token_placeholder next_record kind' \<noteq> token_placeholder sample_record Access" for kind'
    by (cases kind') (use virtual_differ in \<open>simp_all add: next_record_def sample_record_def\<close>)
  with serving_invariant [OF sample_serving(2), of second next_random "Inr ()" token_request token_response next_body "''agent''"
      "''auth.example.com''" res next_state sample_key sample_record next_record Access] step fresh_next old new
  have "oauth_ok sample_running \<and> map_of (ob_virtual next_state) (token_placeholder sample_record Access) = None" by blast
  then show ?thesis by (simp add: sample_record_def sample_running_def)
qed


text \<open>The placeholder at an API host, as the bearer token of the client.\<close>

lemma sample_by_name: "by_name sample_running ''idp'' = Some sample_oauth_ok"
  by (simp add: by_name_def sample_running_def sample_oauth_ok_def)

lemma sample_api_host: "matches_api_host (od_api_hosts sample_oauth_ok) (canonical_host ''v1.api.example.com'')"
proof -
  have "canonical_host ''v1.api.example.com'' = ''v1.api.example.com''" by code_simp
  then show ?thesis by (simp add: sample_oauth_ok_def evaluate)
qed

lemma bearer_known:
  "contains (bearer access_virtual) access_virtual" "\<not> contains (bearer access_virtual) refresh_virtual"
  "\<not> contains (bearer ''ya29.real'') access_virtual" "\<not> contains (bearer ''ya29.real'') refresh_virtual"
  by (simp_all add: access_virtual_def refresh_virtual_def sublist_code)

lemma sample_carries: "carries_only sample_running access_virtual (bearer access_virtual)"
  unfolding carries_only_def
  using bearer_known(1,2) by (auto simp: sample_running_def split: if_splits)

lemma sample_real: "no_placeholder sample_running (bearer ''ya29.real'')"
proof -
  have "\<not> contains_known sample_running (bearer ''ya29.real'')"
    unfolding contains_known_def list_ex_iff using bearer_known(3,4) by (auto simp: sample_running_def)
  moreover have "\<not> matches_placeholder (bearer ''ya29.real'')" by code_simp
  moreover have "\<not> virtual_jwt_in_credential (bearer ''ya29.real'') True" by (simp add: evaluate)
  ultimately show ?thesis by (simp only: no_placeholder_def simp_thms)
qed

lemma sample_sent: "oauth_apply sample_running 0 [(''Authorization'', [bearer access_virtual])] ''agent'' ''v1.api.example.com'' True =
    Inr ([(''Authorization'', [bearer ''ya29.real''])], [''oauth_idp_access_token''])"
proof -
  have r: "map_of (ob_records sample_running) sample_key = Some sample_record" by (simp add: sample_running_def)
  have f: "tr_access_placeholder sample_record = access_virtual" "tr_client sample_record = ''agent''"
    "tr_access sample_record = ''ya29.real''" "tr_broker sample_record = ''idp''"
    by (simp_all add: sample_record_def)
  have n: "oauth_name ''idp'' Access = ''oauth_idp_access_token''" by (simp add: evaluate)
  show ?thesis
    using bearer_substituted [OF serving_ok [OF sample_serving(2)] r, of sample_oauth_ok access_virtual "''v1.api.example.com''" 0 "''Authorization''",
        unfolded f n] sample_by_name sample_api_host sample_carries sample_real
    by (simp add: token_expired_def sample_record_def access_virtual_def graphic_def)
qed




theorem scrub_detects_witness:
  "snd (oauth_scrub sample_running ''{\"echo\":\"1//real\"}'' ''agent'' ''auth.example.com'') \<noteq> []"
proof -
  have r: "map_of (ob_records sample_running) sample_key = Some sample_record" by (simp add: sample_running_def)
  have d: "definition_of sample_running sample_record = sample_oauth_ok"
    using sample_by_name by (simp add: definition_of_def sample_record_def)
  have f: "real_token sample_record Refresh = ''1//real''" "token_placeholder sample_record Refresh \<noteq> []" "tr_client sample_record = ''agent''"
    by (simp_all add: sample_record_def real_token_def virtual_differ)
  have h: "canonical_host ''auth.example.com'' = od_issuer_host sample_oauth_ok" by (simp add: sample_canonical sample_oauth_ok_def)
  have c: "contains ''{\"echo\":\"1//real\"}'' ''1//real''" by (simp add: sublist_code)
  show ?thesis
    using scrub_detects [OF sample_serving(2) r, of Refresh "''auth.example.com''" "''{\"echo\":\"1//real\"}''" "''agent''"] f h c
    unfolding d f by simp
qed

theorem stale_placeholder_refused_witness:
  "\<exists>p e. new_placeholder ''ACCESS'' (Some (replicate 24 (CHR ''z''))) = Inr p \<and>
    replace_request_value sample_start 0 (bearer p) ''agent'' ''v1.api.example.com'' True Site_Credential True = Inl e"
proof -
  obtain p where p: "new_placeholder ''ACCESS'' (Some (replicate 24 (CHR ''z''))) = Inr p" by (simp add: new_placeholder_def)
  have "\<exists>e. replace_request_value sample_start 0 (bearer p) ''agent'' ''v1.api.example.com'' True Site_Credential True = Inl e"
  proof (rule stale_placeholder_refused [OF p])
    show "contains (bearer p) p"
      unfolding sublist_def by (rule exI [of _ "''Bearer ''"], rule exI [of _ "[]"]) simp
  qed (simp_all add: contains_known_def sample_start_def)
  with p show ?thesis by blast
qed

text \<open>Two clients share a broker; one of them got an expiry in microseconds.\<close>

definition blocked_state :: oauth where
  "blocked_state = \<lparr>ob_defs = [sample_oauth_ok\<lparr>od_clients := [''agent'', ''other'']\<rparr>],
     ob_records = [(sample_key, sample_record\<lparr>tr_expires := token_expiry 0 [[], ''1700000000000000'']\<rparr>)],
     ob_virtual = ob_virtual sample_running\<rparr>"

theorem expiry_blocks_others_witness:
  "\<exists>e. fst (observe_token_response blocked_state 0 sample_random (Inr ()) token_request token_response token_body ''other''
    ''auth.example.com'') = Inl e"
proof -
  have int: "unmarshal_int ''1700000000000000'' = Some 1700000000000000" by (simp add: evaluate)
  have r: "map_of (ob_records blocked_state) sample_key = Some (sample_record\<lparr>tr_expires := Some (1700000000000000 * 1000000)\<rparr>)"
    by (simp add: blocked_state_def expiry_of_def positive_time_def parse_time_int_def int)
  have "match_definition blocked_state ''other'' ''auth.example.com'' ''/token'' = Some (sample_oauth_ok\<lparr>od_clients := [''agent'', ''other'']\<rparr>)"
    by (simp add: match_definition_def blocked_state_def sample_oauth_ok_def sample_canonical)
  then show ?thesis
    by (intro expiry_blocks_others [OF r])
      (auto simp: encodable_instant_iff token_response_def token_request_def sample_key_def token_key_def sample_oauth_ok_def)
qed

theorem null_payload_panics_witness: "new_access_placeholder ''e30.bnVsbA.x'' [] sample_random = Inl Observe_Panic"
proof -
  have "is_jwt ''e30.bnVsbA.x''" "jwt_parts ''e30.bnVsbA.x'' = Some (''e30'', ''bnVsbA'', ''x'')" by code_simp+
  then show ?thesis by (rule null_payload_panics) (simp add: sample_random_def)
qed

end
