(* ===== verification/Gateway.thy ===== *)
theory Gateway
  imports Oauth_Examples Proxy_Handler
begin

text \<open>
  The gateway as \<open>cmd/veilgated/main.go\<close> puts it together: the proxy handler with the static broker and
  the OAuth broker combined, and the OAuth broker observing token responses. The state that the
  handler passes along is the state of the OAuth broker, the time, and what the next observation draws
  from the random source, gets from the file system and finds on the clock. The theorems are about
  the whole path of a token response through the proxy.
\<close>

record gateway =
  gw_oauth :: oauth
  gw_now :: instant
  gw_feed :: "nat \<Rightarrow> oauth_random \<times> (string, unit) result \<times> instant"
  gw_count :: nat

text \<open>A panic of the observation ends the request like an error does: the server recovers it, and no
  response is delivered.\<close>

definition observe_text :: "observe_error \<Rightarrow> string" where
  "observe_text e = (case e of Observe_Failed t \<Rightarrow> t | Observe_Panic \<Rightarrow> ''assignment to entry in nil map'')"

definition gateway_secrets :: "(apply_error \<Rightarrow> string) \<Rightarrow> (substitute_error \<Rightarrow> string) \<Rightarrow> broker option \<Rightarrow> gateway
    \<Rightarrow> secret_broker option" where
  "gateway_secrets apply_text subst_text static g =
    combine_brokers [map_option (static_broker apply_text subst_text) static,
      Some (oauth_secret_broker (gw_now g) (gw_oauth g))]"

definition gateway_observe :: "gateway \<Rightarrow> request \<Rightarrow> response \<Rightarrow> string \<Rightarrow> string \<Rightarrow> string
    \<Rightarrow> (string, string \<times> string list) result \<times> gateway" where
  "gateway_observe g req resp body client host =
    (case gw_feed g (gw_count g) of (rn, written, now) \<Rightarrow>
     case observe_token_response (gw_oauth g) (gw_now g) rn written req resp body client host of (res, b) \<Rightarrow>
     (wrap_error observe_text res, g\<lparr>gw_oauth := b, gw_now := now, gw_count := Suc (gw_count g)\<rparr>))"

text \<open>The part of \<open>runServe\<close> that gives the brokers to the handler, for a configured OAuth broker.\<close>

definition wire_brokers :: "(apply_error \<Rightarrow> string) \<Rightarrow> (substitute_error \<Rightarrow> string) \<Rightarrow> broker option
    \<Rightarrow> (gateway, 'z) handler_scheme \<Rightarrow> (gateway, 'z) handler_scheme" where
  "wire_brokers apply_text subst_text static h =
    h\<lparr>hd_secrets := gateway_secrets apply_text subst_text static, hd_observe := Some gateway_observe\<rparr>"

lemma wire_brokers_fields [simp]:
  "hd_secrets (wire_brokers a s static h) = gateway_secrets a s static"
  "hd_observe (wire_brokers a s static h) = Some gateway_observe"
  "hd_codecs (wire_brokers a s static h) = hd_codecs h"
  "mediation_limit (wire_brokers a s static h) = mediation_limit h"
  by (simp_all add: wire_brokers_def mediation_limit_def)

text \<open>The combined broker keeps the contract that the proxy relies on.\<close>

lemma gateway_mediates: "mediates (gateway_secrets a s static g)"
proof (cases static)
  case None
  then show ?thesis by (simp add: gateway_secrets_def combine_brokers_def oauth_mediates)
next
  case (Some st)
  have "mediating_broker (broker_chain [static_broker a s st, oauth_secret_broker (gw_now g) (gw_oauth g)])"
    by (rule chain_mediates) (simp add: oauth_mediates static.mediating_broker_axioms)
  then show ?thesis by (simp add: gateway_secrets_def combine_brokers_def Some)
qed

interpretation gateway: mediating_broker "the (gateway_secrets a s static g)" for a s static g
proof -
  have "\<exists>b. gateway_secrets a s static g = Some b"
    by (cases static) (simp_all add: gateway_secrets_def combine_brokers_def)
  then show "mediating_broker (the (gateway_secrets a s static g))"
    using gateway_mediates [of a s static g] by auto
qed

subsection \<open>Hosts of the OAuth broker\<close>

text \<open>The OAuth broker decides what is intercepted: a client that has a definition for an issuer or
  API host is fully mediated there, whatever its interception mode and inspection lists say, unless
  the policy lists the host as opaque and has no rules for it.\<close>

theorem oauth_hosts_mediated:
  assumes "oauth_scopes_host (gw_oauth g) (c_name c) host"
  shows "handling_for (gateway_secrets a s static g) c host =
    (if uses_opaque_tunnel_list c host \<and> \<not> has_rules_for c host then Opaque else Full)"
proof -
  have "broker_scopes (gateway_secrets a s static g) (c_name c) host"
    using assms by (cases static) (simp_all add: gateway_secrets_def combine_brokers_def broker_scopes_def broker_chain_def
      chain_scopes_def oauth_secret_broker_def)
  then show ?thesis by (simp add: handling_for_def Let_def)
qed

lemma match_definition_scopes: "match_definition b client host path = Some d \<Longrightarrow> oauth_scopes_host b client host"
  by (drule match_definition_Some) (auto simp: oauth_scopes_host_def Let_def list_ex_iff)

subsection \<open>A token response on its way through the proxy\<close>

lemma observe_success:
  assumes "observe_token_response b now rn written req resp body client host = (Inr (out, names), b')"
    and "200 \<le> rs_code resp" and "rs_code resp < 300" and "rq_url req = Some u"
    and "match_definition b client host (u_path u) = Some d"
  shows "\<exists>ms r has. unmarshal_map body \<noteq> None \<and> new_record b now rn d client ms = Inr (r, has) \<and>
    b' = store_record (token_key (od_name d) client) r b \<and> write_state b' written = Inr () \<and>
    (out, names) = virtual_response d ms r has"
  using assms by (fastforce simp: observe_token_response_def Let_def split: if_splits option.splits sum.splits prod.splits)

lemma write_state_Inr: "write_state b written = Inr () \<Longrightarrow> written = Inr ()"
  by (auto simp: write_state_def split: if_splits)

lemma mediate_response_refused:
  assumes "response_has_body resp" and "read_response h resp = Inr (encoding, body)"
    and "observe_tokens h s resp body client host = (Inl e, s1)"
  shows "mediate_response h s resp client host item = (item\<lparr>fl_decoded := int (length body)\<rparr>, Inl e, s1)"
  by (simp add: mediate_response_def assms)

lemma mediate_response_delivers:
  assumes "response_has_body resp" and "read_response h resp = Inr (''identity'', body)"
    and "observe_tokens h s resp body client host = (Inr (out, names), s1)"
  shows "\<exists>item' resp'. mediate_response h s resp client host item = (item', Inr resp', s1)"
proof -
  obtain resp1 n1 where m: "scrub_response_metadata (hd_secrets h s1) resp client host = (resp1, n1)" by fastforce
  obtain body1 n2 where b: "(case hd_secrets h s1 of None \<Rightarrow> (out, []) | Some b \<Rightarrow> sb_scrub b out client host) = (body1, n2)" by fastforce
  have e: "encode_http_body (hd_codecs h) body1 ''identity'' (mediation_limit h) = Inr body1" by (simp add: encode_http_body_def)
  show ?thesis
    unfolding mediate_response_def assms(2,3) m b e option.case sum.case prod.case Let_def
    by (simp add: assms(1) split: prod.split)
qed

lemma mediate_response_Inr:
  assumes "mediate_response h s resp client host item = (item', Inr resp', s')" and "response_has_body resp"
    and "read_response h resp = Inr (encoding, body)" and "observe_tokens h s resp body client host = (Inr (out, names), s1)"
    and "hd_secrets h s1 = Some sb"
  shows "s' = s1 \<and> (\<exists>encoded. encode_http_body (hd_codecs h) (fst (sb_scrub sb out client host)) encoding (mediation_limit h) = Inr encoded \<and>
    rs_body resp' = bytes_stream encoded)"
proof -
  obtain resp1 n1 where m: "scrub_response_metadata (Some sb) resp client host = (resp1, n1)" by fastforce
  obtain body1 n2 where b: "sb_scrub sb out client host = (body1, n2)" by fastforce
  note step = assms(1) [unfolded mediate_response_def assms(3,4,5) m b option.case sum.case prod.case Let_def]
  have replaced: "rs_body (replace_response_body e r) = bytes_stream e" for e r
    by (simp add: replace_response_body_def Let_def)
  show ?thesis
  proof (cases "encode_http_body (hd_codecs h) body1 encoding (mediation_limit h)")
    case (Inl e)
    then show ?thesis using step assms(2) by simp
  next
    case (Inr encoded)
    then show ?thesis using step assms(2) by (auto simp: b replaced split: prod.splits)
  qed
qed


subsection \<open>Streamed responses are not observed\<close>

lemma session_stream_state: "sv_state (session_stream h s net req resp sent calls client host item) = s"
  by (simp add: session_stream_def refuse_def Let_def split: prod.split sum.split option.split list.split)

lemma event_stream: "streaming_response_type ''text/event-stream'' = (True, True)"
  by (simp add: streaming_response_type_def evaluate)

lemma event_stream_not_json: "\<not> json_media (oauth_media_type ''text/event-stream'')"
proof -
  have "oauth_media_type ''text/event-stream'' = ''text/event-stream''"
    by (simp add: oauth_media_type_def trim_space_graphic graphic_def to_lower_fixed)
  then show ?thesis by (simp add: json_media_def evaluate)
qed

text \<open>C27. A response of the token endpoint that claims to be an event stream passes the OAuth broker by:
  the broker would refuse it, as it is not JSON, but streamed responses are never shown to it, so the
  tokens in it are neither recorded nor replaced.\<close>

theorem token_stream_unobserved:
  assumes "header_get (rs_header resp) ''Content-Type'' = ''text/event-stream''"
    and "200 \<le> rs_code resp" and "rs_code resp < 300" and "rs_code resp \<noteq> 204" and "rq_method req \<noteq> ''HEAD''"
    and "rq_url req = Some u" and "match_definition (gw_oauth g) client host (u_path u) = Some d"
  shows "(\<exists>e. fst (gateway_observe g req resp body client host) = Inl e) \<and>
    session_response (wire_brokers a s static h) g net req resp False sent calls client host item =
      session_stream (wire_brokers a s static h) g net req resp sent calls client host item \<and>
    sv_state (session_response (wire_brokers a s static h) g net req resp False sent calls client host item) = g"
proof -
  have "fst (observe_token_response (gw_oauth g) (gw_now g) rn written req resp body client host) =
      Inl (Observe_Failed ''configured OAuth token response is not JSON'')" for rn written
    using assms event_stream_not_json by (simp add: observe_token_response_def)
  then have "\<exists>e. fst (gateway_observe g req resp body client host) = Inl e"
    by (simp add: gateway_observe_def wrap_error_def split: prod.split) (metis fst_conv old.sum.simps(5))
  moreover have "session_response (wire_brokers a s static h) g net req resp False sent calls client host item =
      session_stream (wire_brokers a s static h) g net req resp sent calls client host item"
    using assms by (simp add: session_response_def should_stream_response_def event_stream)
  ultimately show ?thesis by (simp add: session_stream_state)
qed

subsection \<open>One run\<close>

definition sample_gateway :: gateway where
  "sample_gateway = \<lparr>gw_oauth = sample_start, gw_now = 0, gw_feed = (\<lambda>_. (sample_random, Inr (), 0)), gw_count = 0\<rparr>"

definition plain_handler :: "gateway handler" where
  "plain_handler = \<lparr>hd_secrets = (\<lambda>_. None), hd_observe = None, hd_codecs = hd_codecs tiny_handler,
     hd_capture_limit = 0, hd_mediation_limit = 0\<rparr>"

definition token_reply :: response where
  "token_reply = token_response\<lparr>rs_body := bytes_stream token_body, rs_request := Some token_request\<rparr>"

abbreviation sample_wired :: "gateway handler" where
  "sample_wired \<equiv> wire_brokers (\<lambda>_. ''apply'') (\<lambda>_. ''body'') None plain_handler"

lemma token_reply_read: "read_response sample_wired token_reply = Inr (''identity'', token_body)"
proof -
  have e: "content_encoding (rs_header token_reply) = Inr ''identity''"
    by (simp add: token_reply_def token_response_def content_encoding_def header_values_def trim_space_def evaluate)
  have l: "mediation_limit plain_handler = 33554432" by (simp add: mediation_limit_def plain_handler_def)
  have b: "rs_body token_reply = bytes_stream token_body" by (simp add: token_reply_def)
  have "read_bounded (bytes_stream token_body) 33554432 = Inr token_body"
    by (simp add: read_bounded_def bytes_stream_def token_body_def)
  then show ?thesis by (simp add: read_response_def e l b decode_http_body_def wrap_error_def)
qed

lemma observe_reply:
  "observe_token_response b now rn written req (resp\<lparr>rs_body := s, rs_request := r\<rparr>) body client host =
    observe_token_response b now rn written req resp body client host"
proof -
  have same: "rs_code (resp\<lparr>rs_body := s, rs_request := r\<rparr>) = rs_code resp"
    "rs_header (resp\<lparr>rs_body := s, rs_request := r\<rparr>) = rs_header resp" by simp_all
  show ?thesis unfolding observe_token_response_def same ..
qed

lemma token_reply_mediated:
  "\<exists>item' resp' g'. mediate_response sample_wired sample_gateway token_reply ''agent'' ''auth.example.com'' item = (item', Inr resp', g') \<and>
    gw_oauth g' = sample_running"
proof -
  have body: "response_has_body token_reply"
    by (simp add: response_has_body_def token_reply_def token_response_def token_request_def)
  have seen: "observe_tokens sample_wired sample_gateway token_reply token_body ''agent'' ''auth.example.com'' =
      (Inr (sample_output, sample_names), sample_gateway\<lparr>gw_oauth := sample_running, gw_count := Suc 0\<rparr>)"
    using sample_observes
    by (simp add: observe_tokens_def gateway_observe_def sample_gateway_def token_reply_def observe_reply)
  from mediate_response_delivers [OF body token_reply_read seen] show ?thesis by fastforce
qed

theorem oauth_hosts_mediated_witness:
  "handling_for (gateway_secrets (\<lambda>_. ''apply'') (\<lambda>_. ''body'') None sample_gateway)
    (sample_client_ok\<lparr>c_intercept_mode := mode_opaque\<rparr>) ''auth.example.com'' = Full"
proof -
  have "oauth_scopes_host (gw_oauth sample_gateway) (c_name (sample_client_ok\<lparr>c_intercept_mode := mode_opaque\<rparr>)) ''auth.example.com''"
    using match_definition_scopes [OF sample_matches] by (simp add: sample_gateway_def sample_client_ok_def sample_client_def)
  then show ?thesis
    by (subst oauth_hosts_mediated) (simp_all add: uses_opaque_tunnel_list_def listed_in_def Let_def host_matches_def has_rules_for_def sample_client_ok_def sample_client_def)
qed


definition sample_gateway_proxy :: "gateway proxy" where
  "sample_gateway_proxy = \<lparr>hd_secrets = (\<lambda>_. None), hd_observe = None, hd_codecs = hd_codecs tiny_handler,
     hd_capture_limit = 0, hd_mediation_limit = 0, px_policy = Some [sample_client_ok], px_reloaded = None,
     px_resolver = None, px_interceptor = True\<rparr>"

theorem token_stream_unobserved_witness:
  "sv_state (session_response (wire_brokers (\<lambda>_. ''apply'') (\<lambda>_. ''body'') None sample_gateway_proxy) sample_gateway example_network
    token_request (token_reply\<lparr>rs_header := [(''Content-Type'', [''text/event-stream''])]\<rparr>) False 0 [] ''agent'' ''auth.example.com''
    empty_flow) = sample_gateway"
proof -
  let ?resp = "token_reply\<lparr>rs_header := [(''Content-Type'', [''text/event-stream''])]\<rparr>"
  have ct: "header_get (rs_header ?resp) ''Content-Type'' = ''text/event-stream''" by (simp add: evaluate)
  have code: "200 \<le> rs_code ?resp" "rs_code ?resp < 300" "rs_code ?resp \<noteq> 204" "rq_method token_request \<noteq> ''HEAD''"
    by (simp_all add: token_reply_def token_response_def token_request_def)
  obtain u where u: "rq_url token_request = Some u" "u_path u = ''/token''" by (simp add: token_request_def)
  have "match_definition (gw_oauth sample_gateway) ''agent'' ''auth.example.com'' (u_path u) = Some sample_oauth_ok"
    using sample_matches by (simp add: sample_gateway_def u)
  from token_stream_unobserved [OF ct code u(1) this, of "[]" "\<lambda>_. ''apply''" "\<lambda>_. ''body''" None sample_gateway_proxy example_network
      0 "[]" empty_flow] show ?thesis by blast
qed

end
