(* ===== verification/Authority.thy ===== *)
theory Authority
  imports Go_Time Host_Pattern Go_Http
begin

text \<open>
  The interception authority (\<open>internal/intercept/authority.go\<close>): the certificate authority that the
  proxy holds, the leaf certificates it issues for intercepted hosts, and their cache. Decoding of PEM
  and X.509, the key generator, the random source and the signature are arguments; the clock may step
  back between two calls.
\<close>

subsection \<open>Certificates and keys\<close>

datatype key_usage = Digital_Signature | Cert_Sign | Crl_Sign

text \<open>The fields of a certificate that the code sets or reads.\<close>

record certificate =
  ce_serial :: int
  ce_common_name :: string
  ce_dns :: "string list"
  ce_ips :: "ip_addr list"
  ce_not_before :: instant
  ce_not_after :: instant
  ce_usage :: "key_usage list"
  ce_server_auth :: bool
  ce_is_ca :: bool

record pem_block =
  pb_type :: string
  pb_bytes :: string

text \<open>What the standard library decodes: PEM, certificates with the PKIX encoding of their public key,
  and private keys with the encoding of theirs (a PKCS#8 key may be of a kind that cannot sign).\<close>

record crypto_lib =
  cl_pem :: "string \<Rightarrow> (pem_block \<times> string) option"
  cl_certificate :: "string \<Rightarrow> (string, certificate \<times> (string, string) result) result"
  cl_pkcs8 :: "string \<Rightarrow> (string, string) result option option"
  cl_pkcs1 :: "string \<Rightarrow> (string, string) result option"
  cl_ec :: "string \<Rightarrow> (string, string) result option"

text \<open>X.509 has no fractions of a second.\<close>

definition whole_seconds :: "instant \<Rightarrow> instant" where
  "whole_seconds t = t div second * second"

definition encoded :: "certificate \<Rightarrow> certificate" where
  "encoded c = c\<lparr>ce_not_before := whole_seconds (ce_not_before c), ce_not_after := whole_seconds (ce_not_after c)\<rparr>"

abbreviation minute :: int where "minute \<equiv> 60 * second"
abbreviation hour :: int where "hour \<equiv> 60 * minute"

definition leaf_lifetime :: int where "leaf_lifetime = 24 * hour"
definition leaf_clock_skew :: int where "leaf_clock_skew = hour"
definition leaf_renew_margin :: int where "leaf_renew_margin = 5 * minute"
definition max_cached :: nat where "max_cached = 1024"

subsection \<open>Loading the authority\<close>

record cached_certificate =
  cc_certificate :: certificate
  cc_issued_at :: instant
  cc_not_after :: instant
  cc_last_used :: instant

record authority =
  au_certificate :: certificate
  au_cache :: "(string \<times> cached_certificate) list"

definition parse_private_key :: "crypto_lib \<Rightarrow> string \<Rightarrow> (string, (string, string) result) result" where
  "parse_private_key lib der = (case cl_pkcs8 lib der of
     Some (Some public) \<Rightarrow> Inr public
   | Some None \<Rightarrow> Inl ''interception CA PKCS#8 key cannot sign''
   | None \<Rightarrow> (case cl_pkcs1 lib der of Some public \<Rightarrow> Inr public
     | None \<Rightarrow> (case cl_ec lib der of Some public \<Rightarrow> Inr public
       | None \<Rightarrow> Inl ''parse interception CA private key: unsupported PKCS#8, PKCS#1, or EC key'')))"

definition parse_authority :: "crypto_lib \<Rightarrow> instant \<Rightarrow> string \<Rightarrow> string \<Rightarrow> (string, authority) result" where
  "parse_authority lib now cert_pem key_pem =
    rbind (case cl_pem lib cert_pem of
        Some (block, rest) \<Rightarrow> if pb_type block \<noteq> ''CERTIFICATE'' \<or> trim_space rest \<noteq> []
          then Inl ''interception CA certificate must contain exactly one CERTIFICATE PEM block'' else Inr block
      | None \<Rightarrow> Inl ''interception CA certificate must contain exactly one CERTIFICATE PEM block'') (\<lambda>block.
    rbind (wrap_error (\<lambda>e. ''parse interception CA certificate: '' @ e) (cl_certificate lib (pb_bytes block))) (\<lambda>(cert, cert_public).
    rbind (require (ce_is_ca cert \<and> Cert_Sign \<in> set (ce_usage cert))
      ''interception certificate is not permitted to sign certificates'') (\<lambda>_.
    rbind (require (\<not> (now < ce_not_before cert \<or> \<not> now < ce_not_after cert))
      ''interception CA certificate is not currently valid'') (\<lambda>_.
    rbind (case cl_pem lib key_pem of
        Some (block, rest) \<Rightarrow> if trim_space rest \<noteq> []
          then Inl ''interception CA key must contain exactly one private-key PEM block'' else Inr block
      | None \<Rightarrow> Inl ''interception CA key must contain exactly one private-key PEM block'') (\<lambda>key_block.
    rbind (parse_private_key lib (pb_bytes key_block)) (\<lambda>public.
    rbind (wrap_error (\<lambda>e. ''marshal interception CA public key: '' @ e) public) (\<lambda>public_der.
    rbind (wrap_error (\<lambda>e. ''marshal interception certificate public key: '' @ e) cert_public) (\<lambda>cert_der.
    rbind (require (public_der = cert_der) ''interception CA certificate and private key do not match'') (\<lambda>_.
      Inr \<lparr>au_certificate = cert, au_cache = []\<rparr>)))))))))"

definition load_authority :: "crypto_lib \<Rightarrow> instant \<Rightarrow> (string \<Rightarrow> (string, string) result) \<Rightarrow> string \<Rightarrow> string
    \<Rightarrow> (string, authority) result" where
  "load_authority lib now read_file cert_path key_path =
    rbind (wrap_error (\<lambda>e. ''read interception CA certificate: '' @ e) (read_file cert_path)) (\<lambda>cert_pem.
    rbind (wrap_error (\<lambda>e. ''read interception CA key: '' @ e) (read_file key_path)) (\<lambda>key_pem.
      parse_authority lib now cert_pem key_pem))"

subsection \<open>Serial numbers\<close>

text \<open>\<open>randomSerial\<close> draws until a number is positive; it is the value \<open>None\<close> if it never is.\<close>

partial_function (option) random_serial :: "(nat \<Rightarrow> (string, int) result) \<Rightarrow> nat \<Rightarrow> (string, int) result option" where
  "random_serial draws n = (case draws n of
     Inl e \<Rightarrow> Some (Inl (''generate certificate serial: '' @ e))
   | Inr serial \<Rightarrow> if 0 < serial then Some (Inr serial) else random_serial draws (Suc n))"

text \<open>\<open>rand.Int\<close> draws below its limit.\<close>

definition draws_ok :: "(nat \<Rightarrow> (string, int) result) \<Rightarrow> bool" where
  "draws_ok draws \<longleftrightarrow> (\<forall>n s. draws n = Inr s \<longrightarrow> 0 \<le> s \<and> s < 2 ^ 128)"

subsection \<open>The cache\<close>

text \<open>The entry to drop: the one used longest ago, and of several the one whose name comes first. The
  loop runs over a map, so in any order; the empty name stands for none yet.\<close>

definition older :: "string \<times> cached_certificate \<Rightarrow> string \<times> cached_certificate \<Rightarrow> bool" where
  "older e f \<longleftrightarrow> cc_last_used (snd e) < cc_last_used (snd f) \<or>
     cc_last_used (snd e) = cc_last_used (snd f) \<and> fst e < fst f"

definition oldest_step :: "(string \<times> cached_certificate) option \<Rightarrow> string \<times> cached_certificate
    \<Rightarrow> (string \<times> cached_certificate) option" where
  "oldest_step oldest e = (case oldest of
     None \<Rightarrow> Some e
   | Some f \<Rightarrow> if fst f = [] \<or> older e f then Some e else Some f)"

definition oldest_name :: "(string \<times> cached_certificate) list \<Rightarrow> string" where
  "oldest_name m = (case foldl oldest_step None m of None \<Rightarrow> [] | Some e \<Rightarrow> fst e)"

definition evict :: "instant \<Rightarrow> (string \<times> cached_certificate) list \<Rightarrow> (string \<times> cached_certificate) list" where
  "evict now m =
    (let m = (if max_cached \<le> length m then filter (\<lambda>e. now < cc_not_after (snd e)) m else m) in
     if max_cached \<le> length m \<and> oldest_name m \<noteq> [] then filter (\<lambda>e. fst e \<noteq> oldest_name m) m else m)"

text \<open>What one issuance draws and how it fails: the serial, the key, the signature, the parser.\<close>

record issuance =
  is_serials :: "nat \<Rightarrow> (string, int) result"
  is_key :: "(string, unit) result"
  is_sign :: "(string, unit) result"
  is_parse :: "(string, unit) result"

definition usable_cached :: "instant \<Rightarrow> authority \<Rightarrow> string \<Rightarrow> cached_certificate option" where
  "usable_cached now a host = (case map_of (au_cache a) host of
     None \<Rightarrow> None
   | Some c \<Rightarrow> if \<not> now < cc_issued_at c \<and> now + leaf_renew_margin < cc_not_after c then Some c else None)"

definition issue_leaf :: "instant \<Rightarrow> issuance \<Rightarrow> authority \<Rightarrow> string \<Rightarrow> int \<Rightarrow> (string, certificate) result \<times> authority" where
  "issue_leaf now iss a host serial =
    (let ca = au_certificate a;
         not_after = (if ce_not_after ca < now + leaf_lifetime then ce_not_after ca else now + leaf_lifetime) in
     if \<not> now + leaf_renew_margin < not_after
       then (Inl ''interception CA expires too soon to issue a leaf certificate'', a) else
     let not_before = (if now - leaf_clock_skew < ce_not_before ca then ce_not_before ca else now - leaf_clock_skew);
         template = \<lparr>ce_serial = serial, ce_common_name = host, ce_dns = [host], ce_ips = [], ce_not_before = not_before,
           ce_not_after = not_after, ce_usage = [Digital_Signature], ce_server_auth = True, ce_is_ca = False\<rparr> in
     case is_key iss of Inl e \<Rightarrow> (Inl (''generate interception leaf key: '' @ e), a) | Inr _ \<Rightarrow>
     case is_sign iss of Inl e \<Rightarrow> (Inl (''sign interception certificate for '' @ host @ '': '' @ e), a) | Inr _ \<Rightarrow>
     case is_parse iss of Inl e \<Rightarrow> (Inl (''parse signed interception certificate: '' @ e), a) | Inr _ \<Rightarrow>
     let leaf = encoded template;
         c = \<lparr>cc_certificate = leaf, cc_issued_at = now, cc_not_after = not_after, cc_last_used = now\<rparr> in
     (Inr leaf, a\<lparr>au_cache := obj_set host c (evict now (au_cache a))\<rparr>))"

definition certificate_for :: "instant \<Rightarrow> issuance \<Rightarrow> authority \<Rightarrow> string
    \<Rightarrow> ((string, certificate) result \<times> authority) option" where
  "certificate_for now iss a host = (case usable_cached now a host of
     Some c \<Rightarrow> Some (Inr (cc_certificate c), a\<lparr>au_cache := obj_set host (c\<lparr>cc_last_used := now\<rparr>) (au_cache a)\<rparr>)
   | None \<Rightarrow> (case random_serial (is_serials iss) 0 of
       None \<Rightarrow> None
     | Some (Inl e) \<Rightarrow> Some (Inl e, a)
     | Some (Inr serial) \<Rightarrow> Some (issue_leaf now iss a host serial)))"

text \<open>\<open>TLSConfig\<close> gives the host that the session is pinned to; \<open>GetCertificate\<close> runs at each handshake.\<close>

definition tls_config :: "instant \<Rightarrow> issuance \<Rightarrow> authority \<Rightarrow> string \<Rightarrow> ((string, string) result \<times> authority) option" where
  "tls_config now iss a host = (let host = canonical_host host in
     map_option (\<lambda>(res, a). (case res of Inl e \<Rightarrow> Inl e | Inr _ \<Rightarrow> Inr host, a)) (certificate_for now iss a host))"

definition get_certificate :: "instant \<Rightarrow> issuance \<Rightarrow> authority \<Rightarrow> string \<Rightarrow> string
    \<Rightarrow> ((string, certificate) result \<times> authority) option" where
  "get_certificate now iss a host server_name = (let name = canonical_host server_name in
     if name = [] \<or> name \<noteq> host
     then Some (Inl (''TLS SNI '' @ quote_text name @ '' does not match CONNECT host '' @ quote_text host), a)
     else certificate_for now iss a host)"

subsection \<open>Drawing a serial ends\<close>

lemma random_serial_skips: "(\<forall>k < n. draws k = Inr 0) \<Longrightarrow> random_serial draws 0 = random_serial draws n"
  by (induction n) (simp_all add: random_serial.simps [of draws])

lemma random_serial_Some:
  assumes "random_serial draws n = Some res" shows "\<exists>k. draws k \<noteq> Inr 0"
proof (rule ccontr)
  assume "\<not> ?thesis"
  then have zero: "draws k = Inr 0" for k by blast
  have "\<not> (\<forall>k. draws k = Inr 0)"
  proof (rule random_serial.raw_induct [where P = "\<lambda>ds m r. \<not> (\<forall>k. ds k = Inr 0)", OF _ assms])
    fix f and ds :: "nat \<Rightarrow> (string, int) result" and m r
    assume rest: "\<And>ds m r. f ds m = Some r \<Longrightarrow> \<not> (\<forall>k. ds k = Inr 0)"
      and run: "(case ds m of Inl e \<Rightarrow> Some (Inl (''generate certificate serial: '' @ e))
        | Inr serial \<Rightarrow> if 0 < serial then Some (Inr serial) else f ds (Suc m)) = Some r"
    show "\<not> (\<forall>k. ds k = Inr 0)"
    proof
      assume z: "\<forall>k. ds k = Inr 0"
      then have "f ds (Suc m) = Some r" using run by simp
      with rest z show False by blast
    qed
  qed
  with zero show False by blast
qed

lemma random_serial_bounds:
  assumes "random_serial draws n = Some (Inr s)" and "draws_ok draws" shows "0 < s \<and> s < 2 ^ 128"
proof -
  have "draws_ok draws \<longrightarrow> (case (Inr s :: (string, int) result) of Inl _ \<Rightarrow> True | Inr s \<Rightarrow> 0 < s \<and> s < 2 ^ 128)"
  proof (rule random_serial.raw_induct [where P = "\<lambda>ds m r. draws_ok ds \<longrightarrow> (case r of Inl _ \<Rightarrow> True | Inr s \<Rightarrow> 0 < s \<and> s < 2 ^ 128)",
        OF _ assms(1)], intro impI)
    fix f and ds :: "nat \<Rightarrow> (string, int) result" and m r
    assume rest: "\<And>ds m r. f ds m = Some r \<Longrightarrow> draws_ok ds \<longrightarrow> (case r of Inl _ \<Rightarrow> True | Inr s \<Rightarrow> 0 < s \<and> s < 2 ^ 128)"
      and run: "(case ds m of Inl e \<Rightarrow> Some (Inl (''generate certificate serial: '' @ e))
        | Inr serial \<Rightarrow> if 0 < serial then Some (Inr serial) else f ds (Suc m)) = Some r"
      and ds: "draws_ok ds"
    show "case r of Inl _ \<Rightarrow> True | Inr s \<Rightarrow> 0 < s \<and> s < 2 ^ 128"
    proof (cases "ds m")
      case (Inl e)
      with run show ?thesis by auto
    next
      case (Inr s)
      with ds have "s < 2 ^ 128" unfolding draws_ok_def by blast
      with run rest ds Inr show ?thesis by (cases "0 < s") auto
    qed
  qed
  with assms(2) show ?thesis by simp
qed

text \<open>C32. The loop of \<open>randomSerial\<close> returns exactly when some draw is not zero, and then with the first
  such draw: the error of the random source, or a serial number above 0 and below 2 to the 128.\<close>

theorem random_serial_returns:
  assumes "draws_ok draws"
  shows "random_serial draws 0 = (if \<exists>n. draws n \<noteq> Inr 0
      then Some (wrap_error (\<lambda>e. ''generate certificate serial: '' @ e) (draws (LEAST n. draws n \<noteq> Inr 0))) else None) \<and>
    (random_serial draws 0 = Some (Inr s) \<longrightarrow> 0 < s \<and> s < 2 ^ 128)"
proof (cases "\<exists>n. draws n \<noteq> Inr 0")
  case True
  let ?n = "LEAST n. draws n \<noteq> Inr 0"
  have n: "draws ?n \<noteq> Inr 0" using True by (rule LeastI_ex)
  have before: "\<forall>k < ?n. draws k = Inr 0" using not_less_Least by blast
  have run: "random_serial draws 0 = (case draws ?n of Inl e \<Rightarrow> Some (Inl (''generate certificate serial: '' @ e))
      | Inr serial \<Rightarrow> if 0 < serial then Some (Inr serial) else random_serial draws (Suc ?n))"
    unfolding random_serial_skips [OF before] by (rule random_serial.simps)
  show ?thesis
  proof (cases "draws ?n")
    case (Inl e)
    then show ?thesis using True unfolding run by (simp add: wrap_error_def)
  next
    case (Inr r)
    then have "0 < r" "r < 2 ^ 128" using assms n unfolding draws_ok_def by force+
    then show ?thesis using True unfolding run Inr by simp
  qed
next
  case False
  then have "random_serial draws 0 = None" using random_serial_Some [of draws 0] by (cases "random_serial draws 0") blast+
  with False show ?thesis by simp
qed

subsection \<open>The entry that is dropped\<close>

lemma older_irrefl: "\<not> older e e" by (simp add: older_def)

lemma older_trans: "older e f \<Longrightarrow> older f g \<Longrightarrow> older e g" by (auto simp: older_def)

lemma older_total: "fst e \<noteq> fst f \<Longrightarrow> older e f \<or> older f e" by (auto simp: older_def)

lemma oldest_step_Some: "fst f \<noteq> [] \<Longrightarrow> oldest_step (Some f) g = (if older g f then Some g else Some f)"
  by (simp add: oldest_step_def)

lemma oldest_run:
  assumes "[] \<notin> fst ` set (f # m)"
  shows "\<exists>e \<in> set (f # m). foldl oldest_step (Some f) m = Some e \<and> (\<forall>x \<in> set (f # m). \<not> older x e)"
  using assms
proof (induction m arbitrary: f)
  case Nil
  then show ?case by (simp add: older_irrefl)
next
  case (Cons g m)
  have f: "fst f \<noteq> []" using Cons.prems by auto
  show ?case
  proof (cases "older g f")
    case True
    have "[] \<notin> fst ` set (g # m)" using Cons.prems by auto
    from Cons.IH [OF this] obtain e where e: "e \<in> set (g # m)" "foldl oldest_step (Some g) m = Some e"
      "\<forall>x \<in> set (g # m). \<not> older x e" by blast
    have "\<not> older f e"
    proof
      assume "older f e"
      with True have "older g e" by (rule older_trans)
      with e(3) show False by simp
    qed
    with e True f show ?thesis by (intro bexI [of _ e]) (auto simp: oldest_step_Some)
  next
    case False
    have "[] \<notin> fst ` set (f # m)" using Cons.prems by auto
    from Cons.IH [OF this] obtain e where e: "e \<in> set (f # m)" "foldl oldest_step (Some f) m = Some e"
      "\<forall>x \<in> set (f # m). \<not> older x e" by blast
    have "\<not> older g e"
    proof
      assume g: "older g e"
      show False
      proof (cases "fst f = fst g \<or> f = e")
        case True
        with g False e(3) show False by (auto simp: older_def)
      next
        case other: False
        then have "older f g" using False older_total [of f g] by blast
        from older_trans [OF this g] e(3) show False by simp
      qed
    qed
    with e False f show ?thesis by (intro bexI [of _ e]) (auto simp: oldest_step_Some)
  qed
qed

lemma oldest_name_least:
  assumes "[] \<notin> fst ` set m" and "m \<noteq> []"
  shows "\<exists>c. (oldest_name m, c) \<in> set m \<and> (\<forall>x \<in> set m. \<not> older x (oldest_name m, c))"
proof -
  obtain f m' where m: "m = f # m'" using assms(2) by (cases m) auto
  from oldest_run [of f m'] assms(1) obtain e where e: "e \<in> set m" "foldl oldest_step (Some f) m' = Some e"
    "\<forall>x \<in> set m. \<not> older x e" unfolding m by blast
  then have "oldest_name m = fst e" by (simp add: oldest_name_def m oldest_step_def)
  with e show ?thesis by (intro exI [of _ "snd e"]) simp
qed

text \<open>The entry that a full cache drops does not depend on the order in which the loop sees the map:
  it is the one used longest ago, and among equals the one whose name comes first.\<close>

theorem eviction_order_free:
  assumes "distinct (map fst m)" and "[] \<notin> fst ` set m" and "mset m' = mset m"
  shows "oldest_name m' = oldest_name m \<and>
    (\<forall>c. map_of m (oldest_name m) = Some c \<longrightarrow> (\<forall>(n, d) \<in> set m. n = oldest_name m \<or>
      cc_last_used c < cc_last_used d \<or> cc_last_used c = cc_last_used d \<and> oldest_name m < n))"
proof (cases "m = []")
  case True
  then show ?thesis using assms(3) by simp
next
  case False
  have same: "set m' = set m" using assms(3) by (rule mset_eq_setD)
  then have m': "[] \<notin> fst ` set m'" "m' \<noteq> []" using assms(2) False by auto
  from oldest_name_least [OF assms(2) False] obtain c where c: "(oldest_name m, c) \<in> set m"
    "\<forall>x \<in> set m. \<not> older x (oldest_name m, c)" by blast
  from oldest_name_least [OF m'] obtain d where d: "(oldest_name m', d) \<in> set m" "\<forall>x \<in> set m. \<not> older x (oldest_name m', d)"
    unfolding same by blast
  have "oldest_name m' = oldest_name m"
  proof (rule ccontr)
    assume "\<not> ?thesis"
    then show False using older_total [of "(oldest_name m', d)" "(oldest_name m, c)"] c d by auto
  qed
  moreover have "n = oldest_name m \<or> older (oldest_name m, c) (n, d)" if "(n, d) \<in> set m" for n d
    using older_total [of "(n, d)" "(oldest_name m, c)"] c(2) that by auto
  moreover have "map_of m (oldest_name m) = Some c" using assms(1) c(1) by simp
  ultimately show ?thesis by (auto simp: older_def)
qed

subsection \<open>What the authority issues\<close>

text \<open>Parsed certificates have times in whole seconds.\<close>

definition lib_ok :: "crypto_lib \<Rightarrow> bool" where
  "lib_ok lib \<longleftrightarrow> (\<forall>der cert public. cl_certificate lib der = Inr (cert, public) \<longrightarrow> encoded cert = cert)"

text \<open>The life of an authority, with any clock. The proxy asks for hosts that it has validated, which are
  not empty.\<close>

inductive operating :: "crypto_lib \<Rightarrow> authority \<Rightarrow> bool" for lib where
  start: "parse_authority lib now cert_pem key_pem = Inr a \<Longrightarrow> operating lib a"
| serve: "operating lib a \<Longrightarrow> certificate_for now iss a host = Some (res, a') \<Longrightarrow> draws_ok (is_serials iss) \<Longrightarrow>
    host \<noteq> [] \<Longrightarrow> operating lib a'"

text \<open>A leaf certificate for a host, issued at a time, until a time.\<close>

definition leaf_ok :: "certificate \<Rightarrow> string \<Rightarrow> instant \<Rightarrow> instant \<Rightarrow> certificate \<Rightarrow> bool" where
  "leaf_ok ca host issued until c \<longleftrightarrow> ce_dns c = [host] \<and> ce_common_name c = host \<and> \<not> ce_is_ca c \<and> ce_server_auth c \<and>
     0 < ce_serial c \<and> ce_serial c < 2 ^ 128 \<and>
     ce_not_before ca \<le> ce_not_before c \<and> ce_not_before c \<le> max issued (ce_not_before ca) \<and>
     until - second < ce_not_after c \<and> ce_not_after c \<le> until \<and> until \<le> ce_not_after ca \<and> until \<le> issued + leaf_lifetime"

definition authority_ok :: "authority \<Rightarrow> bool" where
  "authority_ok a \<longleftrightarrow> encoded (au_certificate a) = au_certificate a \<and> distinct (map fst (au_cache a)) \<and>
     [] \<notin> fst ` set (au_cache a) \<and> length (au_cache a) \<le> max_cached \<and>
     (\<forall>(h, c) \<in> set (au_cache a). leaf_ok (au_certificate a) h (cc_issued_at c) (cc_not_after c) (cc_certificate c))"

lemma whole_seconds_bounds: "whole_seconds t \<le> t" "t - second < whole_seconds t"
proof -
  have "t = whole_seconds t + t mod second" by (simp add: whole_seconds_def)
  moreover have "0 \<le> t mod second" "t mod second < second" by simp_all
  ultimately show "whole_seconds t \<le> t" "t - second < whole_seconds t" by linarith+
qed

lemma whole_seconds_mono: "s \<le> t \<Longrightarrow> whole_seconds s \<le> whole_seconds t"
  by (simp add: whole_seconds_def zdiv_mono1)

lemma encoded_fields [simp]:
  "ce_dns (encoded c) = ce_dns c" "ce_common_name (encoded c) = ce_common_name c" "ce_is_ca (encoded c) = ce_is_ca c"
  "ce_server_auth (encoded c) = ce_server_auth c" "ce_serial (encoded c) = ce_serial c"
  "ce_not_before (encoded c) = whole_seconds (ce_not_before c)" "ce_not_after (encoded c) = whole_seconds (ce_not_after c)"
  by (simp_all add: encoded_def)

lemma encoded_fixed: "encoded c = c \<Longrightarrow> whole_seconds (ce_not_before c) = ce_not_before c"
  by (metis encoded_fields(6))

lemma issue_leaf_Inr:
  assumes "issue_leaf now iss a host serial = (Inr leaf, a')" and "encoded (au_certificate a) = au_certificate a"
    and "0 < serial" and "serial < 2 ^ 128"
  shows "\<exists>until. leaf_ok (au_certificate a) host now until leaf \<and> now + leaf_renew_margin < until \<and>
    a' = a\<lparr>au_cache := obj_set host \<lparr>cc_certificate = leaf, cc_issued_at = now, cc_not_after = until, cc_last_used = now\<rparr>
      (evict now (au_cache a))\<rparr>"
proof -
  let ?ca = "au_certificate a"
  let ?until = "if ce_not_after ?ca < now + leaf_lifetime then ce_not_after ?ca else now + leaf_lifetime"
  let ?from = "if now - leaf_clock_skew < ce_not_before ?ca then ce_not_before ?ca else now - leaf_clock_skew"
  have leaf: "leaf = encoded \<lparr>ce_serial = serial, ce_common_name = host, ce_dns = [host], ce_ips = [], ce_not_before = ?from,
      ce_not_after = ?until, ce_usage = [Digital_Signature], ce_server_auth = True, ce_is_ca = False\<rparr>"
    and margin: "now + leaf_renew_margin < ?until"
    and a': "a' = a\<lparr>au_cache := obj_set host \<lparr>cc_certificate = leaf, cc_issued_at = now, cc_not_after = ?until, cc_last_used = now\<rparr>
      (evict now (au_cache a))\<rparr>"
    using assms(1) by (auto simp: issue_leaf_def Let_def split: if_split_asm sum.split_asm)
  have "ce_not_before ?ca \<le> whole_seconds ?from"
    using whole_seconds_mono [of "ce_not_before ?ca" ?from] encoded_fixed [OF assms(2)] by simp
  moreover have "whole_seconds ?from \<le> max now (ce_not_before ?ca)"
    using whole_seconds_bounds(1) [of ?from] by (simp add: leaf_clock_skew_def split: if_splits)
  ultimately have "leaf_ok ?ca host now ?until leaf"
    using whole_seconds_bounds [of ?until] assms(3,4) unfolding leaf_ok_def leaf by simp
  with margin a' show ?thesis by blast
qed

lemma evict_subset: "set (evict now m) \<subseteq> set m"
  by (auto simp: evict_def Let_def)

lemma evict_distinct: "distinct (map fst m) \<Longrightarrow> distinct (map fst (evict now m))"
  by (auto simp: evict_def Let_def distinct_map_filter)

lemma evict_length:
  assumes "[] \<notin> fst ` set m" and "length m \<le> max_cached" shows "length (evict now m) < max_cached"
proof -
  define f where "f = (if max_cached \<le> length m then filter (\<lambda>e. now < cc_not_after (snd e)) m else m)"
  have f: "set f \<subseteq> set m" "length f \<le> max_cached"
    using assms(2) le_trans [OF length_filter_le [of "\<lambda>e. now < cc_not_after (snd e)" m] assms(2)] by (auto simp: f_def)
  have e: "evict now m = (if max_cached \<le> length f \<and> oldest_name f \<noteq> [] then filter (\<lambda>e. fst e \<noteq> oldest_name f) f else f)"
    by (simp add: evict_def f_def Let_def)
  show ?thesis
  proof (cases "max_cached \<le> length f")
    case True
    then have "f \<noteq> []" by (auto simp: max_cached_def)
    moreover have "[] \<notin> fst ` set f" using assms(1) f(1) by auto
    ultimately obtain c where c: "(oldest_name f, c) \<in> set f" using oldest_name_least by blast
    with \<open>[] \<notin> fst ` set f\<close> have "oldest_name f \<noteq> []" by force
    moreover have "length (filter (\<lambda>e. fst e \<noteq> oldest_name f) f) < length f"
      by (rule length_filter_less [OF c]) simp
    ultimately show ?thesis using True f(2) unfolding e by simp
  qed (simp add: e)
qed

lemma map_fst_obj_set: "map fst (obj_set k v m) = (if k \<in> fst ` set m then map fst m else map fst m @ [k])"
  by (induction m) auto

lemma set_obj_set: "distinct (map fst m) \<Longrightarrow> set (obj_set k v m) \<subseteq> insert (k, v) (set m)"
  by (induction m) auto

lemma length_obj_set: "length (obj_set k v m) \<le> Suc (length m)" "k \<in> fst ` set m \<Longrightarrow> length (obj_set k v m) = length m"
  by (induction m) auto

lemma authority_ok_set:
  assumes "authority_ok a" and "set m \<subseteq> set (au_cache a)" and "distinct (map fst m)" and "length (obj_set host c m) \<le> max_cached"
    and "host \<noteq> []" and "leaf_ok (au_certificate a) host (cc_issued_at c) (cc_not_after c) (cc_certificate c)"
  shows "authority_ok (a\<lparr>au_cache := obj_set host c m\<rparr>)"
proof -
  have "leaf_ok (au_certificate a) h (cc_issued_at d) (cc_not_after d) (cc_certificate d)" if "(h, d) \<in> set (obj_set host c m)" for h d
    using that set_obj_set [OF assms(3), of host c] assms(1,2,6) unfolding authority_ok_def by blast
  moreover have "[] \<notin> fst ` set m" using assms(1,2) by (auto simp: authority_ok_def)
  then have "[] \<notin> set (map fst (obj_set host c m))" unfolding map_fst_obj_set using assms(5) by simp
  then have "[] \<notin> fst ` set (obj_set host c m)" by simp
  ultimately show ?thesis using assms by (auto simp: authority_ok_def map_fst_obj_set)
qed

lemma certificate_for_ok:
  assumes ok: "authority_ok a" and run: "certificate_for now iss a host = Some (res, a')"
    and draws: "draws_ok (is_serials iss)" and host: "host \<noteq> []"
  shows "authority_ok a' \<and> au_certificate a' = au_certificate a \<and>
    (\<forall>leaf. res = Inr leaf \<longrightarrow> (\<exists>c. map_of (au_cache a') host = Some c \<and> cc_certificate c = leaf \<and>
      leaf_ok (au_certificate a) host (cc_issued_at c) (cc_not_after c) leaf \<and> cc_issued_at c \<le> now \<and>
      now + leaf_renew_margin < cc_not_after c \<and> cc_last_used c = now))"
proof (cases "usable_cached now a host")
  case (Some c)
  have c: "map_of (au_cache a) host = Some c" "cc_issued_at c \<le> now" "now + leaf_renew_margin < cc_not_after c"
    using Some by (auto simp: usable_cached_def split: option.splits if_splits)
  let ?c = "c\<lparr>cc_last_used := now\<rparr>"
  have r: "res = Inr (cc_certificate c)" "a' = a\<lparr>au_cache := obj_set host ?c (au_cache a)\<rparr>"
    using run Some by (simp_all add: certificate_for_def)
  have leaf: "leaf_ok (au_certificate a) host (cc_issued_at c) (cc_not_after c) (cc_certificate c)"
    using ok map_of_SomeD [OF c(1)] by (auto simp: authority_ok_def)
  have "host \<in> fst ` set (au_cache a)" using map_of_SomeD [OF c(1)] by force
  then have "length (obj_set host ?c (au_cache a)) \<le> max_cached" using ok by (simp add: length_obj_set(2) authority_ok_def)
  with leaf host ok have "authority_ok a'" unfolding r(2) by (intro authority_ok_set) (simp_all add: authority_ok_def)
  with leaf c r show ?thesis by simp
next
  case None
  then obtain draw where draw: "random_serial (is_serials iss) 0 = Some draw"
    using run by (auto simp: certificate_for_def split: option.splits)
  show ?thesis
  proof (cases draw)
    case (Inl e)
    then show ?thesis using run None draw ok by (auto simp: certificate_for_def)
  next
    case (Inr serial)
    have serial: "0 < serial" "serial < 2 ^ 128" using random_serial_bounds [OF draw [unfolded Inr] draws] by simp_all
    have issue: "issue_leaf now iss a host serial = (res, a')" using run None draw Inr by (simp add: certificate_for_def)
    show ?thesis
    proof (cases res)
      case (Inl e)
      then have "a' = a" using issue by (auto simp: issue_leaf_def Let_def split: if_split_asm sum.split_asm)
      with ok Inl show ?thesis by simp
    next
      case (Inr leaf)
      have ca: "encoded (au_certificate a) = au_certificate a" using ok by (simp add: authority_ok_def)
      from issue_leaf_Inr [OF issue [unfolded Inr] ca serial] obtain until where
        leaf: "leaf_ok (au_certificate a) host now until leaf" "now + leaf_renew_margin < until"
        and a': "a' = a\<lparr>au_cache := obj_set host \<lparr>cc_certificate = leaf, cc_issued_at = now, cc_not_after = until, cc_last_used = now\<rparr>
          (evict now (au_cache a))\<rparr>" by blast
      let ?c = "\<lparr>cc_certificate = leaf, cc_issued_at = now, cc_not_after = until, cc_last_used = now\<rparr>"
      let ?m = "evict now (au_cache a)"
      have "distinct (map fst ?m)" "length ?m < max_cached"
        using ok evict_distinct evict_length by (simp_all add: authority_ok_def)
      moreover from this(2) have "length (obj_set host ?c ?m) \<le> max_cached" using length_obj_set(1) [of host ?c ?m] by simp
      ultimately have "authority_ok a'" unfolding a' using ok leaf(1) host evict_subset by (intro authority_ok_set) simp_all
      with leaf show ?thesis by (simp add: a' Inr)
    qed
  qed
qed

lemma parse_authority_Inr:
  assumes "parse_authority lib now cert_pem key_pem = Inr a"
  shows "\<exists>der public. cl_certificate lib der = Inr (au_certificate a, public) \<and> au_cache a = [] \<and> ce_is_ca (au_certificate a) \<and>
    ce_not_before (au_certificate a) \<le> now \<and> now < ce_not_after (au_certificate a)"
proof -
  obtain block rest cert public where cert: "cl_pem lib cert_pem = Some (block, rest)" "cl_certificate lib (pb_bytes block) = Inr (cert, public)"
    and found: "ce_is_ca cert \<and> Cert_Sign \<in> set (ce_usage cert)" "\<not> (now < ce_not_before cert \<or> \<not> now < ce_not_after cert)"
    and a: "a = \<lparr>au_certificate = cert, au_cache = []\<rparr>"
    using assms by (auto simp: parse_authority_def require_def split: option.splits if_splits)
  then show ?thesis by (intro exI [of _ "pb_bytes block"] exI [of _ public]) auto
qed

lemma operating_ok:
  assumes "lib_ok lib" and "operating lib a" shows "authority_ok a"
  using assms(2)
proof induction
  case (start now cert_pem key_pem a)
  from parse_authority_Inr [OF start] obtain der public where "cl_certificate lib der = Inr (au_certificate a, public)" "au_cache a = []"
    by blast
  with assms(1) show ?case unfolding authority_ok_def lib_ok_def by auto
next
  case (serve a now iss host res a')
  with certificate_for_ok show ?case by blast
qed

text \<open>C33. Whatever the clock did before, the certificate that the authority hands out, from the cache or
  fresh, is one for the requested host alone and no authority itself; it is valid within the validity
  of the authority, not before now (unless the authority itself is), for five minutes at least (up to
  the second that the encoding cuts off) and a day at most; and the cache keeps it under its bound of
  1024 entries.\<close>

theorem leaf_valid:
  assumes "lib_ok lib" and "operating lib a" and "certificate_for now iss a host = Some (Inr leaf, a')"
    and "draws_ok (is_serials iss)" and "host \<noteq> []"
  shows "ce_dns leaf = [host] \<and> \<not> ce_is_ca leaf \<and> 0 < ce_serial leaf \<and> ce_serial leaf < 2 ^ 128 \<and>
    ce_not_before (au_certificate a) \<le> ce_not_before leaf \<and> ce_not_before leaf \<le> max now (ce_not_before (au_certificate a)) \<and>
    now + 5 * minute - second < ce_not_after leaf \<and> ce_not_after leaf \<le> now + 24 * hour \<and>
    ce_not_after leaf \<le> ce_not_after (au_certificate a) \<and>
    (\<exists>c. map_of (au_cache a') host = Some c \<and> cc_certificate c = leaf) \<and> length (au_cache a') \<le> 1024"
proof -
  have ok: "authority_ok a" by (rule operating_ok [OF assms(1,2)])
  from certificate_for_ok [OF ok assms(3-5)] obtain c where c: "map_of (au_cache a') host = Some c" "cc_certificate c = leaf"
    "leaf_ok (au_certificate a) host (cc_issued_at c) (cc_not_after c) leaf" "cc_issued_at c \<le> now"
    "now + leaf_renew_margin < cc_not_after c" and ok': "authority_ok a'" by blast
  have "length (au_cache a') \<le> 1024" using ok' by (simp add: authority_ok_def max_cached_def)
  moreover have "now + 5 * minute - second < ce_not_after leaf" "ce_not_after leaf \<le> now + 24 * hour"
    "ce_not_before leaf \<le> max now (ce_not_before (au_certificate a))"
    using c(3-5) by (auto simp: leaf_ok_def leaf_renew_margin_def leaf_lifetime_def)
  ultimately show ?thesis using c by (auto simp: leaf_ok_def)
qed

text \<open>C34. An intercepted session is pinned to the host of its CONNECT: a handshake with any other server
  name, or with none, is refused and issues nothing, and one that succeeds names that host and gets a
  certificate for it alone, however long after the session began.\<close>

theorem sni_pinned:
  assumes "lib_ok lib" and "operating lib a" and "tls_config start iss0 a0 host = Some (Inr pinned, a1)"
    and "get_certificate now iss a pinned server_name = Some (res, a')" and "draws_ok (is_serials iss)"
  shows "(canonical_host server_name \<noteq> canonical_host host \<or> canonical_host server_name = [] \<longrightarrow> (\<exists>e. res = Inl e) \<and> a' = a) \<and>
    (\<forall>leaf. res = Inr leaf \<longrightarrow> canonical_host server_name = canonical_host host \<and> ce_dns leaf = [canonical_host host] \<and>
      now + leaf_renew_margin - second < ce_not_after leaf)"
proof -
  have pinned: "pinned = canonical_host host"
    using assms(3) by (auto simp: tls_config_def Let_def split: sum.splits) (metis obj_sumE)
  show ?thesis
  proof (cases "canonical_host server_name = [] \<or> canonical_host server_name \<noteq> canonical_host host")
    case True
    with assms(4) show ?thesis by (auto simp: get_certificate_def pinned)
  next
    case False
    then have run: "certificate_for now iss a (canonical_host host) = Some (res, a')" and host: "canonical_host host \<noteq> []"
      using assms(4) by (auto simp: get_certificate_def pinned)
    have ok: "authority_ok a" by (rule operating_ok [OF assms(1,2)])
    from certificate_for_ok [OF ok run assms(5) host] False show ?thesis
      by (force simp: leaf_ok_def)
  qed
qed

subsection \<open>One authority\<close>

definition sample_ca :: certificate where
  "sample_ca = \<lparr>ce_serial = 1, ce_common_name = ''CA'', ce_dns = [], ce_ips = [], ce_not_before = 0, ce_not_after = 8760 * hour,
     ce_usage = [Cert_Sign, Crl_Sign], ce_server_auth = False, ce_is_ca = True\<rparr>"

definition sample_lib :: crypto_lib where
  "sample_lib = \<lparr>cl_pem = (\<lambda>s. Some (\<lparr>pb_type = ''CERTIFICATE'', pb_bytes = s\<rparr>, [])), cl_certificate = (\<lambda>_. Inr (sample_ca, Inr ''pk'')),
     cl_pkcs8 = (\<lambda>_. Some (Some (Inr ''pk''))), cl_pkcs1 = (\<lambda>_. None), cl_ec = (\<lambda>_. None)\<rparr>"

definition sample_authority :: authority where
  "sample_authority = \<lparr>au_certificate = sample_ca, au_cache = []\<rparr>"

definition sample_issuance :: issuance where
  "sample_issuance = \<lparr>is_serials = (\<lambda>n. Inr (if n = 0 then 0 else 7)), is_key = Inr (), is_sign = Inr (), is_parse = Inr ()\<rparr>"

lemma sample_operating: "lib_ok sample_lib" "operating sample_lib sample_authority" "draws_ok (is_serials sample_issuance)"
proof -
  show "lib_ok sample_lib"
    by (simp add: lib_ok_def sample_lib_def encoded_def sample_ca_def whole_seconds_def)
  have "parse_authority sample_lib 1 ''c'' ''k'' = Inr sample_authority"
    by (simp add: parse_authority_def sample_lib_def parse_private_key_def sample_ca_def sample_authority_def require_def
      trim_space_graphic)
  then show "operating sample_lib sample_authority" by (rule operating.start)
  show "draws_ok (is_serials sample_issuance)" by (simp add: draws_ok_def sample_issuance_def)
qed

lemma sample_serial: "random_serial (is_serials sample_issuance) 0 = Some (Inr 7)"
  by (simp add: sample_issuance_def random_serial.simps [of _ 0] random_serial.simps [of _ "Suc 0"])

lemma sample_issued: "\<exists>leaf a'. certificate_for second sample_issuance sample_authority ''api.example.com'' = Some (Inr leaf, a')"
  by (simp add: certificate_for_def usable_cached_def sample_authority_def sample_serial issue_leaf_def Let_def sample_ca_def
    leaf_lifetime_def leaf_renew_margin_def leaf_clock_skew_def) (simp add: sample_issuance_def Let_def)

theorem random_serial_returns_witness: "random_serial (is_serials sample_issuance) 0 \<noteq> None"
  using random_serial_returns [OF sample_operating(3), of 7] by (auto simp: sample_issuance_def)

definition sample_cached :: cached_certificate where
  "sample_cached = \<lparr>cc_certificate = sample_ca, cc_issued_at = 0, cc_not_after = hour, cc_last_used = 2\<rparr>"

theorem eviction_order_free_witness:
  "oldest_name [(''b'', sample_cached), (''a'', sample_cached)] = oldest_name [(''a'', sample_cached), (''b'', sample_cached)]"
  using eviction_order_free [of "[(''a'', sample_cached), (''b'', sample_cached)]" "[(''b'', sample_cached), (''a'', sample_cached)]"]
  by simp

theorem leaf_valid_witness:
  "\<exists>leaf a'. certificate_for second sample_issuance sample_authority ''api.example.com'' = Some (Inr leaf, a') \<and>
    ce_dns leaf = [''api.example.com''] \<and> length (au_cache a') \<le> 1024"
proof -
  obtain leaf a' where run: "certificate_for second sample_issuance sample_authority ''api.example.com'' = Some (Inr leaf, a')"
    using sample_issued by blast
  with leaf_valid [OF sample_operating(1,2) run sample_operating(3)] show ?thesis by simp
qed

theorem sni_pinned_witness:
  "\<exists>e. get_certificate second sample_issuance sample_authority ''api.example.com'' ''other.example.com'' = Some (Inl e, sample_authority)"
proof -
  have c: "canonical_host ''api.example.com'' = ''api.example.com''" "canonical_host ''other.example.com'' = ''other.example.com''"
    by code_simp+
  obtain a1 where t: "tls_config second sample_issuance sample_authority ''api.example.com'' = Some (Inr ''api.example.com'', a1)"
    using sample_issued by (auto simp: tls_config_def c)
  obtain res a' where g: "get_certificate second sample_issuance sample_authority ''api.example.com'' ''other.example.com'' = Some (res, a')"
    by (simp add: get_certificate_def c)
  from sni_pinned [OF sample_operating(1,2) t g sample_operating(3)] g show ?thesis by (auto simp: c)
qed

end
