(* ===== verification/Certificate_Files.thy ===== *)
theory Certificate_Files
  imports Authority
begin

text \<open>
  The commands that write certificates (\<open>internal/intercept/authority.go\<close>): the names in a proxy
  certificate, the files that are written exclusively, and the generation of an interception authority
  and of a proxy certificate. Keys, signatures, encodings and the faults of the file system are
  arguments; the time zone of the clock is UTC.
\<close>

subsection \<open>Names of a proxy certificate\<close>

definition valid_proxy_dns_name :: "string \<Rightarrow> bool" where
  "valid_proxy_dns_name name \<longleftrightarrow> \<not> (name = [] \<or> 253 < length name \<or> CHR ''*'' \<in> set name) \<and>
     list_all (\<lambda>label. \<not> (label = [] \<or> 63 < length label \<or> hd label = CHR ''-'' \<or> last label = CHR ''-'') \<and>
       list_all (\<lambda>r. 97 \<le> r \<and> r \<le> 122 \<or> 48 \<le> r \<and> r \<le> 57 \<or> r = 45) (runes label)) (split_on (CHR ''.'') name)"

definition add_san :: "string list \<times> ip_addr list \<Rightarrow> string \<Rightarrow> (string, string list \<times> ip_addr list) result" where
  "add_san acc raw = (case acc of (dns, ips) \<Rightarrow>
     let entry = trim_space raw in
     if entry = [] then Inr acc
     else (case cut_prefix entry ''DNS:'' of
       Some rest \<Rightarrow>
         (let name = canonical_host (trim_space rest) in
          if valid_proxy_dns_name name then Inr (dns @ [name], ips)
          else Inl (''invalid proxy DNS SAN '' @ quote_text name))
     | None \<Rightarrow> (case cut_prefix entry ''IP:'' of
         Some rest \<Rightarrow> (case parse_ip (trim_space rest) of
             None \<Rightarrow> Inl (''invalid proxy IP SAN '' @ quote_text entry)
           | Some ip \<Rightarrow> Inr (dns, ips @ [ip_unmap ip]))
       | None \<Rightarrow> Inl (''proxy SAN '' @ quote_text entry @ '' must use DNS: or IP: prefix''))))"

fun add_sans :: "string list \<times> ip_addr list \<Rightarrow> string list \<Rightarrow> (string, string list \<times> ip_addr list) result" where
  "add_sans acc [] = Inr acc"
| "add_sans acc (raw # raws) = rbind (add_san acc raw) (\<lambda>acc. add_sans acc raws)"

definition parse_proxy_sans :: "string list \<Rightarrow> (string, string list \<times> ip_addr list) result" where
  "parse_proxy_sans vals =
    rbind (add_sans ([], []) (concat (map (split_on (CHR '','')) vals))) (\<lambda>(dns, ips).
      if dns = [] \<and> ips = [] then Inl ''at least one proxy DNS or IP SAN is required'' else Inr (dns, ips))"

definition default_proxy_sans :: "string list" where
  "default_proxy_sans = [''DNS:veilgated-proxy'', ''DNS:veilgated'', ''DNS:localhost'', ''IP:127.0.0.1'', ''IP:::1'']"

subsection \<open>Files\<close>

record stored_file =
  sf_mode :: int
  sf_data :: string

type_synonym file_system = "string \<rightharpoonup> stored_file"

text \<open>How the operations on a path fail, apart from a file that exists or is missing. A failed write has
  written some of its bytes; \<open>ff_remove\<close> says whether a removal succeeds. The process has no \<open>umask\<close>,
  and two texts are two paths: that they name one file is a fault of \<open>ff_open\<close>.\<close>

record file_faults =
  ff_mkdir :: "string \<Rightarrow> (string, unit) result"
  ff_open :: "string \<Rightarrow> (string, unit) result"
  ff_write :: "string \<Rightarrow> (string \<times> nat, unit) result"
  ff_close :: "string \<Rightarrow> (string, unit) result"
  ff_read :: "string \<Rightarrow> (string, unit) result"
  ff_remove :: "string \<Rightarrow> bool"

definition remove_file :: "file_faults \<Rightarrow> string \<Rightarrow> file_system \<Rightarrow> file_system" where
  "remove_file ff path fs = (if ff_remove ff path then fs(path := None) else fs)"

definition read_stored :: "file_faults \<Rightarrow> file_system \<Rightarrow> string \<Rightarrow> (string, string) result" where
  "read_stored ff fs path = rbind (ff_read ff path) (\<lambda>_. case fs path of
     None \<Rightarrow> Inl (''open '' @ path @ '': no such file or directory'') | Some f \<Rightarrow> Inr (sf_data f))"

definition write_exclusive :: "file_faults \<Rightarrow> file_system \<Rightarrow> string \<Rightarrow> string \<Rightarrow> int
    \<Rightarrow> (string, unit) result \<times> file_system" where
  "write_exclusive ff fs path data mode =
    (case ff_mkdir ff path of Inl e \<Rightarrow> (Inl (''create interception CA directory: '' @ e), fs) | Inr _ \<Rightarrow>
     case (if fs path \<noteq> None then Inl (''open '' @ path @ '': file exists'') else ff_open ff path) of
       Inl e \<Rightarrow> (Inl (''create '' @ path @ '': '' @ e), fs) | Inr _ \<Rightarrow>
     case ff_write ff path of
       Inl (e, n) \<Rightarrow> (Inl (''write '' @ path @ '': '' @ e),
         remove_file ff path (fs(path \<mapsto> \<lparr>sf_mode = mode, sf_data = take n data\<rparr>))) | Inr _ \<Rightarrow>
     let written = fs(path \<mapsto> \<lparr>sf_mode = mode, sf_data = data\<rparr>) in
     case ff_close ff path of Inl e \<Rightarrow> (Inl (''close '' @ path @ '': '' @ e), remove_file ff path written)
     | Inr _ \<Rightarrow> (Inr (), written))"

text \<open>The end of both commands: the certificate, then its key; the certificate is removed when the key
  fails. The modes are 0644 and 0600.\<close>

definition write_pair :: "file_faults \<Rightarrow> file_system \<Rightarrow> string \<Rightarrow> string \<Rightarrow> string \<Rightarrow> string
    \<Rightarrow> (string, unit) result \<times> file_system" where
  "write_pair ff fs cert_path cert_pem key_path key_pem =
    (case write_exclusive ff fs cert_path cert_pem 420 of
       (Inl e, fs) \<Rightarrow> (Inl e, fs)
     | (Inr _, fs) \<Rightarrow> (case write_exclusive ff fs key_path key_pem 384 of
         (Inl e, fs) \<Rightarrow> (Inl e, remove_file ff cert_path fs)
       | (Inr _, fs) \<Rightarrow> (Inr (), fs)))"

subsection \<open>Generation\<close>

text \<open>One run of a command: the key, the serial draws, the signed encoding of a certificate, the encoding
  of the private key, and PEM.\<close>

record generation =
  gn_key :: "(string, unit) result"
  gn_serials :: "nat \<Rightarrow> (string, int) result"
  gn_create :: "certificate \<Rightarrow> (string, string) result"
  gn_marshal :: "(string, string) result"
  gn_pem :: "string \<Rightarrow> string \<Rightarrow> string"

text \<open>\<open>AddDate\<close> by whole years: the same day and time of day, in UTC. A 29 February that the year does not
  have is the 1 March. The year, month and day of a count of days since 1970-01-01:\<close>

definition civil_date :: "int \<Rightarrow> nat \<times> nat \<times> nat" where
  "civil_date days =
    (let z = days + 719468; doe = z mod 146097;
         yoe = (doe - doe div 1460 + doe div 36524 - doe div 146096) div 365;
         doy = doe - (365 * yoe + yoe div 4 - yoe div 100);
         mp = (5 * doy + 2) div 153;
         m = (if mp < 10 then mp + 3 else mp - 9);
         y = yoe + z div 146097 * 400 + (if m \<le> 2 then 1 else 0) in
     (nat y, nat m, nat (doy - (153 * mp + 2) div 5 + 1)))"

abbreviation day :: int where "day \<equiv> 24 * hour"

definition add_years :: "nat \<Rightarrow> instant \<Rightarrow> instant" where
  "add_years n t = (case civil_date (t div day) of (y, m, d) \<Rightarrow> civil_days (y + n) m d * day + t mod day)"

definition ca_template :: "instant \<Rightarrow> int \<Rightarrow> certificate" where
  "ca_template now serial = \<lparr>ce_serial = serial, ce_common_name = ''Veilgate Development Interception CA'',
     ce_dns = [], ce_ips = [], ce_not_before = now - 5 * minute, ce_not_after = add_years 5 now,
     ce_usage = [Cert_Sign, Crl_Sign], ce_server_auth = False, ce_is_ca = True\<rparr>"

definition encode_and_write :: "generation \<Rightarrow> file_faults \<Rightarrow> file_system \<Rightarrow> string \<Rightarrow> string \<Rightarrow> string \<Rightarrow> string
    \<Rightarrow> certificate \<Rightarrow> (string, unit) result \<times> file_system" where
  "encode_and_write gn ff fs create_error marshal_error cert_path key_path template =
    (case gn_create gn template of Inl e \<Rightarrow> (Inl (create_error @ e), fs) | Inr cert_der \<Rightarrow>
     case gn_marshal gn of Inl e \<Rightarrow> (Inl (marshal_error @ e), fs) | Inr key_der \<Rightarrow>
     write_pair ff fs cert_path (gn_pem gn ''CERTIFICATE'' cert_der) key_path (gn_pem gn ''PRIVATE KEY'' key_der))"

definition generate :: "instant \<Rightarrow> generation \<Rightarrow> file_faults \<Rightarrow> file_system \<Rightarrow> string \<Rightarrow> string
    \<Rightarrow> ((string, unit) result \<times> file_system) option" where
  "generate now gn ff fs cert_path key_path =
    (if cert_path = [] \<or> key_path = [] \<or> cert_path = key_path
       then Some (Inl ''distinct certificate and key paths are required'', fs) else
     case gn_key gn of Inl e \<Rightarrow> Some (Inl (''generate interception CA key: '' @ e), fs) | Inr _ \<Rightarrow>
     case random_serial (gn_serials gn) 0 of
       None \<Rightarrow> None
     | Some (Inl e) \<Rightarrow> Some (Inl e, fs)
     | Some (Inr serial) \<Rightarrow> Some (encode_and_write gn ff fs ''create interception CA certificate: ''
         ''marshal interception CA key: '' cert_path key_path (ca_template now serial)))"

definition proxy_lifetime :: int where "proxy_lifetime = 825 * day"

definition proxy_template :: "instant \<Rightarrow> certificate \<Rightarrow> int \<Rightarrow> string list \<Rightarrow> ip_addr list \<Rightarrow> (string, certificate) result" where
  "proxy_template now ca serial dns ips =
    (let not_before = (if now - 5 * minute < ce_not_before ca then ce_not_before ca else now - 5 * minute);
         not_after = (if ce_not_after ca < now + proxy_lifetime then ce_not_after ca else now + proxy_lifetime) in
     if \<not> not_before + 5 * minute < not_after
       then Inl ''interception CA expires too soon to issue a proxy certificate''
     else Inr \<lparr>ce_serial = serial, ce_common_name = ''veilgated-proxy'', ce_dns = dns, ce_ips = ips,
       ce_not_before = not_before, ce_not_after = not_after, ce_usage = [Digital_Signature],
       ce_server_auth = True, ce_is_ca = False\<rparr>)"

text \<open>\<open>load_now\<close> is the clock while the authority is read, \<open>now\<close> the clock when the certificate is made.\<close>

definition generate_proxy_certificate :: "crypto_lib \<Rightarrow> instant \<Rightarrow> instant \<Rightarrow> generation \<Rightarrow> file_faults \<Rightarrow> file_system
    \<Rightarrow> string \<Rightarrow> string \<Rightarrow> string \<Rightarrow> string \<Rightarrow> string list \<Rightarrow> ((string, unit) result \<times> file_system) option" where
  "generate_proxy_certificate lib load_now now gn ff fs ca_cert_path ca_key_path cert_path key_path sans =
    (if ca_cert_path = [] \<or> ca_key_path = [] \<or> cert_path = [] \<or> key_path = []
       then Some (Inl ''CA and proxy certificate and key paths are required'', fs) else
     if ca_cert_path = ca_key_path \<or> cert_path = key_path
       then Some (Inl ''certificate and key paths must be distinct'', fs) else
     if cert_path = ca_cert_path \<or> cert_path = ca_key_path \<or> key_path = ca_cert_path \<or> key_path = ca_key_path
       then Some (Inl ''proxy certificate paths must differ from CA paths'', fs) else
     case parse_proxy_sans sans of Inl e \<Rightarrow> Some (Inl e, fs) | Inr (dns, ips) \<Rightarrow>
     case load_authority lib load_now (read_stored ff fs) ca_cert_path ca_key_path of
       Inl e \<Rightarrow> Some (Inl (''load signing CA: '' @ e), fs) | Inr a \<Rightarrow>
     case gn_key gn of Inl e \<Rightarrow> Some (Inl (''generate proxy certificate key: '' @ e), fs) | Inr _ \<Rightarrow>
     case random_serial (gn_serials gn) 0 of
       None \<Rightarrow> None
     | Some (Inl e) \<Rightarrow> Some (Inl e, fs)
     | Some (Inr serial) \<Rightarrow> (case proxy_template now (au_certificate a) serial dns ips of
         Inl e \<Rightarrow> Some (Inl e, fs)
       | Inr template \<Rightarrow> Some (encode_and_write gn ff fs ''create proxy certificate: ''
           ''marshal proxy certificate key: '' cert_path key_path template)))"

subsection \<open>Nothing is overwritten\<close>

text \<open>What a run that writes a certificate and a key may do to the files.\<close>

definition exclusive_pair :: "file_faults \<Rightarrow> file_system \<Rightarrow> string \<Rightarrow> string \<Rightarrow> (string, unit) result \<times> file_system \<Rightarrow> bool" where
  "exclusive_pair ff fs cert_path key_path run \<longleftrightarrow>
    (\<forall>p f. fs p = Some f \<longrightarrow> snd run p = Some f) \<and>
    (case fst run of
       Inl _ \<Rightarrow> ff_remove ff cert_path \<and> ff_remove ff key_path \<longrightarrow> snd run = fs
     | Inr _ \<Rightarrow> fs cert_path = None \<and> fs key_path = None \<and>
         (\<exists>c k. snd run = fs(cert_path \<mapsto> \<lparr>sf_mode = 420, sf_data = c\<rparr>, key_path \<mapsto> \<lparr>sf_mode = 384, sf_data = k\<rparr>)))"

lemma write_exclusive_keeps:
  "fs p = Some f \<Longrightarrow> snd (write_exclusive ff fs path data mode) p = Some f"
  by (auto simp: write_exclusive_def remove_file_def Let_def split: sum.splits)

lemma write_exclusive_undone:
  "write_exclusive ff fs path data mode = (Inl e, fs') \<Longrightarrow> ff_remove ff path \<Longrightarrow> fs' = fs"
  by (auto simp: write_exclusive_def remove_file_def Let_def fun_upd_idem split: sum.splits if_splits)

lemma write_exclusive_written:
  "write_exclusive ff fs path data mode = (Inr u, fs') \<Longrightarrow>
   fs path = None \<and> fs' = fs(path \<mapsto> \<lparr>sf_mode = mode, sf_data = data\<rparr>)"
  by (auto simp: write_exclusive_def Let_def split: sum.splits if_splits)

lemma exclusive_pair_error [simp]: "exclusive_pair ff fs cp kp (Inl e, fs)"
  by (simp add: exclusive_pair_def)

lemma exclusive_write_pair:
  assumes "cp \<noteq> kp"
  shows "exclusive_pair ff fs cp kp (write_pair ff fs cp c kp k)"
proof (cases "write_exclusive ff fs cp c 420")
  case (Pair r fs1)
  note keeps1 = write_exclusive_keeps [where ff = ff and fs = fs and path = cp and data = c and mode = 420, unfolded Pair snd_conv]
  show ?thesis
  proof (cases r)
    case (Inl e)
    with Pair keeps1 show ?thesis
      using write_exclusive_undone [of ff fs cp c 420 e fs1] by (simp add: write_pair_def exclusive_pair_def)
  next
    case (Inr u)
    then have one: "fs cp = None" "fs1 = fs(cp \<mapsto> \<lparr>sf_mode = 420, sf_data = c\<rparr>)"
      using write_exclusive_written [of ff fs cp c 420 u fs1] Pair by auto
    obtain s fs2 where two: "write_exclusive ff fs1 kp k 384 = (s, fs2)" by force
    note keeps2 = write_exclusive_keeps [where ff = ff and fs = fs1 and path = kp and data = k and mode = 384, unfolded two snd_conv]
    show ?thesis
    proof (cases s)
      case (Inl e)
      have keep: "\<forall>p f. fs p = Some f \<longrightarrow> remove_file ff cp fs2 p = Some f"
        using keeps1 keeps2 one by (auto simp: remove_file_def)
      have undo: "ff_remove ff cp \<Longrightarrow> ff_remove ff kp \<Longrightarrow> remove_file ff cp fs2 = fs"
        using write_exclusive_undone [of ff fs1 kp k 384 e fs2] two Inl one by (auto simp: remove_file_def fun_upd_idem)
      from Pair \<open>r = Inr u\<close> two Inl keep undo show ?thesis by (simp add: write_pair_def exclusive_pair_def)
    next
      case (Inr v)
      have "fs kp = None" "fs2 = fs1(kp \<mapsto> \<lparr>sf_mode = 384, sf_data = k\<rparr>)"
        using write_exclusive_written [of ff fs1 kp k 384 v fs2] two Inr one assms by auto
      with Pair \<open>r = Inr u\<close> two Inr one show ?thesis by (auto simp: write_pair_def exclusive_pair_def)
    qed
  qed
qed

lemma exclusive_encode_and_write:
  "cp \<noteq> kp \<Longrightarrow> exclusive_pair ff fs cp kp (encode_and_write gn ff fs ce me cp kp t)"
  by (auto simp: encode_and_write_def exclusive_write_pair split: sum.splits)

lemma exclusive_generate:
  "generate now gn ff fs cp kp = Some run \<Longrightarrow> exclusive_pair ff fs cp kp run"
  by (auto simp: generate_def exclusive_encode_and_write split: sum.splits option.splits if_splits)

lemma exclusive_generate_proxy:
  "generate_proxy_certificate lib t0 now gn ff fs cc ck cp kp sans = Some run \<Longrightarrow> exclusive_pair ff fs cp kp run"
  by (auto simp: generate_proxy_certificate_def exclusive_encode_and_write split: sum.splits option.splits prod.splits if_splits)

subsection \<open>The issued proxy certificate\<close>

definition san_ok :: "string list \<times> ip_addr list \<Rightarrow> bool" where
  "san_ok acc \<longleftrightarrow> list_all valid_proxy_dns_name (fst acc) \<and> list_all (\<lambda>ip. ip_unmap ip = ip) (snd acc)"

lemma add_san_ok: "add_san acc raw = Inr acc' \<Longrightarrow> san_ok acc \<Longrightarrow> san_ok acc'"
  by (auto simp: add_san_def san_ok_def Let_def split: prod.splits option.splits if_splits)

lemma add_sans_ok: "add_sans acc raws = Inr acc' \<Longrightarrow> san_ok acc \<Longrightarrow> san_ok acc'"
  by (induction acc raws rule: add_sans.induct) (auto simp: add_san_ok)

lemma parse_proxy_sans_ok:
  "parse_proxy_sans vals = Inr (dns, ips) \<Longrightarrow> san_ok (dns, ips) \<and> (dns \<noteq> [] \<or> ips \<noteq> [])"
  using add_sans_ok [of "([], [])" _ "(dns, ips)"]
  by (auto simp: parse_proxy_sans_def san_ok_def split: sum.splits prod.splits if_splits)

lemma proxy_template_bounds:
  assumes "proxy_template now ca serial dns ips = Inr t" and "ce_not_before ca \<le> now"
  shows "ce_not_before ca \<le> ce_not_before t \<and> ce_not_after t \<le> ce_not_after ca \<and>
    ce_not_before t \<le> now \<and> now < ce_not_after t \<and> ce_not_after t \<le> now + 825 * day \<and>
    ce_dns t = dns \<and> ce_ips t = ips \<and> \<not> ce_is_ca t \<and> ce_usage t = [Digital_Signature] \<and> ce_serial t = serial"
  using assms by (auto simp: proxy_template_def proxy_lifetime_def Let_def split: if_splits)

lemma encode_and_write_Inr:
  assumes "encode_and_write gn ff fs ce me cp kp t = (Inr u, fs')" and "cp \<noteq> kp"
  shows "\<exists>der key. gn_create gn t = Inr der \<and> gn_marshal gn = Inr key \<and>
    fs' = fs(cp \<mapsto> \<lparr>sf_mode = 420, sf_data = gn_pem gn ''CERTIFICATE'' der\<rparr>,
             kp \<mapsto> \<lparr>sf_mode = 384, sf_data = gn_pem gn ''PRIVATE KEY'' key\<rparr>)"
  using assms
  by (auto simp: encode_and_write_def write_pair_def dest!: write_exclusive_written split: sum.splits prod.splits)

lemma load_authority_valid:
  "load_authority lib t read cc ck = Inr a \<Longrightarrow> ce_not_before (au_certificate a) \<le> t"
  by (auto simp: load_authority_def dest: parse_authority_Inr)


subsection \<open>Properties of the commands\<close>

text \<open>C37. Neither command ever changes or removes a file that exists, whatever fails. A run that fails
  leaves the files as they were, provided that it can remove what it wrote itself; a run that succeeds
  adds exactly the certificate, with mode 0644, and the key, with mode 0600.\<close>

theorem generation_exclusive:
  assumes "generate now gn ff fs cert_path key_path = Some run \<or>
    generate_proxy_certificate lib load_now now gn ff fs ca_cert_path ca_key_path cert_path key_path sans = Some run"
  shows "(\<forall>p f. fs p = Some f \<longrightarrow> snd run p = Some f) \<and>
    (\<forall>e. fst run = Inl e \<and> ff_remove ff cert_path \<and> ff_remove ff key_path \<longrightarrow> snd run = fs) \<and>
    (fst run = Inr () \<longrightarrow> fs cert_path = None \<and> fs key_path = None \<and>
      (\<exists>c k. snd run = fs(cert_path \<mapsto> \<lparr>sf_mode = 420, sf_data = c\<rparr>, key_path \<mapsto> \<lparr>sf_mode = 384, sf_data = k\<rparr>)))"
proof -
  from assms have "exclusive_pair ff fs cert_path key_path run"
    using exclusive_generate exclusive_generate_proxy by blast
  then show ?thesis by (auto simp: exclusive_pair_def split: sum.splits)
qed

text \<open>C38. A run that writes a proxy certificate has signed a template that is valid at this instant, for at
  most 825 days more, only while the authority is valid, not as an authority, and only for well formed
  names and plain addresses, at least one of them; the file holds exactly that certificate.\<close>

theorem proxy_certificate_valid:
  assumes "generate_proxy_certificate lib load_now now gn ff fs ca_cert_path ca_key_path cert_path key_path sans = Some (Inr (), fs')"
    and "load_now \<le> now"
  shows "\<exists>a t der. load_authority lib load_now (read_stored ff fs) ca_cert_path ca_key_path = Inr a \<and>
    gn_create gn t = Inr der \<and> fs' cert_path = Some \<lparr>sf_mode = 420, sf_data = gn_pem gn ''CERTIFICATE'' der\<rparr> \<and>
    ce_not_before (au_certificate a) \<le> ce_not_before t \<and> ce_not_after t \<le> ce_not_after (au_certificate a) \<and>
    ce_not_before t \<le> now \<and> now < ce_not_after t \<and> ce_not_after t \<le> now + 825 * day \<and>
    \<not> ce_is_ca t \<and> ce_usage t = [Digital_Signature] \<and> list_all valid_proxy_dns_name (ce_dns t) \<and>
    list_all (\<lambda>ip. ip_unmap ip = ip) (ce_ips t) \<and> (ce_dns t \<noteq> [] \<or> ce_ips t \<noteq> [])"
proof -
  obtain dns ips a serial t where sans: "parse_proxy_sans sans = Inr (dns, ips)"
    and a: "load_authority lib load_now (read_stored ff fs) ca_cert_path ca_key_path = Inr a"
    and t: "proxy_template now (au_certificate a) serial dns ips = Inr t" and differ: "cert_path \<noteq> key_path"
    and written: "encode_and_write gn ff fs ''create proxy certificate: '' ''marshal proxy certificate key: ''
      cert_path key_path t = (Inr (), fs')"
    using assms(1) unfolding generate_proxy_certificate_def
    by (auto split: sum.splits option.splits prod.splits if_splits)
  obtain der where "gn_create gn t = Inr der" "fs' cert_path = Some \<lparr>sf_mode = 420, sf_data = gn_pem gn ''CERTIFICATE'' der\<rparr>"
    using encode_and_write_Inr [OF written differ] differ by auto
  moreover have "ce_not_before (au_certificate a) \<le> now" using load_authority_valid [OF a] assms(2) by linarith
  note proxy_template_bounds [OF t this]
  moreover note parse_proxy_sans_ok [OF sans] a
  ultimately show ?thesis by (intro exI [of _ a] exI [of _ t] exI [of _ der]) (auto simp: san_ok_def)
qed

subsection \<open>Runs\<close>

definition sample_generation :: generation where
  "sample_generation = \<lparr>gn_key = Inr (), gn_serials = is_serials sample_issuance, gn_create = (\<lambda>c. Inr (ce_common_name c)),
     gn_marshal = Inr ''key'', gn_pem = (\<lambda>t b. b)\<rparr>"

text \<open>The key cannot be written; all else works.\<close>

definition sample_faults :: "(string \<times> nat, unit) result \<Rightarrow> file_faults" where
  "sample_faults res = \<lparr>ff_mkdir = (\<lambda>_. Inr ()), ff_open = (\<lambda>_. Inr ()), ff_write = (\<lambda>p. if p = ''new.key'' then res else Inr ()),
     ff_close = (\<lambda>_. Inr ()), ff_read = (\<lambda>_. Inr ()), ff_remove = (\<lambda>_. True)\<rparr>"

definition sample_files :: file_system where
  "sample_files = [''ca.crt'' \<mapsto> \<lparr>sf_mode = 420, sf_data = ''c''\<rparr>, ''ca.key'' \<mapsto> \<lparr>sf_mode = 384, sf_data = ''k''\<rparr>]"

theorem generation_exclusive_witness:
  "\<exists>e. generate (hour) sample_generation (sample_faults (Inl (''disk full'', 2))) sample_files ''new.crt'' ''new.key''
    = Some (Inl e, sample_files)"
proof -
  let ?ff = "sample_faults (Inl (''disk full'', 2))"
  obtain e fs' where run: "generate hour sample_generation ?ff sample_files ''new.crt'' ''new.key'' = Some (Inl e, fs')"
    by (simp add: generate_def sample_generation_def sample_serial encode_and_write_def write_pair_def write_exclusive_def
      sample_faults_def sample_files_def Let_def)
  have "snd (Inl e :: (string, unit) result, fs') = sample_files"
    using generation_exclusive [of hour sample_generation ?ff sample_files "''new.crt''" "''new.key''" "(Inl e, fs')"] run
    by (simp add: sample_faults_def)
  with run show ?thesis by simp
qed

lemma sample_sans: "parse_proxy_sans [''DNS:localhost,IP:127.0.0.1''] = Inr ([''localhost''], [Ip4 0x7F000001])"
  by (simp add: parse_proxy_sans_def add_san_def valid_proxy_dns_name_def canonical_host_def evaluate)

lemma sample_loaded: "0 \<le> t \<Longrightarrow> t < 8760 * hour \<Longrightarrow> load_authority sample_lib t (read_stored (sample_faults res) sample_files) ''ca.crt'' ''ca.key'' = Inr sample_authority"
  by (simp add: load_authority_def read_stored_def sample_faults_def sample_files_def wrap_error_def
    parse_authority_def sample_lib_def parse_private_key_def sample_ca_def sample_authority_def require_def trim_space_graphic)

theorem proxy_certificate_valid_witness:
  "\<exists>fs'. generate_proxy_certificate sample_lib hour hour sample_generation (sample_faults (Inr ())) sample_files
      ''ca.crt'' ''ca.key'' ''new.crt'' ''new.key'' [''DNS:localhost,IP:127.0.0.1''] = Some (Inr (), fs') \<and>
    (\<exists>t. gn_create sample_generation t = Inr ''veilgated-proxy'' \<and> hour < ce_not_after t \<and> ce_not_after t \<le> 8760 * hour)"
proof -
  have loaded: "load_authority sample_lib hour (read_stored (sample_faults (Inr ())) sample_files) ''ca.crt'' ''ca.key''
      = Inr sample_authority" by (rule sample_loaded) simp_all
  obtain fs' where run: "generate_proxy_certificate sample_lib hour hour sample_generation (sample_faults (Inr ())) sample_files
      ''ca.crt'' ''ca.key'' ''new.crt'' ''new.key'' [''DNS:localhost,IP:127.0.0.1''] = Some (Inr (), fs')"
    and cert: "fs' ''new.crt'' = Some \<lparr>sf_mode = 420, sf_data = ''veilgated-proxy''\<rparr>"
    unfolding generate_proxy_certificate_def sample_sans loaded
    by (simp add: sample_generation_def sample_serial proxy_template_def sample_authority_def sample_ca_def proxy_lifetime_def
      encode_and_write_def write_pair_def write_exclusive_def sample_faults_def sample_files_def Let_def)
  obtain a t der where a: "load_authority sample_lib hour (read_stored (sample_faults (Inr ())) sample_files) ''ca.crt'' ''ca.key'' = Inr a"
    and t: "gn_create sample_generation t = Inr der" "hour < ce_not_after t" "ce_not_after t \<le> ce_not_after (au_certificate a)"
      "fs' ''new.crt'' = Some \<lparr>sf_mode = 420, sf_data = gn_pem sample_generation ''CERTIFICATE'' der\<rparr>"
    using proxy_certificate_valid [OF run] by blast
  from a have "a = sample_authority" unfolding loaded by simp
  with t have "ce_not_after t \<le> 8760 * hour" by (simp add: sample_authority_def sample_ca_def)
  moreover have "gn_create sample_generation t = Inr ''veilgated-proxy''"
    using t(1,4) cert by (simp add: sample_generation_def)
  ultimately show ?thesis using run t(2) by blast
qed

end
