(* ===== verification/Startup.thy ===== *)
theory Startup
  imports Gateway Authority
begin

text \<open>
  The start of the program (\<open>cmd/veilgated/main.go\<close>): the settings with their ranges, the rules about
  the console and about interception, the optional policy files, the handler that \<open>runServe\<close> assembles,
  and the reload of the client policy. The environment, the files and the loaders are arguments.
\<close>

text \<open>\<open>os.Getenv\<close>, the functions of \<open>envutil\<close>, the files, and the outcome of what \<open>runServe\<close> loads
  and opens: the client policy, a TLS key pair, the audit sink, the authority, the brokers, the store
  and the assets of the console.\<close>

record environment =
  en_get :: "string \<Rightarrow> string"
  en_or :: "string \<Rightarrow> string \<Rightarrow> string"
  en_int :: "string \<Rightarrow> (string, int) result"
  en_duration :: "string \<Rightarrow> (string, int) result"
  en_regular :: "string \<Rightarrow> bool"
  en_read :: "string \<Rightarrow> (string, string) result"
  en_policy :: "string \<Rightarrow> (string, policy) result"
  en_key_pair :: "string \<Rightarrow> string \<Rightarrow> (string, unit) result"
  en_audit :: "(string, unit) result"
  en_authority :: "string \<Rightarrow> string \<Rightarrow> (string, authority) result"
  en_secrets :: "string \<Rightarrow> (string, broker) result"
  en_oauth :: "string \<Rightarrow> string \<Rightarrow> (string, oauth) result"
  en_store :: "string \<Rightarrow> int \<Rightarrow> (string, unit) result"
  en_console :: "(string, unit) result"

subsection \<open>Settings\<close>

abbreviation millisecond :: int where "millisecond \<equiv> 1000000"

record settings =
  st_retention :: int
  st_dial_timeout :: int
  st_session_idle :: int
  st_session_max :: int
  st_response_header :: int
  st_capture_limit :: int
  st_mediation_limit :: int
  st_queue_capacity :: int
  st_workers :: int

text \<open>The pattern of each setting: read, replace zero by the default, check the range.\<close>

definition setting :: "(string, int) result \<Rightarrow> int \<Rightarrow> (int \<Rightarrow> bool) \<Rightarrow> string \<Rightarrow> (string, int) result" where
  "setting raw fallback in_range message =
    rbind raw (\<lambda>v. let v = (if v = 0 then fallback else v) in if in_range v then Inr v else Inl message)"

definition read_settings :: "environment \<Rightarrow> (string, settings) result" where
  "read_settings en =
    rbind (setting (en_int en ''VEILGATED_FLOW_RETENTION'') 1000 (\<lambda>v. \<not> (v < 1 \<or> 100000 < v))
      ''VEILGATED_FLOW_RETENTION must be between 1 and 100000'') (\<lambda>retention.
    rbind (setting (en_duration en ''VEILGATED_DIAL_TIMEOUT'') (10 * second) (\<lambda>v. \<not> v < millisecond)
      ''VEILGATED_DIAL_TIMEOUT must be at least 1ms'') (\<lambda>dial.
    rbind (setting (en_duration en ''VEILGATED_SESSION_IDLE_TIMEOUT'') (10 * minute) (\<lambda>v. \<not> (v < second \<or> 24 * hour < v))
      ''VEILGATED_SESSION_IDLE_TIMEOUT must be between 1s and 24h'') (\<lambda>idle.
    rbind (setting (en_duration en ''VEILGATED_SESSION_MAX_DURATION'') (2 * hour) (\<lambda>v. \<not> (v < idle \<or> 7 * 24 * hour < v))
      ''VEILGATED_SESSION_MAX_DURATION must be at least the idle timeout and at most 168h'') (\<lambda>max_duration.
    rbind (setting (en_duration en ''VEILGATED_UPSTREAM_RESPONSE_HEADER_TIMEOUT'') (60 * second)
      (\<lambda>v. \<not> (v < second \<or> 10 * minute < v))
      ''VEILGATED_UPSTREAM_RESPONSE_HEADER_TIMEOUT must be between 1s and 10m'') (\<lambda>header.
    rbind (setting (en_int en ''VEILGATED_CAPTURE_LIMIT_BYTES'') (2 ^ 20) (\<lambda>v. \<not> (v < 1024 \<or> 4 * 2 ^ 20 < v))
      ''VEILGATED_CAPTURE_LIMIT_BYTES must be between 1024 and 4194304'') (\<lambda>capture.
    rbind (setting (en_int en ''VEILGATED_MEDIATION_LIMIT_BYTES'') (32 * 2 ^ 20) (\<lambda>v. \<not> (v < capture \<or> 64 * 2 ^ 20 < v))
      ''VEILGATED_MEDIATION_LIMIT_BYTES must be at least the capture limit and at most 67108864'') (\<lambda>mediation.
    rbind (setting (en_int en ''VEILGATED_RECORD_QUEUE_CAPACITY'') 256 (\<lambda>v. \<not> v < 1)
      ''VEILGATED_RECORD_QUEUE_CAPACITY must be at least 1'') (\<lambda>queue.
    rbind (setting (en_int en ''VEILGATED_RECORD_WORKERS'') 4 (\<lambda>v. \<not> v < 1)
      ''VEILGATED_RECORD_WORKERS must be at least 1'') (\<lambda>workers.
      Inr \<lparr>st_retention = retention, st_dial_timeout = dial, st_session_idle = idle, st_session_max = max_duration,
        st_response_header = header, st_capture_limit = capture, st_mediation_limit = mediation,
        st_queue_capacity = queue, st_workers = workers\<rparr>)))))))))"

datatype log_level = Log_Debug | Log_Info | Log_Warn | Log_Error

definition configure_log_level :: "string \<Rightarrow> (string, log_level) result" where
  "configure_log_level raw = (let v = to_lower (trim_space raw) in
     if v = [] \<or> v = ''info'' then Inr Log_Info
     else if v = ''debug'' then Inr Log_Debug
     else if v = ''warn'' \<or> v = ''warning'' then Inr Log_Warn
     else if v = ''error'' then Inr Log_Error
     else Inl ''VEILGATED_LOG_LEVEL must be one of debug, info, warn, or error'')"

subsection \<open>The console\<close>

definition is_loopback_console_addr :: "string \<Rightarrow> bool" where
  "is_loopback_console_addr addr = (case split_host_port addr of
     None \<Rightarrow> False
   | Some (host, _) \<Rightarrow>
       let normalized = canonical_host host in
       if normalized = ''localhost'' \<or> has_suffix normalized ''.localhost'' then True
       else (case parse_addr host of None \<Rightarrow> False | Some ip \<Rightarrow> ip_is_loopback (ip_unmap ip)))"

definition validate_console_auth :: "string \<Rightarrow> string \<Rightarrow> string \<Rightarrow> (string, unit) result" where
  "validate_console_auth addr username password =
    (if (username = []) \<noteq> (password = [])
       then Inl ''VEILGATED_CONSOLE_USERNAME and VEILGATED_CONSOLE_PASSWORD must be set together''
     else if username = [] \<and> \<not> is_loopback_console_addr addr
       then Inl (''VEILGATED_CONSOLE_USERNAME and VEILGATED_CONSOLE_PASSWORD are required when VEILGATED_CONSOLE_ADDR ''
         @ quote_text addr @ '' is not loopback'')
     else Inr ())"

subsection \<open>Optional policy files\<close>

text \<open>The empty path for a file that is missing, empty or holds no entries; a file that cannot be read
  or is malformed is kept, for the loader to report.\<close>

definition optional_policy_file :: "environment \<Rightarrow> string \<Rightarrow> string \<Rightarrow> string \<Rightarrow> string" where
  "optional_policy_file en env_name fallback collection =
    (let path = (if en_get en env_name = [] then fallback else en_get en env_name) in
     if \<not> en_regular en path then [] else
     case en_read en path of Inl _ \<Rightarrow> path | Inr data \<Rightarrow>
     let data = trim_space data in
     if data = [] then [] else
     case unmarshal_map data of None \<Rightarrow> path | Some document \<Rightarrow>
     let document = (case document of None \<Rightarrow> [] | Some ms \<Rightarrow> ms) in
     if document = [] then []
     else if length document \<noteq> 1 then path
     else case map_of document collection of None \<Rightarrow> path | Some entries \<Rightarrow>
       if json_unmarshal entries = Some J_Null \<or> json_unmarshal entries = Some (J_Arr []) then [] else path)"

subsection \<open>What is started\<close>

abbreviation default_intercept_cert :: string where "default_intercept_cert \<equiv> ''/etc/veilgate/intercept-ca.crt''"
abbreviation default_intercept_key :: string where "default_intercept_key \<equiv> ''/etc/veilgate/intercept-ca.key''"
abbreviation default_proxy_cert :: string where "default_proxy_cert \<equiv> ''/etc/veilgate/proxy.crt''"
abbreviation default_proxy_key :: string where "default_proxy_key \<equiv> ''/etc/veilgate/proxy.key''"

text \<open>The interception authority: none, or the one of the configured pair of files.\<close>

definition start_interception :: "environment \<Rightarrow> (string, authority option) result" where
  "start_interception en =
    (let cert = en_get en ''VEILGATED_INTERCEPT_CA_CERT''; key = en_get en ''VEILGATED_INTERCEPT_CA_KEY'';
         defaults = (cert = [] \<and> key = [] \<and> (en_regular en default_intercept_cert \<or> en_regular en default_intercept_key));
         cert = (if defaults then default_intercept_cert else cert);
         key = (if defaults then default_intercept_key else key) in
     if (cert = []) \<noteq> (key = [])
       then Inl ''VEILGATED_INTERCEPT_CA_CERT and VEILGATED_INTERCEPT_CA_KEY must be set together''
     else if cert = [] then Inr None
     else wrap_error (\<lambda>e. ''load interception CA: '' @ e) (rbind (en_authority en cert key) (\<lambda>a. Inr (Some a))))"

definition start_secrets :: "environment \<Rightarrow> authority option \<Rightarrow> (string, broker option) result" where
  "start_secrets en ca =
    (let path = optional_policy_file en ''VEILGATED_SECRETS_FILE'' ''/etc/veilgate/secrets.json'' ''secrets'' in
     if path = [] then Inr None
     else if ca = None then Inl ''VEILGATED_SECRETS_FILE requires TLS interception CA material''
     else wrap_error (\<lambda>e. ''load secret broker: '' @ e) (rbind (en_secrets en path) (\<lambda>b. Inr (Some b))))"

definition start_oauth :: "environment \<Rightarrow> authority option \<Rightarrow> (string, oauth option) result" where
  "start_oauth en ca =
    (let path = optional_policy_file en ''VEILGATED_OAUTH_FILE'' ''/etc/veilgate/oauth.json'' ''brokers'' in
     if path = [] then Inr None
     else if ca = None then Inl ''VEILGATED_OAUTH_FILE requires TLS interception CA material''
     else wrap_error (\<lambda>e. ''load OAuth broker: '' @ e)
       (rbind (en_oauth en path (en_or en ''VEILGATED_AUTH_FILE'' ''/var/lib/veilgate/auth.json'')) (\<lambda>b. Inr (Some b))))"

record deployment =
  dp_log_level :: log_level
  dp_policy_path :: string
  dp_policy :: policy
  dp_settings :: settings
  dp_console_addr :: string
  dp_console_user :: string
  dp_console_password :: string
  dp_authority :: "authority option"
  dp_secrets :: "broker option"
  dp_oauth :: "oauth option"
  dp_proxy_addr :: string

definition run_serve :: "environment \<Rightarrow> (string, deployment) result" where
  "run_serve en =
    rbind (configure_log_level (en_get en ''VEILGATED_LOG_LEVEL'')) (\<lambda>level.
    let policy_path = en_or en ''VEILGATED_CLIENTS_FILE'' ''/etc/veilgate/clients.json'' in
    rbind (wrap_error (\<lambda>e. ''load clients: '' @ e) (en_policy en policy_path)) (\<lambda>policy.
    rbind (read_settings en) (\<lambda>st.
    let console_addr = en_or en ''VEILGATED_CONSOLE_ADDR'' ''127.0.0.1:8081'';
        user = en_get en ''VEILGATED_CONSOLE_USERNAME''; password = en_get en ''VEILGATED_CONSOLE_PASSWORD'' in
    rbind (validate_console_auth console_addr user password) (\<lambda>_.
    let cert = en_or en ''VEILGATED_PROXY_CERT'' default_proxy_cert; key = en_or en ''VEILGATED_PROXY_KEY'' default_proxy_key in
    rbind (require (\<not> (\<not> en_regular en cert \<or> \<not> en_regular en key))
      (''VEILGATED_PROXY_CERT and VEILGATED_PROXY_KEY are required; provide the certificate and key or create the defaults at ''
        @ default_proxy_cert @ '' and '' @ default_proxy_key)) (\<lambda>_.
    rbind (wrap_error (\<lambda>e. ''load HTTPS proxy certificate: '' @ e) (en_key_pair en cert key)) (\<lambda>_.
    rbind (wrap_error (\<lambda>e. ''audit sink: '' @ e) (en_audit en)) (\<lambda>_.
    rbind (start_interception en) (\<lambda>ca.
    rbind (start_secrets en ca) (\<lambda>secrets.
    rbind (start_oauth en ca) (\<lambda>oauth.
    rbind (wrap_error (\<lambda>e. ''open flow store: '' @ e)
      (en_store en (en_or en ''VEILGATED_DATABASE_URL'' ''sqlite:/var/lib/veilgate/flows.db'') (st_retention st))) (\<lambda>_.
    rbind (en_console en) (\<lambda>_.
    rbind (wrap_error (\<lambda>e. ''load HTTPS console certificate: '' @ e)
      (en_key_pair en (en_or en ''VEILGATED_CONSOLE_CERT'' ''/etc/veilgate/console.crt'')
        (en_or en ''VEILGATED_CONSOLE_KEY'' ''/etc/veilgate/console.key''))) (\<lambda>_.
      Inr \<lparr>dp_log_level = level, dp_policy_path = policy_path, dp_policy = policy, dp_settings = st,
        dp_console_addr = console_addr, dp_console_user = user, dp_console_password = password, dp_authority = ca,
        dp_secrets = secrets, dp_oauth = oauth, dp_proxy_addr = en_or en ''VEILGATED_ADDR'' ''127.0.0.1:8080''\<rparr>)))))))))))))"

text \<open>The handler that \<open>runServe\<close> builds from what it has loaded.\<close>

definition deployed_proxy :: "(apply_error \<Rightarrow> string) \<Rightarrow> (substitute_error \<Rightarrow> string) \<Rightarrow> codecs \<Rightarrow> deployment \<Rightarrow> gateway proxy" where
  "deployed_proxy apply_text subst_text cs d =
    (let h = \<lparr>hd_secrets = (\<lambda>_. combine_brokers [map_option (static_broker apply_text subst_text) (dp_secrets d), None]),
           hd_observe = None, hd_codecs = cs, hd_capture_limit = st_capture_limit (dp_settings d),
           hd_mediation_limit = st_mediation_limit (dp_settings d), px_policy = Some (dp_policy d), px_reloaded = None,
           px_resolver = None, px_interceptor = (dp_authority d \<noteq> None)\<rparr> in
     if dp_oauth d = None then h else wire_brokers apply_text subst_text (dp_secrets d) h)"

text \<open>The audit event of a recorded flow (\<open>internal/audit\<close>), which is appended to the audit sink: metadata,
  and neither headers, bodies nor the query.\<close>

record audit_entry =
  ae_time :: int
  ae_flow_id :: "64 word"
  ae_session :: string
  ae_client :: string
  ae_method :: string
  ae_host :: string
  ae_port :: int
  ae_path :: string
  ae_mode :: string
  ae_destination :: string
  ae_decision :: string
  ae_reason :: string
  ae_status :: int
  ae_secrets :: "string list"
  ae_response_secrets :: "string list"

definition audit_of :: "flow \<Rightarrow> audit_entry" where
  "audit_of item = \<lparr>ae_time = fl_started_at item, ae_flow_id = fl_id item, ae_session = fl_session item,
     ae_client = fl_client item, ae_method = fl_method item, ae_host = fl_host item, ae_port = fl_port item,
     ae_path = fl_path item, ae_mode = fl_mode item, ae_destination = fl_destination item,
     ae_decision = fl_decision item, ae_reason = fl_reason item, ae_status = fl_status item,
     ae_secrets = fl_secrets item, ae_response_secrets = fl_response_secrets item\<rparr>"

lemma audit_without_content: "audit_of (item\<lparr>fl_capture := c, fl_trace := t\<rparr>) = audit_of item"
  by (simp add: audit_of_def)

definition any_public_host_client_count :: "policy \<Rightarrow> nat" where
  "any_public_host_client_count f = foldl (\<lambda>n c. if c_any_public c then Suc n else n) 0 f"

text \<open>A reload swaps the policy in, or keeps the one in force.\<close>

definition reload_client_policy :: "environment \<Rightarrow> string \<Rightarrow> ('o, 'z) proxy_scheme \<Rightarrow> bool \<times> ('o, 'z) proxy_scheme" where
  "reload_client_policy en path h = (case en_policy en path of
     Inl _ \<Rightarrow> (False, h)
   | Inr policy \<Rightarrow> (True, set_policy (Some policy) h))"

subsection \<open>What a started program guarantees\<close>

lemma setting_Inr: "setting raw fallback p message = Inr v \<Longrightarrow> p v"
  by (cases raw) (auto simp: setting_def Let_def split: if_splits)

lemma read_settings_Inr:
  assumes "read_settings en = Inr st"
  shows "1 \<le> st_retention st \<and> st_retention st \<le> 100000 \<and> millisecond \<le> st_dial_timeout st \<and>
    second \<le> st_session_idle st \<and> st_session_idle st \<le> 24 * hour \<and>
    st_session_idle st \<le> st_session_max st \<and> st_session_max st \<le> 168 * hour \<and>
    second \<le> st_response_header st \<and> st_response_header st \<le> 10 * minute \<and>
    1024 \<le> st_capture_limit st \<and> st_capture_limit st \<le> 4194304 \<and>
    st_capture_limit st \<le> st_mediation_limit st \<and> st_mediation_limit st \<le> 67108864 \<and>
    1 \<le> st_queue_capacity st \<and> 1 \<le> st_workers st"
proof -
  obtain retention dial idle max_duration header capture mediation queue workers where
    r: "setting (en_int en ''VEILGATED_FLOW_RETENTION'') 1000 (\<lambda>v. \<not> (v < 1 \<or> 100000 < v))
      ''VEILGATED_FLOW_RETENTION must be between 1 and 100000'' = Inr retention"
    "setting (en_duration en ''VEILGATED_DIAL_TIMEOUT'') (10 * second) (\<lambda>v. \<not> v < millisecond)
      ''VEILGATED_DIAL_TIMEOUT must be at least 1ms'' = Inr dial"
    "setting (en_duration en ''VEILGATED_SESSION_IDLE_TIMEOUT'') (10 * minute) (\<lambda>v. \<not> (v < second \<or> 24 * hour < v))
      ''VEILGATED_SESSION_IDLE_TIMEOUT must be between 1s and 24h'' = Inr idle"
    "setting (en_duration en ''VEILGATED_SESSION_MAX_DURATION'') (2 * hour) (\<lambda>v. \<not> (v < idle \<or> 7 * 24 * hour < v))
      ''VEILGATED_SESSION_MAX_DURATION must be at least the idle timeout and at most 168h'' = Inr max_duration"
    "setting (en_duration en ''VEILGATED_UPSTREAM_RESPONSE_HEADER_TIMEOUT'') (60 * second) (\<lambda>v. \<not> (v < second \<or> 10 * minute < v))
      ''VEILGATED_UPSTREAM_RESPONSE_HEADER_TIMEOUT must be between 1s and 10m'' = Inr header"
    "setting (en_int en ''VEILGATED_CAPTURE_LIMIT_BYTES'') (2 ^ 20) (\<lambda>v. \<not> (v < 1024 \<or> 4 * 2 ^ 20 < v))
      ''VEILGATED_CAPTURE_LIMIT_BYTES must be between 1024 and 4194304'' = Inr capture"
    "setting (en_int en ''VEILGATED_MEDIATION_LIMIT_BYTES'') (32 * 2 ^ 20) (\<lambda>v. \<not> (v < capture \<or> 64 * 2 ^ 20 < v))
      ''VEILGATED_MEDIATION_LIMIT_BYTES must be at least the capture limit and at most 67108864'' = Inr mediation"
    "setting (en_int en ''VEILGATED_RECORD_QUEUE_CAPACITY'') 256 (\<lambda>v. \<not> v < 1)
      ''VEILGATED_RECORD_QUEUE_CAPACITY must be at least 1'' = Inr queue"
    "setting (en_int en ''VEILGATED_RECORD_WORKERS'') 4 (\<lambda>v. \<not> v < 1)
      ''VEILGATED_RECORD_WORKERS must be at least 1'' = Inr workers"
    and st: "st = \<lparr>st_retention = retention, st_dial_timeout = dial, st_session_idle = idle, st_session_max = max_duration,
        st_response_header = header, st_capture_limit = capture, st_mediation_limit = mediation,
        st_queue_capacity = queue, st_workers = workers\<rparr>"
    using assms unfolding read_settings_def rbind_Inr_iff by blast
  from r [THEN setting_Inr] show ?thesis unfolding st by simp
qed

lemma deployed_proxy_fields:
  "px_interceptor (deployed_proxy a s cs d) \<longleftrightarrow> dp_authority d \<noteq> None"
  "hd_secrets (deployed_proxy a s cs d) g = (if dp_oauth d = None
     then combine_brokers [map_option (static_broker a s) (dp_secrets d), None] else gateway_secrets a s (dp_secrets d) g)"
  "hd_mediation_limit (deployed_proxy a s cs d) = st_mediation_limit (dp_settings d)"
  "hd_capture_limit (deployed_proxy a s cs d) = st_capture_limit (dp_settings d)"
  by (simp_all add: deployed_proxy_def Let_def wire_brokers_def)

lemma run_serve_Inr:
  assumes "run_serve en = Inr d"
  shows "read_settings en = Inr (dp_settings d) \<and>
    validate_console_auth (dp_console_addr d) (dp_console_user d) (dp_console_password d) = Inr () \<and>
    start_secrets en (dp_authority d) = Inr (dp_secrets d) \<and> start_oauth en (dp_authority d) = Inr (dp_oauth d)"
  using assms unfolding run_serve_def Let_def rbind_Inr_iff by auto

lemma start_brokers_need_authority:
  "start_secrets en None = Inr b \<Longrightarrow> b = None" "start_oauth en None = Inr b' \<Longrightarrow> b' = None"
  by (auto simp: start_secrets_def start_oauth_def Let_def split: if_splits)



subsection \<open>One start\<close>

text \<open>An environment without settings, with the certificates of the proxy, an interception authority and
  OAuth definitions in their default places.\<close>

definition sample_environment :: environment where
  "sample_environment = \<lparr>en_get = (\<lambda>_. []), en_or = (\<lambda>_ fallback. fallback), en_int = (\<lambda>_. Inr 0), en_duration = (\<lambda>_. Inr 0),
     en_regular = (\<lambda>path. path \<in> set [default_proxy_cert, default_proxy_key, default_intercept_cert, default_intercept_key,
       ''/etc/veilgate/oauth.json'']),
     en_read = (\<lambda>_. Inr ''{\"brokers\":[1]}''), en_policy = (\<lambda>_. Inr [sample_client_ok]), en_key_pair = (\<lambda>_ _. Inr ()), en_audit = Inr (),
     en_authority = (\<lambda>_ _. Inr sample_authority), en_secrets = (\<lambda>_. Inl ''no secrets''), en_oauth = (\<lambda>_ _. Inr sample_start),
     en_store = (\<lambda>_ _. Inr ()), en_console = Inr ()\<rparr>"

lemma loopback_default: "is_loopback_console_addr ''127.0.0.1:8081''"
proof -
  have "split_host_port ''127.0.0.1:8081'' = Some (''127.0.0.1'', ''8081'')" by (simp add: evaluate)
  moreover have "parse_addr ''127.0.0.1'' = Some (Ip4 0x7F000001)" by (simp add: evaluate)
  moreover have "ip_is_loopback (ip_unmap (Ip4 0x7F000001))" by code_simp
  ultimately show ?thesis by (simp add: is_loopback_console_addr_def Let_def)
qed

lemma sample_oauth_file: "optional_policy_file sample_environment ''VEILGATED_OAUTH_FILE'' ''/etc/veilgate/oauth.json'' ''brokers'' =
    ''/etc/veilgate/oauth.json''"
proof -
  have m: "unmarshal_map ''{\"brokers\":[1]}'' = Some (Some [(''brokers'', ''[1]'')])" by (simp add: evaluate)
  have e: "json_unmarshal ''[1]'' = Some (J_Arr [J_Num ''1''])" by (simp add: evaluate)
  have t: "trim_space ''{\"brokers\":[1]}'' = ''{\"brokers\":[1]}''" by (rule trim_space_graphic) (simp add: graphic_def)
  show ?thesis
    by (simp add: optional_policy_file_def sample_environment_def t m e Let_def)
qed

lemma sample_secrets_file: "optional_policy_file sample_environment ''VEILGATED_SECRETS_FILE'' ''/etc/veilgate/secrets.json'' ''secrets'' = []"
  by (simp add: optional_policy_file_def sample_environment_def)

lemma sample_settings: "\<exists>st. read_settings sample_environment = Inr st"
  by (simp add: read_settings_def sample_environment_def setting_def)

lemma sample_run: "\<exists>d. run_serve sample_environment = Inr d \<and> dp_oauth d = Some sample_start \<and> dp_console_user d = []"
proof -
  obtain st where st: "read_settings sample_environment = Inr st" using sample_settings by blast
  have level: "configure_log_level (en_get sample_environment ''VEILGATED_LOG_LEVEL'') = Inr Log_Info"
    by (simp add: configure_log_level_def sample_environment_def trim_space_graphic Let_def evaluate)
  have console: "validate_console_auth ''127.0.0.1:8081'' [] [] = Inr ()"
    by (simp add: validate_console_auth_def loopback_default)
  have ca: "start_interception sample_environment = Inr (Some sample_authority)"
    by (simp add: start_interception_def sample_environment_def Let_def)
  have secrets: "start_secrets sample_environment (Some sample_authority) = Inr None"
    by (simp add: start_secrets_def sample_secrets_file)
  have oauth: "start_oauth sample_environment (Some sample_authority) = Inr (Some sample_start)"
    unfolding start_oauth_def sample_oauth_file by (simp add: sample_environment_def)
  show ?thesis
    unfolding run_serve_def st level ca rbind.simps secrets oauth Let_def
    by (simp add: sample_environment_def console require_def)
qed



end
