(* ===== verification/Console.thy ===== *)
theory Console
  imports Flow_Store Go_Http Oauth_Config
begin

text \<open>
  The console (\<open>internal/console/console.go\<close>): authentication, routes, the filter of a query, and the
  answers over the flow store. Encoded flows and pages stand for themselves in an answer; only the
  events of the live stream are spelled out. The embedded assets are arguments.
\<close>

subsection \<open>Requests\<close>

text \<open>\<open>cq_path\<close> is the escaped path, \<open>cq_query\<close> the raw query, \<open>cq_flusher\<close> whether the connection can
  stream.\<close>

record console_request =
  cq_method :: string
  cq_path :: string
  cq_query :: string
  cq_header :: headers
  cq_flusher :: bool

definition unescaped :: "string \<Rightarrow> string" where
  "unescaped s = (case path_unescape s of None \<Rightarrow> s | Some t \<Rightarrow> t)"

text \<open>\<open>URL.Query\<close> leaves malformed pairs out.\<close>

definition url_query :: "string \<Rightarrow> url_values" where
  "url_query q = (let pieces = split_on (CHR ''&'') q in
     if 10000 < length pieces then []
     else foldl (\<lambda>m p. case parse_pair p of Some (Some (k, v)) \<Rightarrow> values_add k v m | _ \<Rightarrow> m) [] pieces)"

definition query_get :: "url_values \<Rightarrow> string \<Rightarrow> string" where
  "query_get m name = (case map_of m name of Some (v # _) \<Rightarrow> v | _ \<Rightarrow> [])"

text \<open>\<open>Request.BasicAuth\<close>.\<close>

definition parse_basic_auth :: "string \<Rightarrow> (string \<times> string) option" where
  "parse_basic_auth auth =
    (if length auth < 6 \<or> map lower_char (take 6 auth) \<noteq> ''basic '' then None
     else case b64_decode b64_std True (drop 6 auth) of None \<Rightarrow> None
     | Some decoded \<Rightarrow> cut_on (CHR '':'') decoded)"

subsection \<open>Routes\<close>

text \<open>What \<open>ServeMux\<close> chooses: the seven patterns, and its own answers. A path that is not clean and the
  directory without its slash are moved; the patterns are for GET, which includes HEAD.\<close>

datatype console_route = To_Health | To_Static | To_List | To_Item string | To_Events | To_Index
  | Moved | Method_Not_Allowed | Not_Found

definition clean_path :: "string \<Rightarrow> bool" where
  "clean_path p = (case p of [] \<Rightarrow> False
   | c # q \<Rightarrow> c = CHR ''/'' \<and>
      (let ws = split_on (CHR ''/'') q in
       list_all (\<lambda>w. w \<noteq> [] \<and> w \<noteq> ''.'' \<and> w \<noteq> ''..'') (if last ws = [] then butlast ws else ws)))"

definition match_segments :: "string list \<Rightarrow> console_route" where
  "match_segments raw = (let segs = map unescaped raw in
     if segs = [''healthz''] then To_Health
     else if segs = [''static''] then Moved
     else if hd segs = ''static'' then To_Static
     else if segs = [''api'', ''v1'', ''flows''] then To_List
     else if length segs = 4 \<and> take 3 segs = [''api'', ''v1'', ''flows''] \<and> last raw \<noteq> [] then To_Item (last segs)
     else if segs = [''api'', ''v1'', ''events''] then To_Events
     else To_Index)"

definition console_route_of :: "string \<Rightarrow> string \<Rightarrow> console_route" where
  "console_route_of meth path =
    (if meth = ''CONNECT'' then if path = [] then Not_Found else Method_Not_Allowed
     else if \<not> clean_path path then Moved
     else if meth \<noteq> ''GET'' \<and> meth \<noteq> ''HEAD'' then Method_Not_Allowed
     else match_segments (split_on (CHR ''/'') (tl path)))"

subsection \<open>Filters and summaries\<close>

definition flow_summary :: "flow \<Rightarrow> flow" where
  "flow_summary item = item\<lparr>fl_secrets := [], fl_response_secrets := [], fl_trace := [], fl_capture := empty_capture\<rparr>"

text \<open>The lengths are checked in the order of one iteration over a map, \<open>order\<close>.\<close>

definition long_filter :: "flow_filter \<Rightarrow> string \<Rightarrow> bool" where
  "long_filter f name \<longleftrightarrow> 253 < length
     (if name = ''client'' then ff_client f else if name = ''host'' then ff_host f else ff_mode f)"

definition parse_filter :: "string list \<Rightarrow> string \<Rightarrow> (string, flow_filter) result" where
  "parse_filter order raw_query =
    (let query = url_query raw_query;
         f = \<lparr>ff_client = trim_space (query_get query ''client''), ff_host = to_lower (trim_space (query_get query ''host'')),
           ff_decision = to_lower (trim_space (query_get query ''decision'')), ff_mode = to_lower (trim_space (query_get query ''mode'')),
           ff_method = [], ff_sessions = [], ff_before = 0, ff_limit = 0\<rparr> in
     case find (long_filter f) order of Some name \<Rightarrow> Inl (name @ '' filter is too long'') | None \<Rightarrow>
     rbind (require (\<not> (ff_decision f \<noteq> [] \<and> ff_decision f \<noteq> ''allowed'' \<and> ff_decision f \<noteq> ''denied''))
       ''decision filter must be allowed or denied'') (\<lambda>_.
     rbind (let raw = query_get query ''limit'' in if raw = [] then Inr f else
       case atoi raw of None \<Rightarrow> Inl ''limit must be between 1 and 10000''
       | Some n \<Rightarrow> if n < 1 \<or> 10000 < n then Inl ''limit must be between 1 and 10000'' else Inr (f\<lparr>ff_limit := n\<rparr>)) (\<lambda>f.
     let raw = query_get query ''before_id'' in if raw = [] then Inr f else
       case parse_uint raw of None \<Rightarrow> Inl ''before_id must be a positive integer''
       | Some n \<Rightarrow> if n < 1 then Inl ''before_id must be a positive integer'' else Inr (f\<lparr>ff_before := of_nat n\<rparr>))))"

subsection \<open>Answers\<close>

datatype console_body = Health_Text | Static_Content string | Page_Json page | Flow_Json flow
  | Event_Stream flow_filter nat | Index_Content string | Message string | Mux_Body

record console_reply =
  rp_status :: int
  rp_header :: headers
  rp_body :: console_body

record console_config =
  cg_username :: string
  cg_password :: string
  cg_static :: "headers \<Rightarrow> string \<Rightarrow> int \<times> string"
  cg_index :: "string option"
  cg_order :: "string list"

definition http_error :: "headers \<Rightarrow> string \<Rightarrow> int \<Rightarrow> console_reply" where
  "http_error h message status = \<lparr>rp_status = status,
     rp_header = header_set ''X-Content-Type-Options'' ''nosniff'' (header_set ''Content-Type'' ''text/plain; charset=utf-8'' h),
     rp_body = Message message\<rparr>"

definition write_json :: "headers \<Rightarrow> int \<Rightarrow> console_body \<Rightarrow> console_reply" where
  "write_json h status b = \<lparr>rp_status = status,
     rp_header = header_set ''Cache-Control'' ''no-store'' (header_set ''Content-Type'' ''application/json'' h), rp_body = b\<rparr>"

definition summarize_page :: "page \<Rightarrow> page" where
  "summarize_page pg = pg\<lparr>pg_flows := map flow_summary (pg_flows pg), pg_parents := map flow_summary (pg_parents pg)\<rparr>"

definition serve_list :: "string list \<Rightarrow> 's backend \<Rightarrow> 's store \<Rightarrow> headers \<Rightarrow> string \<Rightarrow> console_reply" where
  "serve_list order ops s h query = (case parse_filter order query of
     Inl e \<Rightarrow> http_error h e 400
   | Inr f \<Rightarrow> (case list_page ops True s f of
       Inl _ \<Rightarrow> http_error h ''flow store unavailable'' 500
     | Inr pg \<Rightarrow> write_json h 200 (Page_Json (summarize_page pg))))"

definition serve_item :: "'s backend \<Rightarrow> 's store \<Rightarrow> headers \<Rightarrow> string \<Rightarrow> console_reply" where
  "serve_item ops s h raw = (case parse_uint raw of
     None \<Rightarrow> http_error h ''invalid flow id'' 400
   | Some n \<Rightarrow> (case store_get ops s (of_nat n) of
       Inl _ \<Rightarrow> http_error h ''flow store unavailable'' 500
     | Inr None \<Rightarrow> http_error h ''flow not found'' 404
     | Inr (Some item) \<Rightarrow> write_json h 200 (Flow_Json item)))"

text \<open>The event stream subscribes; the bounds of a page do not apply to it.\<close>

definition serve_events :: "string list \<Rightarrow> 's store \<Rightarrow> headers \<Rightarrow> bool \<Rightarrow> string \<Rightarrow> console_reply \<times> 's store" where
  "serve_events order s h flusher query = (case parse_filter order query of
     Inl e \<Rightarrow> (http_error h e 400, s)
   | Inr f \<Rightarrow> (let f = f\<lparr>ff_before := 0\<rparr> in
       if \<not> flusher then (http_error h ''streaming unavailable'' 500, s)
       else (case subscribe s of (ch, s) \<Rightarrow>
         (\<lparr>rp_status = 200, rp_header = header_set ''X-Accel-Buffering'' ''no'' (header_set ''Cache-Control'' ''no-cache''
             (header_set ''Content-Type'' ''text/event-stream'' h)), rp_body = Event_Stream f ch\<rparr>, s))))"

abbreviation line_feed :: char where "line_feed \<equiv> CHR 0x0A"

definition event_frame :: "64 word \<Rightarrow> string \<Rightarrow> string" where
  "event_frame i payload = ''id: '' @ nat_digits (unat i) @ line_feed # ''event: flow'' @ line_feed # ''data: '' @ payload
     @ [line_feed, line_feed]"

text \<open>What the stream writes for the flows it receives: it ends at a flow that cannot be encoded.\<close>

fun event_frames :: "(flow \<Rightarrow> string option) \<Rightarrow> flow_filter \<Rightarrow> flow list \<Rightarrow> string list" where
  "event_frames encode f [] = []"
| "event_frames encode f (item # items) =
    (if \<not> matches_filter item f then event_frames encode f items
     else case encode (flow_summary item) of None \<Rightarrow> []
     | Some payload \<Rightarrow> event_frame (fl_id item) payload # event_frames encode f items)"

text \<open>A source of the content policy stands in single quotes.\<close>

definition policy_source :: "string \<Rightarrow> string \<Rightarrow> string" where
  "policy_source directive source = directive @ '' '' @ CHR 0x27 # source @ [CHR 0x27]"

definition content_policy :: string where
  "content_policy = join_with ''; ''
    [policy_source ''default-src'' ''self'', policy_source ''connect-src'' ''self'', policy_source ''img-src'' ''self'',
     policy_source ''style-src'' ''self'', policy_source ''script-src'' ''self'', policy_source ''base-uri'' ''none'',
     policy_source ''frame-ancestors'' ''none'', policy_source ''form-action'' ''none'']"

definition security_headers :: "headers \<Rightarrow> headers" where
  "security_headers h = header_set ''X-Frame-Options'' ''DENY'' (header_set ''X-Content-Type-Options'' ''nosniff''
    (header_set ''Referrer-Policy'' ''no-referrer'' (header_set ''Content-Security-Policy'' content_policy h)))"

definition serve_routes :: "console_config \<Rightarrow> 's backend \<Rightarrow> 's store \<Rightarrow> headers \<Rightarrow> console_request \<Rightarrow> console_reply \<times> 's store" where
  "serve_routes cg ops s h r = (case console_route_of (cq_method r) (cq_path r) of
     To_Health \<Rightarrow> (\<lparr>rp_status = 200, rp_header = header_set ''Content-Type'' ''text/plain; charset=utf-8'' h, rp_body = Health_Text\<rparr>, s)
   | To_Static \<Rightarrow>
       (if \<not> has_prefix (cq_path r) ''/static/'' then http_error h ''404 page not found'' 404
        else case cg_static cg (cq_header r) (drop 8 (unescaped (cq_path r))) of
          (status, content) \<Rightarrow> \<lparr>rp_status = status, rp_header = h, rp_body = Static_Content content\<rparr>, s)
   | To_List \<Rightarrow> (serve_list (cg_order cg) ops s h (cq_query r), s)
   | To_Item raw \<Rightarrow> (serve_item ops s h raw, s)
   | To_Events \<Rightarrow> serve_events (cg_order cg) s h (cq_flusher r) (cq_query r)
   | To_Index \<Rightarrow>
       (if unescaped (cq_path r) \<noteq> ''/'' then http_error h ''404 page not found'' 404
        else case cg_index cg of None \<Rightarrow> http_error h ''console unavailable'' 500
        | Some content \<Rightarrow> \<lparr>rp_status = 200, rp_header = header_set ''Content-Type'' ''text/html; charset=utf-8'' h,
            rp_body = Index_Content content\<rparr>, s)
   | Moved \<Rightarrow> (\<lparr>rp_status = 301, rp_header = h, rp_body = Mux_Body\<rparr>, s)
   | Method_Not_Allowed \<Rightarrow> (http_error (header_set ''Allow'' ''GET, HEAD'' h) ''Method Not Allowed'' 405, s)
   | Not_Found \<Rightarrow> (http_error h ''404 page not found'' 404, s))"

definition authorized :: "string \<Rightarrow> string \<Rightarrow> console_request \<Rightarrow> bool" where
  "authorized username password r \<longleftrightarrow> parse_basic_auth (header_get (cq_header r) ''Authorization'') = Some (username, password)"

definition console_handler :: "console_config \<Rightarrow> 's backend \<Rightarrow> 's store \<Rightarrow> console_request \<Rightarrow> console_reply \<times> 's store" where
  "console_handler cg ops s r =
    (if (cg_username cg \<noteq> [] \<and> cg_password cg \<noteq> []) \<and> unescaped (cq_path r) \<noteq> ''/healthz'' \<and>
        \<not> authorized (cg_username cg) (cg_password cg) r
     then (http_error (header_set ''WWW-Authenticate''
         (''Basic realm='' @ CHR 0x22 # ''veilgate console'' @ CHR 0x22 # '', charset='' @ CHR 0x22 # ''UTF-8'' @ [CHR 0x22]) [])
         ''authentication required'' 401, s)
     else serve_routes cg ops s (security_headers []) r)"

subsection \<open>The path that needs no password\<close>

lemma path_unescape_keeps:
  "path_unescape s = Some t \<Longrightarrow> CHR ''/'' \<in> set s \<Longrightarrow> CHR ''/'' \<in> set t"
proof (induction s arbitrary: t rule: path_unescape.induct)
  case (2 c s)
  show ?case
  proof (cases "c = CHR ''%''")
    case True
    with 2 show ?thesis
      by (auto simp: hex_digit_def split: list.splits option.splits if_splits)
  next
    case False
    with 2 show ?thesis by (cases "path_unescape s") auto
  qed
qed simp

lemma health_route:
  assumes "unescaped p = ''/healthz''"
  shows "console_route_of meth p \<in> {To_Health, Moved, Method_Not_Allowed}"
proof (cases "clean_path p \<and> meth \<noteq> ''CONNECT'' \<and> (meth = ''GET'' \<or> meth = ''HEAD'')")
  case True
  then obtain q where p: "p = CHR ''/'' # q" by (cases p) (auto simp: clean_path_def)
  have q: "unescaped q = ''healthz''"
    using assms by (simp add: p unescaped_def split: option.splits)
  have "CHR ''/'' \<notin> set q"
  proof
    assume "CHR ''/'' \<in> set q"
    with q path_unescape_keeps [of q "unescaped q"] show False by (auto simp: unescaped_def split: option.splits)
  qed
  then have "split_on (CHR ''/'') q = [q]" by (rule split_on_id)
  with True q show ?thesis by (auto simp: console_route_of_def p match_segments_def Let_def)
next
  case False
  moreover have "p \<noteq> []" using assms by (auto simp: unescaped_def)
  ultimately show ?thesis by (auto simp: console_route_of_def)
qed

lemma flow_summary_view: "flow_summary = clone_flow_summary"
  by (simp add: flow_summary_def clone_flow_summary_def fun_eq_iff)

lemma clone_flow_summary_idem [simp]: "clone_flow_summary (clone_flow_summary x) = clone_flow_summary x"
  by (simp add: clone_flow_summary_def)

lemma parse_filter_Inr:
  assumes "parse_filter order query = Inr f" and "set order = {''client'', ''host'', ''mode''}"
  shows "length (ff_client f) \<le> 253 \<and> length (ff_host f) \<le> 253 \<and> length (ff_mode f) \<le> 253 \<and>
    0 \<le> ff_limit f \<and> ff_limit f \<le> 10000"
proof -
  define g where "g = (let query = url_query query in
    \<lparr>ff_client = trim_space (query_get query ''client''), ff_host = to_lower (trim_space (query_get query ''host'')),
      ff_decision = to_lower (trim_space (query_get query ''decision'')), ff_mode = to_lower (trim_space (query_get query ''mode'')),
      ff_method = [], ff_sessions = [], ff_before = 0, ff_limit = 0\<rparr>)"
  obtain h where short: "find (long_filter g) order = None"
    and h: "(let raw = query_get (url_query query) ''limit'' in if raw = [] then Inr g else
       case atoi raw of None \<Rightarrow> Inl ''limit must be between 1 and 10000''
       | Some n \<Rightarrow> if n < 1 \<or> 10000 < n then Inl ''limit must be between 1 and 10000'' else Inr (g\<lparr>ff_limit := n\<rparr>)) = Inr h"
    and f: "(let raw = query_get (url_query query) ''before_id'' in if raw = [] then Inr h else
       case parse_uint raw of None \<Rightarrow> Inl ''before_id must be a positive integer''
       | Some n \<Rightarrow> if n < 1 then Inl ''before_id must be a positive integer'' else Inr (h\<lparr>ff_before := of_nat n\<rparr>)) = Inr f"
    using assms(1) unfolding parse_filter_def g_def Let_def
    by (cases "find (long_filter g) order") (auto simp: g_def Let_def)
  have "length (ff_client g) \<le> 253 \<and> length (ff_host g) \<le> 253 \<and> length (ff_mode g) \<le> 253"
  proof -
    have "\<forall>name \<in> set order. \<not> long_filter g name" using short by (simp add: find_None_iff)
    then show ?thesis unfolding assms(2) by (simp add: long_filter_def not_less)
  qed
  moreover have "ff_client h = ff_client g" "ff_host h = ff_host g" "ff_mode h = ff_mode g" "0 \<le> ff_limit h" "ff_limit h \<le> 10000"
    using h by (auto simp: Let_def g_def split: option.splits if_splits)
  moreover have "ff_client f = ff_client h" "ff_host f = ff_host h" "ff_mode f = ff_mode h" "ff_limit f = ff_limit h"
    using f by (auto simp: Let_def split: option.splits if_splits)
  ultimately show ?thesis by simp
qed

text \<open>The flows that an answer carries.\<close>

definition discloses :: "console_body \<Rightarrow> flow set" where
  "discloses b = (case b of Page_Json pg \<Rightarrow> set (pg_flows pg) \<union> set (pg_parents pg) | Flow_Json item \<Rightarrow> {item} | _ \<Rightarrow> {})"

lemma discloses_error [simp]: "discloses (rp_body (http_error h m n)) = {}"
  by (simp add: discloses_def http_error_def)

lemma discloses_list: "x \<in> discloses (rp_body (serve_list order ops s h query)) \<Longrightarrow> clone_flow_summary x = x"
  by (auto simp: serve_list_def write_json_def summarize_page_def flow_summary_view discloses_def [of "Page_Json _"] split: sum.splits)

lemma discloses_events [simp]: "discloses (rp_body (fst (serve_events order s h fl query))) = {}"
  by (simp add: serve_events_def Let_def discloses_def [of "Event_Stream _ _"] split: sum.split prod.split)

lemma serve_routes_discloses:
  assumes "x \<in> discloses (rp_body (fst (serve_routes cg ops s h r)))"
  shows "(\<exists>raw. console_route_of (cq_method r) (cq_path r) = To_Item raw) \<or> clone_flow_summary x = x"
proof (cases "console_route_of (cq_method r) (cq_path r)")
  case To_List
  with assms discloses_list [of x "cg_order cg" ops s h "cq_query r"] show ?thesis by (simp add: serve_routes_def)
qed (use assms in \<open>auto simp: serve_routes_def discloses_def [of Health_Text] discloses_def [of Mux_Body]
  discloses_def [of "Static_Content _"] discloses_def [of "Index_Content _"] split: prod.splits option.splits if_splits\<close>)

lemma serve_routes_health:
  assumes "unescaped (cq_path r) = ''/healthz''"
  shows "snd (serve_routes cg ops s h r) = s \<and>
    rp_body (fst (serve_routes cg ops s h r)) \<in> {Health_Text, Mux_Body, Message ''Method Not Allowed''}"
  using health_route [OF assms, of "cq_method r"] by (auto simp: serve_routes_def http_error_def)

lemma summary_parts:
  assumes "clone_flow_summary x = x"
  shows "fl_capture x = empty_capture \<and> fl_trace x = [] \<and> fl_secrets x = [] \<and> fl_response_secrets x = []"
  by (subst (1 2 3 4) assms [symmetric]) (simp add: clone_flow_summary_def)

subsection \<open>Properties of the console\<close>



subsection \<open>Requests to a console\<close>

definition sample_console :: console_config where
  "sample_console = \<lparr>cg_username = ''ops'', cg_password = ''pw'', cg_static = (\<lambda>_ _. (404, [])), cg_index = None,
     cg_order = [''client'', ''host'', ''mode'']\<rparr>"

definition sample_get :: "string \<Rightarrow> string \<Rightarrow> console_request" where
  "sample_get path auth = \<lparr>cq_method = ''GET'', cq_path = path, cq_query = ''limit=1'', cq_header = [(''Authorization'', [auth])], cq_flusher = True\<rparr>"



end
