(* ===== verification/Spec2Isabelle.thy ===== *)
theory Spec2Isabelle
  imports Client_Policy Destination Secret_Transform Flow_Sqlite Proxy_Handler Gateway Authority
    Certificate_Files Startup Console
begin

text \<open>
  \<^bold>\<open>Veilgate, a secret-aware egress gateway: its model and what is proved about it.\<close>

  The program (Go, under \<open>src/\<close>) is a forward proxy for agents in sandboxes. A client authenticates with
  a token; the policy says which hosts it may reach; the proxy resolves the host to a public address,
  and either tunnels the connection or intercepts it with a certificate of its own. Intercepted
  requests may contain placeholders, which the static broker and the OAuth broker replace by secrets
  on the way to the upstream, and responses are scrubbed of secrets on the way back. Every request
  leaves a flow, a sanitized record with a trace of the policy checks, in a store that a console reads.

  \<^bold>\<open>Theories and code\<close>, in the order of their dependencies:

  \<^item> \<^theory_text>\<open>Prelude\<close>: the result type \<open>('e, 'a) result\<close> of fallible code with \<open>rbind\<close> and \<open>require\<close>, operations on
    texts, and the collection \<open>evaluate\<close> of executable definitions.
  \<^item> \<^theory_text>\<open>Go_Unicode\<close>, \<^theory_text>\<open>Go_Strings\<close>, \<^theory_text>\<open>Go_Net\<close>, \<^theory_text>\<open>Go_Encoding\<close>, \<^theory_text>\<open>Go_Json\<close>, \<^theory_text>\<open>Go_Raw_Json\<close>, \<^theory_text>\<open>Go_Glob\<close>,
    \<^theory_text>\<open>Go_Time\<close>, \<^theory_text>\<open>Go_Http\<close>: what the code uses of Go's standard library. Strings are byte strings, runes are
    decoded as Go does, IP addresses are machine words, headers and JSON objects are association
    lists in the order of one iteration over the Go map.
  \<^item> \<^theory_text>\<open>Host_Pattern\<close> (\<open>internal/hostpattern\<close>), \<^theory_text>\<open>Request_Rules\<close> and \<^theory_text>\<open>Client_Policy\<close> (\<open>internal/config\<close>): validation
    of the policy, authentication, the destinations and rules of a client. An accepted policy is well
    formed and a fixed point of its validation; a token authenticates its owner only.
  \<^item> \<^theory_text>\<open>Destination\<close> (\<open>internal/proxy/destination.go\<close>): the addresses the proxy may dial are exactly those
    outside the special-purpose ranges; an IPv6 address with a zone is the exception.
  \<^item> \<^theory_text>\<open>Needle_Trie\<close>, \<^theory_text>\<open>Secret_Broker\<close>, \<^theory_text>\<open>Secret_Transform\<close> (\<open>internal/secret\<close>): the trie of secrets, the substitution
    of placeholders, scrubbing and sanitizing, with the scan over the trie equal to a naive reference
    scan, and no placeholder used out of scope.
  \<^item> \<^theory_text>\<open>Oauth_Config\<close> and \<^theory_text>\<open>Oauth_Broker\<close> (\<open>internal/oauth\<close>): the definitions of token endpoints, and the broker
    with its records and live placeholders (\<open>oauth\<close> is the struct \<open>Broker\<close>). \<^theory_text>\<open>Oauth_Tokens\<close> has the
    invariant of the broker through all token responses (\<open>serving\<close>) and the reload of its state file,
    \<^theory_text>\<open>Oauth_Confinement\<close> the confinement of tokens to their client and hosts and the use of a token that was
    handed out, \<^theory_text>\<open>Oauth_Faults\<close> scrubbing, stale placeholders and two faults, \<^theory_text>\<open>Oauth_Examples\<close> one run.
  \<^item> \<^theory_text>\<open>Broker_Chain\<close>: the interface \<open>SecretBroker\<close> as a record of operations, the chain of brokers, and the
    locale \<open>mediating_broker\<close> of the laws the proxy relies on, with interpretations for the static
    broker, the OAuth broker (in \<^theory_text>\<open>Oauth_Broker\<close>) and the combined broker (in \<^theory_text>\<open>Gateway\<close>).
  \<^item> \<^theory_text>\<open>Flow\<close>, \<^theory_text>\<open>Flow_Store\<close>, \<^theory_text>\<open>Flow_Sqlite\<close> (\<open>internal/flow/store.go\<close>): flows, the ring buffer, which refines a list
    of the newest flows, paging, the live stream, and the statements and retention of the database.
  \<^item> \<^theory_text>\<open>Capture_Headers\<close>, \<^theory_text>\<open>Capture\<close>, \<^theory_text>\<open>Proxy_Text\<close>, \<^theory_text>\<open>Request_Policy\<close>, \<^theory_text>\<open>Streaming\<close>, \<^theory_text>\<open>Web_Socket\<close>, \<^theory_text>\<open>Upstream_Pool\<close>,
    \<^theory_text>\<open>Flow_Recorder\<close> (\<open>internal/proxy\<close>): mediation of requests and responses, inspection and rules, streamed
    responses, WebSocket sessions, the cache of transports, and the recording of flows.
  \<^item> \<^theory_text>\<open>Proxy_Handler\<close> (\<open>internal/proxy/proxy.go\<close>, \<open>http2.go\<close>): \<open>ServeHTTP\<close>, tunnels, plain requests and intercepted
    sessions, composed of the parts above. No upstream connection is made before all checks passed.
  \<^item> \<^theory_text>\<open>Authority\<close> and \<^theory_text>\<open>Certificate_Files\<close> (\<open>internal/intercept/authority.go\<close>): the certificate authority and its
    cache of leaf certificates; the commands that generate an authority or a proxy certificate, which
    never overwrite a file.
  \<^item> \<^theory_text>\<open>Gateway\<close> (\<open>cmd/veilgated/main.go\<close>): the brokers and the handler put together, and the path of a token
    response through the proxy. \<^theory_text>\<open>Startup\<close>: the settings and their ranges, the optional policy files, the
    order of \<open>runServe\<close>, the handler it builds, the audit event, and the reload of the client policy.
  \<^item> \<^theory_text>\<open>Console\<close> (\<open>internal/console/console.go\<close>): the password, the routes, the filters and the answers of the
    console over the flow store: who may read flows, which ones, and how much of them.

  \<^bold>\<open>State and effects.\<close> State is passed explicitly; a run of interleaved operations is an inductive relation
  (\<open>serving\<close> for the OAuth broker, \<open>operating\<close> for the authority, the steps of the pool and of the
  recorder). Operations that the code runs under one lock are one step. What comes from outside (name
  resolution, connections, random bytes, the clock, results of file operations, compression, the
  database engine, cryptography) is an argument; its documented behaviour, where a theorem needs it,
  is a named hypothesis (\<open>fresh_update\<close>: random placeholders do not repeat; \<open>draws_ok\<close>: random numbers
  are below their limit; \<open>lib_ok\<close>: parsed certificates have whole seconds).

  \<^bold>\<open>Fuel and termination.\<close> The JSON decoder runs on fuel of twice the length of its input plus one, as each
  step on the same input descends once, and refuses nesting beyond 10000 as Go does. The loop over
  random serial numbers is a partial function, and its termination is a theorem. All other functions
  terminate by structural recursion or by a measure.

  \<^bold>\<open>Not modelled.\<close> TLS records, X.509 and PEM encodings, the engines of compression, HTTP/2 framing and the
  database; logging, timeouts and deadlines, draining of request bodies, the shutdown of servers; the
  parsing of the environment and of command lines; the assets of the console and the JSON it writes;
  the message queue of the audit events; and the decoding of the configuration files. Concurrency inside an operation that holds a lock throughout is not modelled.
\<close>

end
